(* ===== verification/Prelude.thy ===== *)
theory Prelude
  imports Main "HOL-Library.Word"
begin

text \<open>
  The prelude of the development: the machine integers, the outcomes of a C function that
  can go wrong, byte memory, and the lemma collections the components share.

  \<^item> \<open>'a res\<close> is \<open>fault + 'a\<close>: \<open>Inl\<close> is an execution that leaves defined behaviour or that an
    assertion stops, \<open>Inr\<close> is a normal return. The \<open>int\<close> status codes of the program
    (0 and -1) are ordinary results, never faults.
  \<^item> \<open>mem\<close> is byte memory indexed from the start of one C object; \<open>load\<close> and \<open>store\<close> are
    \<^verbatim>\<open>memcpy\<close> out of and into it.
  \<^item> Multi-byte struct fields are stored low byte first: the program runs on little-endian
    hosts and swaps to network order itself.
\<close>

unbundle bit_operations_syntax

type_synonym u8 = "8 word"
type_synonym u16 = "16 word"
type_synonym u32 = "32 word"
type_synonym mem = "nat \<Rightarrow> u8"

subsection \<open>Faults and sequencing\<close>

datatype fault =
    OutOfBounds      \<comment> \<open>an access outside the object a pointer points into\<close>
  | NullDeref        \<comment> \<open>a null pointer is dereferenced\<close>
  | UseAfterFree     \<comment> \<open>a heap cell that is not allocated is accessed or freed\<close>
  | AssertFailed     \<comment> \<open>an assert, Assert or panic of the source stops the program\<close>
  | OutOfFuel        \<comment> \<open>a loop or dispatch went on longer than the model lets it\<close>

type_synonym 'a res = "fault + 'a"

definition ebind :: "'a res \<Rightarrow> ('a \<Rightarrow> 'b res) \<Rightarrow> 'b res" where
  "ebind m f = (case m of Inl e \<Rightarrow> Inl e | Inr x \<Rightarrow> f x)"

definition guard_else :: "bool \<Rightarrow> fault \<Rightarrow> unit res" where
  "guard_else P e = (if P then Inr () else Inl e)"

named_theorems mem_simps \<open>loads and stores of byte memory\<close>
named_theorems codec_simps \<open>encoders and decoders of packet headers\<close>
named_theorems frame_simps \<open>state components an operation leaves alone\<close>

lemma ebind_Inl [simp]: "ebind (Inl e) f = Inl e"
  by (simp add: ebind_def)

lemma ebind_Inr [simp]: "ebind (Inr x) f = f x"
  by (simp add: ebind_def)

lemma ebind_eq_Inr_iff: "ebind m f = Inr y \<longleftrightarrow> (\<exists>x. m = Inr x \<and> f x = Inr y)"
  by (cases m) auto

lemma ebind_eq_Inl_iff:
  "ebind m f = Inl e \<longleftrightarrow> m = Inl e \<or> (\<exists>x. m = Inr x \<and> f x = Inl e)"
  by (cases m) auto

lemma ebind_assoc: "ebind (ebind m f) g = ebind m (\<lambda>x. ebind (f x) g)"
  by (cases m) simp_all

lemma ebind_cong: "m = m' \<Longrightarrow> (\<And>x. m' = Inr x \<Longrightarrow> f x = g x) \<Longrightarrow> ebind m f = ebind m' g"
  by (cases m') simp_all

lemma ebind_InrE [elim!]:
  assumes "ebind m f = Inr y"
  obtains x where "m = Inr x" and "f x = Inr y"
  using assms by (auto simp: ebind_eq_Inr_iff)

lemma guard_else_True [simp]: "guard_else True e = Inr ()"
  by (simp add: guard_else_def)

lemma guard_else_False [simp]: "guard_else False e = Inl e"
  by (simp add: guard_else_def)

lemma guard_else_eq_Inr_iff [simp]: "guard_else P e = Inr u \<longleftrightarrow> P"
  by (simp add: guard_else_def)

text \<open>Subtraction of \<^verbatim>\<open>size_t\<close> values, 64 bits wide.\<close>

definition size_sub :: "nat \<Rightarrow> nat \<Rightarrow> nat" where
  "size_sub a b = (a + 2 ^ 64 - b) mod 2 ^ 64"

lemma size_sub_le: "b \<le> a \<Longrightarrow> a < 2 ^ 64 \<Longrightarrow> size_sub a b = a - b"
proof -
  assume "b \<le> a" "a < 2 ^ 64"
  then have "a + 2 ^ 64 - b = (a - b) + 2 ^ 64" "a - b < 2 ^ 64" by simp_all
  then show ?thesis unfolding size_sub_def by (metis mod_add_self2 mod_less)
qed

subsection \<open>Byte memory\<close>

definition load :: "mem \<Rightarrow> nat \<Rightarrow> nat \<Rightarrow> u8 list" where
  "load m off n = map m [off ..< off + n]"

definition store :: "mem \<Rightarrow> nat \<Rightarrow> u8 list \<Rightarrow> mem" where
  "store m off bs = (\<lambda>i. if off \<le> i \<and> i < off + length bs then bs ! (i - off) else m i)"

lemma length_load [simp, mem_simps]: "length (load m off n) = n"
  by (simp add: load_def)

lemma load_0 [simp, mem_simps]: "load m off 0 = []"
  by (simp add: load_def)

lemma store_Nil [simp, mem_simps]: "store m off [] = m"
  by (rule ext) (auto simp: store_def)

lemma nth_load: "i < n \<Longrightarrow> load m off n ! i = m (off + i)"
  by (simp add: load_def)

lemma load_eqI: "(\<And>i. i < n \<Longrightarrow> m (off + i) = m' (off' + i)) \<Longrightarrow> load m off n = load m' off' n"
  by (rule nth_equalityI) (auto simp: nth_load)

lemma load_store_same [mem_simps]: "n = length bs \<Longrightarrow> load (store m off bs) off n = bs"
  by (rule nth_equalityI) (auto simp: nth_load store_def)

lemma load_store_disjoint [mem_simps]:
  "off' + n \<le> off \<or> off + length bs \<le> off' \<Longrightarrow> load (store m off bs) off' n = load m off' n"
  by (rule load_eqI) (auto simp: store_def)

lemma store_apply_outside [mem_simps]:
  "i < off \<or> off + length bs \<le> i \<Longrightarrow> store m off bs i = m i"
  by (auto simp: store_def)

lemma load_append: "load m off (a + b) = load m off a @ load m (off + a) b"
proof -
  have "[off ..< off + (a + b)] = [off ..< off + a] @ [off + a ..< off + a + b]"
    using upt_add_eq_append [of off "off + a" b] by (simp add: add.assoc)
  then show ?thesis by (simp add: load_def)
qed

lemma take_load [mem_simps]: "take k (load m off n) = load m off (min k n)"
  by (rule nth_equalityI) (auto simp: nth_load)

lemma drop_load [mem_simps]: "drop k (load m off n) = load m (off + k) (n - k)"
  by (rule nth_equalityI) (auto simp: nth_load add.assoc)

lemma store_load_id [mem_simps]: "store m off (load m off n) = m"
  by (rule ext) (auto simp: store_def nth_load)

lemma store_store_same: "length xs = length ys \<Longrightarrow> store (store m off xs) off ys = store m off ys"
  by (rule ext) (auto simp: store_def)

lemma store_append: "store (store m off xs) (off + length xs) ys = store m off (xs @ ys)"
  by (rule ext) (auto simp: store_def nth_append)

lemma store_commute:
  "off + length xs \<le> off' \<or> off' + length ys \<le> off \<Longrightarrow>
    store (store m off xs) off' ys = store (store m off' ys) off xs"
  by (rule ext) (auto simp: store_def)

lemma load_store_split:
  "load (store m off bs) off (length bs + n) = bs @ load m (off + length bs) n"
  by (simp add: load_append mem_simps)

subsection \<open>Little-endian fields\<close>

definition le16 :: "u8 \<Rightarrow> u8 \<Rightarrow> u16" where
  "le16 lo hi = ucast lo + 256 * ucast hi"

definition u16_bytes :: "u16 \<Rightarrow> u8 list" where
  "u16_bytes w = [ucast w, ucast (drop_bit 8 w)]"

definition le32 :: "u8 \<Rightarrow> u8 \<Rightarrow> u8 \<Rightarrow> u8 \<Rightarrow> u32" where
  "le32 a b c d = ucast a + 256 * ucast b + 65536 * ucast c + 16777216 * ucast d"

definition u32_bytes :: "u32 \<Rightarrow> u8 list" where
  "u32_bytes w = [ucast w, ucast (drop_bit 8 w), ucast (drop_bit 16 w), ucast (drop_bit 24 w)]"

lemma unat_u8_less: "unat (x :: u8) < 256"
  using unsigned_less [where w = x and 'a = nat] by simp

lemma unat_u16_less: "unat (x :: u16) < 65536"
  using unsigned_less [where w = x and 'a = nat] by simp

lemma unat_u32_less: "unat (x :: u32) < 4294967296"
  using unsigned_less [where w = x and 'a = nat] by simp

lemma unat_ucast_u8_u16 [simp]: "unat (ucast (x :: u8) :: u16) = unat x"
  by (simp add: unsigned_ucast_eq take_bit_nat_eq_self_iff unat_u8_less [THEN less_trans] unat_u16_less [THEN less_trans])

lemma unat_ucast_u8_u32 [simp]: "unat (ucast (x :: u8) :: u32) = unat x"
  by (simp add: unsigned_ucast_eq take_bit_nat_eq_self_iff unat_u8_less [THEN less_trans] unat_u16_less [THEN less_trans])

lemma unat_ucast_u16_u32 [simp]: "unat (ucast (x :: u16) :: u32) = unat x"
  by (simp add: unsigned_ucast_eq take_bit_nat_eq_self_iff unat_u8_less [THEN less_trans] unat_u16_less [THEN less_trans])

lemma unat_le16: "unat (le16 lo hi) = unat lo + 256 * unat hi"
  using unat_u8_less [of lo] unat_u8_less [of hi]
  by (simp add: le16_def unat_word_ariths)

lemma unat_lo_u16: "unat (ucast (w :: u16) :: u8) = unat w mod 256"
  by (simp add: unsigned_ucast_eq take_bit_eq_mod)

lemma unat_hi_u16: "unat (ucast (drop_bit 8 (w :: u16)) :: u8) = unat w div 256"
  using unat_u16_less [of w]
  by (simp add: unsigned_ucast_eq take_bit_eq_mod unat_drop_bit_eq drop_bit_eq_div
        unat_div_distrib)

lemma le16_u16_bytes [codec_simps]: "le16 (ucast w) (ucast (drop_bit 8 w)) = w"
proof (rule word_unat_eq_iff [THEN iffD2])
  show "unat (le16 (ucast w) (ucast (drop_bit 8 w))) = unat w"
    unfolding unat_le16 unat_hi_u16 by (simp add: unat_lo_u16)
qed

lemma ucast_le16_lo [codec_simps]: "ucast (le16 lo hi) = lo"
  using unat_u8_less [of lo]
  by (simp add: word_unat_eq_iff unat_lo_u16 unat_le16)

lemma ucast_le16_hi [codec_simps]: "ucast (drop_bit 8 (le16 lo hi)) = hi"
  using unat_u8_less [of lo]
  by (simp add: word_unat_eq_iff unat_hi_u16 unat_le16)

lemma unat_le32:
  "unat (le32 a b c d) = unat a + 256 * unat b + 65536 * unat c + 16777216 * unat d"
  using unat_u8_less [of a] unat_u8_less [of b] unat_u8_less [of c] unat_u8_less [of d]
  by (simp add: le32_def unat_word_ariths)

lemma unat_byte_u32:
  "unat (ucast (w :: u32) :: u8) = unat w mod 256"
  "unat (ucast (drop_bit 8 w) :: u8) = unat w div 256 mod 256"
  "unat (ucast (drop_bit 16 w) :: u8) = unat w div 65536 mod 256"
  "unat (ucast (drop_bit 24 w) :: u8) = unat w div 16777216"
  using unat_u32_less [of w]
  by (simp_all add: unsigned_ucast_eq take_bit_eq_mod drop_bit_eq_div unat_div_distrib)

lemma base256_digits:
  "n = 256 * q1 + r0 \<Longrightarrow> q1 = 256 * q2 + r1 \<Longrightarrow> q2 = 256 * q3 + r2 \<Longrightarrow>
    r0 + 256 * r1 + 65536 * r2 + 16777216 * q3 = (n :: nat)"
  by simp

lemma bytes_of_nat:
  "n mod 256 + 256 * (n div 256 mod 256) + 65536 * (n div 65536 mod 256)
     + 16777216 * (n div 16777216) = (n :: nat)"
proof -
  have d: "n div 65536 = n div 256 div 256" "n div 16777216 = n div 256 div 256 div 256"
    by (simp_all add: div_mult2_eq [symmetric])
  show ?thesis
    unfolding d by (rule base256_digits [where ?q1.0 = "n div 256" and ?q2.0 = "n div 256 div 256"])
      (simp_all only: mult_div_mod_eq)
qed

lemma le32_u32_bytes [codec_simps]:
  "le32 (ucast w) (ucast (drop_bit 8 w)) (ucast (drop_bit 16 w)) (ucast (drop_bit 24 w)) = w"
proof (rule word_unat_eq_iff [THEN iffD2])
  let ?n = "unat w"
  have "unat (le32 (ucast w) (ucast (drop_bit 8 w)) (ucast (drop_bit 16 w)) (ucast (drop_bit 24 w)))
      = ?n mod 256 + 256 * (?n div 256 mod 256) + 65536 * (?n div 65536 mod 256)
        + 16777216 * (?n div 16777216)"
    by (simp only: unat_le32 unat_byte_u32(2-4)) (simp only: unat_byte_u32(1))
  also have "\<dots> = ?n"
    by (rule bytes_of_nat)
  finally show "unat (le32 (ucast w) (ucast (drop_bit 8 w)) (ucast (drop_bit 16 w))
      (ucast (drop_bit 24 w))) = ?n" .
qed

lemma u16_bytes_inject [simp]: "u16_bytes v = u16_bytes w \<longleftrightarrow> v = w"
  by (auto simp: u16_bytes_def) (metis le16_u16_bytes)

lemma u32_bytes_inject [simp]: "u32_bytes v = u32_bytes w \<longleftrightarrow> v = w"
  by (auto simp: u32_bytes_def) (metis le32_u32_bytes)

lemma length_u16_bytes [simp]: "length (u16_bytes w) = 2"
  by (simp add: u16_bytes_def)

lemma length_u32_bytes [simp]: "length (u32_bytes w) = 4"
  by (simp add: u32_bytes_def)

end
