(* ===== verification/Utils.thy ===== *)
theory Utils
  imports Prelude
begin

text \<open>
  The helpers of \<^verbatim>\<open>src/utils.c\<close> and \<^verbatim>\<open>include/utils.h\<close>: byte swapping, the internet
  checksum, longest-prefix matching and the printable forms of addresses. The address types of
  \<^verbatim>\<open>include/net.h\<close> are here too, as every layer uses them: an address is the tuple of its
  bytes, so that its length is part of its type.
\<close>

type_synonym ip_addr = "u8 \<times> u8 \<times> u8 \<times> u8"
type_synonym mac_addr = "u8 \<times> u8 \<times> u8 \<times> u8 \<times> u8 \<times> u8"

fun ip_bytes :: "ip_addr \<Rightarrow> u8 list" where
  "ip_bytes (a, b, c, d) = [a, b, c, d]"

fun mac_bytes :: "mac_addr \<Rightarrow> u8 list" where
  "mac_bytes (a, b, c, d, e, f) = [a, b, c, d, e, f]"

definition ip_of :: "u8 list \<Rightarrow> ip_addr" where
  "ip_of bs = (bs ! 0, bs ! 1, bs ! 2, bs ! 3)"

definition mac_of :: "u8 list \<Rightarrow> mac_addr" where
  "mac_of bs = (bs ! 0, bs ! 1, bs ! 2, bs ! 3, bs ! 4, bs ! 5)"

lemma length_ip_bytes [simp]: "length (ip_bytes a) = 4"
  by (cases a) simp

lemma length_mac_bytes [simp]: "length (mac_bytes a) = 6"
  by (cases a) simp

lemma ip_of_ip_bytes [simp, codec_simps]: "ip_of (ip_bytes a) = a"
  by (cases a) (simp add: ip_of_def)

lemma mac_of_mac_bytes [simp, codec_simps]: "mac_of (mac_bytes a) = a"
  by (cases a) (simp add: mac_of_def)

lemma ip_bytes_inject [simp]: "ip_bytes a = ip_bytes b \<longleftrightarrow> a = b"
  by (metis ip_of_ip_bytes)

lemma mac_bytes_inject [simp]: "mac_bytes a = mac_bytes b \<longleftrightarrow> a = b"
  by (metis mac_of_mac_bytes)

subsection \<open>Byte order\<close>

definition swap16 :: "u16 \<Rightarrow> u16" where
  "swap16 x = (push_bit 8 (x AND 0xFF)) OR (drop_bit 8 x AND 0xFF)"

definition swap32 :: "u32 \<Rightarrow> u32" where
  "swap32 x =
     push_bit 24 (drop_bit 0 x AND 0xFF) OR
     push_bit 16 (drop_bit 8 x AND 0xFF) OR
     push_bit 8 (drop_bit 16 x AND 0xFF) OR
     push_bit 0 (drop_bit 24 x AND 0xFF)"

definition min32 :: "u32 \<Rightarrow> u32 \<Rightarrow> u32" where
  "min32 a b = (if a < b then a else b)"

lemma mask_FF_u16: "(x :: u16) AND 0xFF = take_bit 8 x"
  by (simp add: take_bit_eq_mask mask_eq_exp_minus_1)

lemma mask_FF_u32: "(x :: u32) AND 0xFF = take_bit 8 x"
  by (simp add: take_bit_eq_mask mask_eq_exp_minus_1)

lemma swap16_bytes: "u16_bytes (swap16 w) = rev (u16_bytes w)"
  by (simp add: u16_bytes_def swap16_def mask_FF_u16 bit_eq_iff bit_simps)

lemma swap32_bytes: "u32_bytes (swap32 w) = rev (u32_bytes w)"
  by (simp add: u32_bytes_def swap32_def mask_FF_u32 bit_eq_iff bit_simps)

lemma swap16_swap16 [simp]: "swap16 (swap16 x) = x"
  by (rule u16_bytes_inject [THEN iffD1]) (simp only: swap16_bytes rev_rev_ident)

lemma swap32_swap32 [simp]: "swap32 (swap32 x) = x"
  by (rule u32_bytes_inject [THEN iffD1]) (simp only: swap32_bytes rev_rev_ident)

lemma swap16_le16 [codec_simps]: "swap16 (le16 a b) = le16 b a"
proof (rule u16_bytes_inject [THEN iffD1])
  show "u16_bytes (swap16 (le16 a b)) = u16_bytes (le16 b a)"
    by (simp add: swap16_bytes) (simp add: u16_bytes_def ucast_le16_lo ucast_le16_hi)
qed

subsection \<open>The internet checksum\<close>

text \<open>
  \<open>checksum16\<close> adds the little-endian 16-bit words of the data in a 32-bit accumulator (a last
  odd byte counts as a word of its own), folds the carries back until none is left and
  complements the result. The bytes of the pointed-to region are the argument.
\<close>

fun sum16 :: "u8 list \<Rightarrow> u32 \<Rightarrow> u32" where
  "sum16 (lo # hi # bs) crc = sum16 bs (crc + ucast (le16 lo hi))"
| "sum16 [b] crc = crc + ucast b"
| "sum16 [] crc = crc"

lemma mask_high_eq: "(crc :: u32) AND 0xffff0000 = push_bit 16 (drop_bit 16 crc)"
proof -
  have *: "(0xffff0000 :: u32) = push_bit 16 (mask 16)"
    by (simp add: mask_eq_exp_minus_1 push_bit_eq_mult)
  show ?thesis
    unfolding * by (rule bit_word_eqI) (auto simp: bit_simps)
qed

lemma mask_low: "(crc :: u32) AND 0xffff = take_bit 16 crc"
  by (simp add: take_bit_eq_mask mask_eq_exp_minus_1)

lemma mask_high_iff: "(crc AND 0xffff0000 \<noteq> 0) \<longleftrightarrow> 65536 \<le> unat (crc :: u32)"
proof -
  have "unat (crc AND 0xffff0000) = 65536 * (unat crc div 65536)"
  proof -
    have "65536 * (unat crc div 65536) < 4294967296"
      using unat_u32_less [of crc] by linarith
    then show ?thesis
      by (simp add: mask_high_eq push_bit_eq_mult drop_bit_eq_div unat_word_ariths unat_div_distrib)
  qed
  then have "crc AND 0xffff0000 = 0 \<longleftrightarrow> unat crc div 65536 = 0"
    by (metis mult_eq_0_iff unat_0_iff zero_neq_numeral)
  then show ?thesis
    by (simp add: div_eq_0_iff not_less)
qed

lemma unat_fold_step:
  "unat ((crc AND 0xffff) + drop_bit 16 (crc :: u32)) = unat crc mod 65536 + unat crc div 65536"
proof -
  have "unat crc mod 65536 + unat crc div 65536 < 4294967296"
    using unat_u32_less [of crc] by linarith
  then show ?thesis
    by (simp add: mask_low unat_word_ariths unsigned_take_bit_eq take_bit_eq_mod unat_drop_bit_eq
        drop_bit_eq_div)
qed

function fold_carry :: "u32 \<Rightarrow> u32" where
  "fold_carry crc =
     (if crc AND 0xffff0000 \<noteq> 0 then fold_carry ((crc AND 0xffff) + drop_bit 16 crc) else crc)"
  by pat_completeness auto
termination
proof (relation "measure unat")
  fix crc :: u32
  assume "crc AND 0xffff0000 \<noteq> 0"
  then have "65536 \<le> unat crc" by (simp only: mask_high_iff)
  then have "unat crc mod 65536 + unat crc div 65536 < unat crc"
    using mult_div_mod_eq [of 65536 "unat crc"] div_greater_zero_iff [of "unat crc" 65536]
    by linarith
  then show "((crc AND 0xffff) + drop_bit 16 crc, crc) \<in> measure unat"
    by (simp only: in_measure unat_fold_step)
qed simp

declare fold_carry.simps [simp del]

definition checksum16 :: "u8 list \<Rightarrow> u16" where
  "checksum16 bs = ucast (NOT (fold_carry (sum16 bs 0)))"


text \<open>
  The specification side. \<open>le_sum\<close> and \<open>be_sum\<close> add the same bytes as 16-bit words in the two
  byte orders, without a width; \<open>ones_norm\<close> is the representative of a sum in one's complement
  arithmetic (0 only for an all-zero sum, otherwise in 1..65535).
\<close>

fun le_sum :: "u8 list \<Rightarrow> nat" where
  "le_sum (lo # hi # bs) = (unat lo + 256 * unat hi) + le_sum bs"
| "le_sum [b] = unat b"
| "le_sum [] = 0"

fun be_sum :: "u8 list \<Rightarrow> nat" where
  "be_sum (hi # lo # bs) = (256 * unat hi + unat lo) + be_sum bs"
| "be_sum [b] = 256 * unat b"
| "be_sum [] = 0"

definition ones_norm :: "nat \<Rightarrow> nat" where
  "ones_norm s = (if s = 0 then 0 else (s - 1) mod 65535 + 1)"

lemma le_sum_bound: "le_sum bs \<le> 65535 * ((length bs + 1) div 2)"
proof (induction bs rule: le_sum.induct)
  case (1 lo hi bs)
  then show ?case using unat_u8_less [of lo] unat_u8_less [of hi] by simp
next
  case (2 b)
  then show ?case using unat_u8_less [of b] by simp
qed simp

lemma le_sum_small: "length bs \<le> 131072 \<Longrightarrow> le_sum bs < 4294967296"
  using le_sum_bound [of bs] by simp

lemma unat_sum16:
  "unat crc + le_sum bs < 4294967296 \<Longrightarrow> unat (sum16 bs crc) = unat crc + le_sum bs"
proof (induction bs crc rule: sum16.induct)
  case (1 lo hi bs crc)
  then have "unat (crc + ucast (le16 lo hi)) = unat crc + (unat lo + 256 * unat hi)"
    by (simp add: unat_word_ariths unat_le16)
  with 1 show ?case by simp
next
  case (2 b crc)
  then show ?case by (simp add: unat_word_ariths)
qed simp

lemma ones_norm_le: "ones_norm s \<le> 65535"
  using mod_less_divisor [of 65535 "s - 1"] by (auto simp: ones_norm_def)

lemma ones_norm_small: "s \<le> 65535 \<Longrightarrow> ones_norm s = s"
  by (simp add: ones_norm_def)

lemma ones_norm_0_iff [simp]: "ones_norm s = 0 \<longleftrightarrow> s = 0"
  by (simp add: ones_norm_def)

lemma ones_norm_mod: "ones_norm s mod 65535 = s mod 65535"
  by (cases s) (simp_all add: ones_norm_def mod_Suc_eq)

lemma ones_norm_eqI:
  assumes "s mod 65535 = t mod 65535" and "s = 0 \<longleftrightarrow> t = 0"
  shows "ones_norm s = ones_norm t"
proof (cases "s = 0")
  case True
  with assms show ?thesis by simp
next
  case False
  with assms obtain a b where ab: "s = Suc a" "t = Suc b"
    by (metis not0_implies_Suc)
  with assms(1) obtain q r where "Suc a + 65535 * q = Suc b + 65535 * r"
    by (auto simp: nat_mod_eq_iff)
  then have "a mod 65535 = b mod 65535"
    by (auto simp: nat_mod_eq_iff)
  with ab show ?thesis by (simp add: ones_norm_def)
qed

lemma unat_fold_carry: "unat (fold_carry crc) = ones_norm (unat crc)"
proof (induction crc rule: fold_carry.induct)
  case (1 crc)
  show ?case
  proof (cases "65536 \<le> unat crc")
    case True
    let ?n = "unat crc mod 65536 + unat crc div 65536"
    have eq: "65536 * (unat crc div 65536) + unat crc mod 65536 = unat crc"
      by (rule mult_div_mod_eq)
    then have "unat crc = ?n + 65535 * (unat crc div 65536)" by simp
    then have "?n mod 65535 = unat crc mod 65535"
      by (metis mod_mult_self2)
    moreover have "?n = 0 \<longleftrightarrow> unat crc = 0"
      using eq by linarith
    ultimately have "ones_norm ?n = ones_norm (unat crc)"
      by (rule ones_norm_eqI)
    with 1 True show ?thesis
      by (simp add: fold_carry.simps [of crc] mask_high_iff unat_fold_step)
  next
    case False
    then show ?thesis
      by (simp add: fold_carry.simps [of crc] mask_high_iff ones_norm_small)
  qed
qed

lemma unat_NOT_u32: "unat (NOT crc :: u32) = 4294967295 - unat crc"
proof -
  have "NOT crc = (- 1 :: u32) - crc"
    by (simp add: not_eq_complement)
  moreover have "unat ((- 1 :: u32) - crc) = unat (- 1 :: u32) - unat crc"
  proof (rule unat_sub)
    show "crc \<le> - 1"
      using unat_u32_less [of crc]
      by (simp add: word_le_nat_alt unsigned_minus_1_eq_mask mask_eq_exp_minus_1)
  qed
  ultimately show ?thesis
    by (simp add: unsigned_minus_1_eq_mask mask_eq_exp_minus_1)
qed

lemma unat_ucast_NOT_u32:
  assumes "unat (crc :: u32) \<le> 65535"
  shows "unat (ucast (NOT crc) :: u16) = 65535 - unat crc"
proof -
  from assms have "4294967295 - unat crc = (65535 - unat crc) + 65535 * 65536"
    by simp
  then have "(4294967295 - unat crc) mod 65536 = 65535 - unat crc"
    by (simp only: mod_mult_self1) (simp add: less_Suc_eq_le)
  then show ?thesis
    by (simp add: unsigned_ucast_eq take_bit_eq_mod unat_NOT_u32)
qed

lemma unat_checksum16:
  assumes "length bs \<le> 131072"
  shows "unat (checksum16 bs) = 65535 - ones_norm (le_sum bs)"
  using le_sum_small [OF assms] ones_norm_le [of "le_sum bs"]
  by (simp add: checksum16_def unat_ucast_NOT_u32 unat_fold_carry unat_sum16)

lemma le_sum_append: "even (length xs) \<Longrightarrow> le_sum (xs @ ys) = le_sum xs + le_sum ys"
  by (induction xs rule: le_sum.induct) auto

lemma le_sum_u16_bytes [simp]: "le_sum (u16_bytes w) = unat w"
proof -
  have "le_sum (u16_bytes w) = unat (le16 (ucast w) (ucast (drop_bit 8 w)))"
    by (simp only: u16_bytes_def le_sum.simps unat_le16 add_0_right)
  then show ?thesis by (simp only: le16_u16_bytes)
qed

lemma be_sum_mod: "be_sum bs mod 65535 = (256 * le_sum bs) mod 65535"
proof (induction bs rule: be_sum.induct)
  case (1 hi lo bs)
  have "be_sum (hi # lo # bs) + 65535 * unat lo = 256 * (unat hi + 256 * unat lo) + be_sum bs"
    by simp
  then have "be_sum (hi # lo # bs) mod 65535
      = (256 * (unat hi + 256 * unat lo) + be_sum bs) mod 65535"
    by (metis mod_mult_self2)
  also have "\<dots> = (256 * (unat hi + 256 * unat lo) + 256 * le_sum bs) mod 65535"
    by (metis "1" mod_add_right_eq)
  finally show ?case by (simp add: algebra_simps)
qed simp_all

lemma be_sum_0_iff: "be_sum bs = 0 \<longleftrightarrow> le_sum bs = 0"
  by (induction bs rule: be_sum.induct) auto

lemma unat_swap16: "unat (swap16 w) = 256 * (unat w mod 256) + unat w div 256"
proof -
  have "w = le16 (ucast w) (ucast (drop_bit 8 w))"
    by (simp add: le16_u16_bytes)
  then have "swap16 w = le16 (ucast (drop_bit 8 w)) (ucast w)"
    by (metis swap16_le16)
  then have "unat (swap16 w)
      = unat (ucast (drop_bit 8 w) :: u8) + 256 * unat (ucast w :: u8)"
    by (simp only: unat_le16)
  also have "\<dots> = unat w div 256 + 256 * (unat w mod 256)"
    by (simp only: unat_hi_u16) (simp only: unat_lo_u16)
  finally show ?thesis by simp
qed

lemma swap_complement:
  assumes "x \<le> 65535"
  shows "256 * ((65535 - x) mod 256) + (65535 - x) div 256
       = 65535 - (256 * (x mod 256) + x div (256 :: nat))"
proof -
  define q r where "q = x div 256" and "r = x mod 256"
  have x: "x = 256 * q + r" and r: "r < 256"
    by (simp_all add: q_def r_def)
  with assms have q: "q \<le> 255" by simp
  have c: "65535 - x = 256 * (255 - q) + (255 - r)"
    using x q r by simp
  have split: "(256 * a + b) mod 256 = b" "(256 * a + b) div 256 = a" if "b < 256" for a b :: nat
    using that by simp_all
  have "(256 * (255 - q) + (255 - r)) mod 256 = 255 - r"
    and "(256 * (255 - q) + (255 - r)) div 256 = 255 - q"
    by (rule split; simp)+
  moreover have "256 * (255 - r) + (255 - q) = 65535 - (256 * r + q)"
    using q r by linarith
  ultimately show ?thesis
    unfolding c q_def [symmetric] r_def [symmetric] by (simp only:)
qed

lemma swap_ones_norm:
  assumes "v \<le> 65535"
  shows "256 * (v mod 256) + v div 256 = ones_norm (256 * v)"
proof -
  let ?w = "256 * (v mod 256) + v div 256"
  have v: "256 * (v div 256) + v mod 256 = v" by (rule mult_div_mod_eq)
  then have "?w + 65535 * (v div 256) = 256 * v" by linarith
  then have "?w mod 65535 = 256 * v mod 65535"
    by (metis mod_mult_self2)
  moreover have "?w = 0 \<longleftrightarrow> 256 * v = 0"
    using v by linarith
  ultimately have "ones_norm ?w = ones_norm (256 * v)"
    by (rule ones_norm_eqI)
  moreover have "?w \<le> 65535"
    using assms v mod_less_divisor [of 256 v] by linarith
  ultimately show ?thesis
    by (simp add: ones_norm_small)
qed

lemma ones_norm_be: "ones_norm (256 * ones_norm (le_sum bs)) = ones_norm (be_sum bs)"
proof (rule ones_norm_eqI)
  show "256 * ones_norm (le_sum bs) mod 65535 = be_sum bs mod 65535"
    by (metis be_sum_mod mod_mult_right_eq ones_norm_mod)
  show "256 * ones_norm (le_sum bs) = 0 \<longleftrightarrow> be_sum bs = 0"
    by (simp add: be_sum_0_iff)
qed

text \<open>C31. The checksum that \<open>checksum16\<close> computes with little-endian words, once stored in the
  packet, is byte for byte the internet checksum of RFC 1071: read in network order it is the
  complement of the one's complement sum of the big-endian words, an odd last byte being padded
  with a zero byte. It holds for every region up to 131072 bytes, which no packet buffer exceeds
  by more than its slack; beyond that length the 32-bit accumulator can overflow.\<close>

theorem checksum16_rfc1071:
  assumes "length bs \<le> 131072"
  shows "unat (swap16 (checksum16 bs)) = 65535 - ones_norm (be_sum bs)"
proof -
  let ?v = "ones_norm (le_sum bs)"
  have "unat (checksum16 bs) = 65535 - ?v"
    by (rule unat_checksum16 [OF assms])
  then have "unat (swap16 (checksum16 bs)) = 65535 - (256 * (?v mod 256) + ?v div 256)"
    by (simp only: unat_swap16 swap_complement [OF ones_norm_le])
  then show ?thesis
    by (simp only: swap_ones_norm [OF ones_norm_le] ones_norm_be)
qed

theorem checksum16_rfc1071_witness:
  "unat (swap16 (checksum16 [0x00, 0x01, 0xf2, 0x03, 0xf4, 0xf5, 0xf6, 0xf7])) = 0x220d \<and>
   65535 - ones_norm (be_sum [0x00, 0x01, 0xf2, 0x03, 0xf4, 0xf5, 0xf6, 0xf7]) = 0x220d"
proof -
  let ?bs = "[0x00, 0x01, 0xf2, 0x03, 0xf4, 0xf5, 0xf6, 0xf7] :: u8 list"
  have "65535 - ones_norm (be_sum ?bs) = 0x220d"
    by (simp add: ones_norm_def)
  moreover have "length ?bs \<le> 131072" by simp
  ultimately show ?thesis
    using checksum16_rfc1071 [of ?bs] by simp
qed

lemma checksum16_fill:
  assumes "even (length pre)" and "length pre + length post \<le> 131070"
  shows "checksum16 (pre @ u16_bytes (checksum16 (pre @ [0, 0] @ post)) @ post) = 0"
proof -
  define x where "x = le_sum pre + le_sum post"
  let ?c = "checksum16 (pre @ [0, 0] @ post)"
  let ?full = "pre @ u16_bytes ?c @ post"
  have "unat ?c = 65535 - ones_norm x"
    using assms by (simp add: unat_checksum16 le_sum_append x_def)
  then have sum: "le_sum ?full = x + (65535 - ones_norm x)"
    using assms(1) by (simp add: le_sum_append x_def)
  have "ones_norm (le_sum ?full) = ones_norm 65535"
  proof (rule ones_norm_eqI)
    have "(x + (65535 - ones_norm x)) mod 65535
        = (ones_norm x + (65535 - ones_norm x)) mod 65535"
      by (metis mod_add_left_eq ones_norm_mod)
    then show "le_sum ?full mod 65535 = 65535 mod 65535"
      unfolding sum using ones_norm_le [of x] by simp
    show "le_sum ?full = 0 \<longleftrightarrow> (65535 :: nat) = 0"
      unfolding sum by (cases "x = 0") (simp_all add: ones_norm_def)
  qed
  then have "unat (checksum16 ?full) = 0"
    using assms by (simp add: unat_checksum16 ones_norm_small)
  then show ?thesis
    by (simp add: unsigned_eq_0_iff)
qed

text \<open>Filling the checksum field verifies: if a region holds zero in a 16-bit field at an even
  offset and the field is then set to the checksum of the region, the checksum of the whole is
  zero, which is what any receiver that sums the packet including its checksum expects.\<close>

lemma checksum16_fill_verifies:
  assumes "even (length pre)" and "length pre + length post \<le> 131070"
  shows "checksum16 (pre @ u16_bytes (checksum16 (pre @ [0, 0] @ post)) @ post) = 0"
  by (rule checksum16_fill [OF assms])

lemma checksum16_fill_verifies_example:
  "checksum16 ([0x45, 0x00] @ u16_bytes (checksum16 ([0x45, 0x00] @ [0, 0] @ [0x11])) @ [0x11]) = 0"
  by (rule checksum16_fill_verifies) simp_all

lemma sum16_pad: "odd (length bs) \<Longrightarrow> sum16 (bs @ [0]) crc = sum16 bs crc"
proof (induction bs crc rule: sum16.induct)
  case (2 b crc)
  have "ucast (le16 b 0) = (ucast b :: u32)"
    by (simp add: le16_def word_unat_eq_iff)
  then show ?case by simp
qed simp_all

lemma checksum16_pad: "odd (length bs) \<Longrightarrow> checksum16 (bs @ [0]) = checksum16 bs"
  by (simp add: checksum16_def sum16_pad)

subsection \<open>Longest prefix match\<close>

text \<open>
  \<open>prefix_bits\<close> is the inner loop over the bits of one byte (its first argument counts the
  rounds left; a result \<open>(True, c)\<close> is the early \<^verbatim>\<open>return count\<close>), \<open>prefix_bytes\<close> the outer loop.
\<close>

fun prefix_bits :: "nat \<Rightarrow> u8 \<Rightarrow> u8 \<Rightarrow> bool \<times> u8" where
  "prefix_bits 0 flag count = (False, count)"
| "prefix_bits (Suc j) flag count =
     (if flag AND (push_bit 7 1) \<noteq> 0 then (True, count)
      else prefix_bits j (push_bit 1 flag) (count + 1))"

fun prefix_bytes :: "(u8 \<times> u8) list \<Rightarrow> u8 \<Rightarrow> u8" where
  "prefix_bytes [] count = count"
| "prefix_bytes ((a, b) # ps) count =
     (case prefix_bits 8 (a XOR b) count of
        (True, c) \<Rightarrow> c
      | (False, c) \<Rightarrow> prefix_bytes ps c)"

definition ip_prefix_match :: "ip_addr \<Rightarrow> ip_addr \<Rightarrow> u8" where
  "ip_prefix_match ipa ipb = prefix_bytes (zip (ip_bytes ipa) (ip_bytes ipb)) 0"

definition byte_bits :: "u8 \<Rightarrow> bool list" where
  "byte_bits b = map (bit b) (rev [0 ..< 8])"

definition ip_bits :: "ip_addr \<Rightarrow> bool list" where
  "ip_bits a = concat (map byte_bits (ip_bytes a))"

definition common_prefix :: "'a list \<Rightarrow> 'a list \<Rightarrow> nat" where
  "common_prefix xs ys = length (takeWhile (\<lambda>(x, y). x = y) (zip xs ys))"

lemma common_prefix_Cons [simp]:
  "common_prefix (x # xs) (y # ys) = (if x = y then Suc (common_prefix xs ys) else 0)"
  by (simp add: common_prefix_def)

lemma common_prefix_Nil [simp]: "common_prefix [] ys = 0" "common_prefix xs [] = 0"
  by (simp_all add: common_prefix_def)

lemma common_prefix_le: "common_prefix xs ys \<le> length xs"
  unfolding common_prefix_def
  by (rule order_trans [OF length_takeWhile_le]) simp

lemma common_prefix_append:
  "length xs = length ys \<Longrightarrow>
    common_prefix (xs @ us) (ys @ vs) =
      (if xs = ys then length xs + common_prefix us vs else common_prefix xs ys)"
  by (induction xs ys rule: list_induct2) auto

lemma top_bit_test: "((x :: u8) AND push_bit 7 1 \<noteq> 0) \<longleftrightarrow> bit x 7"
  by (simp add: bit_iff_and_push_bit_not_eq_0)

lemma prefix_bits_spec:
  "j \<le> 8 \<Longrightarrow>
   prefix_bits j (push_bit (8 - j) (a XOR b)) c =
     (map (bit a) (rev [0 ..< j]) \<noteq> map (bit b) (rev [0 ..< j]),
      c + of_nat (common_prefix (map (bit a) (rev [0 ..< j])) (map (bit b) (rev [0 ..< j]))))"
proof (induction j arbitrary: c)
  case 0
  then show ?case by simp
next
  case (Suc j)
  have top: "bit (push_bit (8 - Suc j) (a XOR b)) 7 \<longleftrightarrow> bit a j \<noteq> bit b j"
    using Suc.prems by (auto simp: bit_simps)
  have shift: "push_bit 1 (push_bit (8 - Suc j) (a XOR b)) = push_bit (8 - j) (a XOR b)"
  proof -
    have "1 + (8 - Suc j) = 8 - j" using Suc.prems by simp
    then show ?thesis by (simp only: push_bit_push_bit)
  qed
  have IH: "prefix_bits j (push_bit (8 - j) (a XOR b)) (c + 1) =
     (map (bit a) (rev [0 ..< j]) \<noteq> map (bit b) (rev [0 ..< j]), (c + 1) +
      of_nat (common_prefix (map (bit a) (rev [0 ..< j])) (map (bit b) (rev [0 ..< j]))))"
    by (rule Suc.IH) (use Suc.prems in simp)
  have ups: "map (bit x) (rev [0 ..< Suc j]) = bit x j # map (bit x) (rev [0 ..< j])" for x :: u8
    by simp
  show ?case
    unfolding prefix_bits.simps top_bit_test top shift IH ups
    by (simp del: map_eq_conv add: add.assoc)
qed

lemma prefix_bits_8:
  "prefix_bits 8 (a XOR b) c =
     (byte_bits a \<noteq> byte_bits b, c + of_nat (common_prefix (byte_bits a) (byte_bits b)))"
  using prefix_bits_spec [of 8 a b c] by (simp add: byte_bits_def)

lemma length_byte_bits [simp]: "length (byte_bits b) = 8"
  by (simp add: byte_bits_def)

lemma prefix_bytes_spec:
  "length xs = length ys \<Longrightarrow>
    prefix_bytes (zip xs ys) c =
      c + of_nat (common_prefix (concat (map byte_bits xs)) (concat (map byte_bits ys)))"
proof (induction xs ys arbitrary: c rule: list_induct2)
  case (Cons x xs y ys)
  have full: "byte_bits x = byte_bits y \<Longrightarrow> common_prefix (byte_bits x) (byte_bits y) = 8"
    by (simp add: common_prefix_def takeWhile_eq_all_conv [THEN iffD2] zip_same_conv_map)
  show ?case
    using Cons full by (simp add: prefix_bits_8 common_prefix_append split: prod.splits)
qed simp

text \<open>C32. \<open>ip_prefix_match\<close> returns the length of the longest common prefix of the two
  addresses as 32-bit strings, most significant bit first, and so a value between 0 and 32.\<close>

theorem ip_prefix_match_correct:
  "unat (ip_prefix_match a b) = common_prefix (ip_bits a) (ip_bits b) \<and>
   unat (ip_prefix_match a b) \<le> 32"
proof -
  have "length (ip_bits a) = 32"
    by (cases a) (simp add: ip_bits_def)
  then have le: "common_prefix (ip_bits a) (ip_bits b) \<le> 32"
    using common_prefix_le [of "ip_bits a" "ip_bits b"] by simp
  then have "unat (of_nat (common_prefix (ip_bits a) (ip_bits b)) :: u8)
      = common_prefix (ip_bits a) (ip_bits b)"
    by (simp add: unat_of_nat)
  with le show ?thesis
    by (simp add: ip_prefix_match_def prefix_bytes_spec ip_bits_def)
qed

subsection \<open>Printable addresses\<close>

text \<open>
  \<open>iptos\<close> and \<open>mactos\<close> print into static buffers of 16 and 18 bytes; \<open>fmt_d\<close> is \<^verbatim>\<open>%d\<close> of a
  non-negative value and \<open>fmt_02X\<close> is \<^verbatim>\<open>%02X\<close> of a byte. \<open>sprintf_fits\<close> says that the text
  and its terminating NUL fit.
\<close>

definition digit_char :: "nat \<Rightarrow> char" where
  "digit_char d = (if d < 10 then char_of (48 + d) else char_of (55 + d))"

fun fmt_d :: "nat \<Rightarrow> string" where
  "fmt_d n = (if n < 10 then [digit_char n] else fmt_d (n div 10) @ [digit_char (n mod 10)])"

declare fmt_d.simps [simp del]

definition fmt_02X :: "u8 \<Rightarrow> string" where
  "fmt_02X b = [digit_char (unat b div 16), digit_char (unat b mod 16)]"

definition iptos :: "ip_addr \<Rightarrow> string" where
  "iptos ip = (case ip of (a, b, c, d) \<Rightarrow>
     fmt_d (unat a) @ ''.'' @ fmt_d (unat b) @ ''.'' @ fmt_d (unat c) @ ''.'' @ fmt_d (unat d))"

definition mactos :: "mac_addr \<Rightarrow> string" where
  "mactos mac = (case mac of (a, b, c, d, e, f) \<Rightarrow>
     fmt_02X a @ ''-'' @ fmt_02X b @ ''-'' @ fmt_02X c @ ''-'' @
     fmt_02X d @ ''-'' @ fmt_02X e @ ''-'' @ fmt_02X f)"

text \<open>
  \<^verbatim>\<open>gmtime\<close> breaks a count of seconds since 1970 down into the proleptic Gregorian calendar; the
  years of the computation start on the first of March of the year 0, in eras of 400 years. A
  field printed with \<^verbatim>\<open>%0nd\<close> has at least \<open>n\<close> characters.
\<close>

record tm =
  tm_year :: int
  tm_mon :: int
  tm_mday :: int
  tm_hour :: int
  tm_min :: int
  tm_sec :: int

definition day_of_era :: "int \<Rightarrow> int" where
  "day_of_era days = (days + 719468) mod 146097"

definition year_of_era :: "int \<Rightarrow> int" where
  "year_of_era doe = (doe - doe div 1460 + doe div 36524 - doe div 146096) div 365"

definition gmtime :: "int \<Rightarrow> tm" where
  "gmtime t =
     (let days = t div 86400; secs = t mod 86400;
          era = (days + 719468) div 146097; doe = day_of_era days; yoe = year_of_era doe;
          doy = doe - (365 * yoe + yoe div 4 - yoe div 100);
          mp = (5 * doy + 2) div 153;
          month = (if mp < 10 then mp + 3 else mp - 9);
          year = yoe + era * 400 + (if month \<le> 2 then 1 else 0)
      in \<lparr>tm_year = year - 1900, tm_mon = month - 1, tm_mday = doy - (153 * mp + 2) div 5 + 1,
          tm_hour = secs div 3600, tm_min = secs div 60 mod 60, tm_sec = secs mod 60\<rparr>)"

definition fmt_0d :: "nat \<Rightarrow> int \<Rightarrow> string" where
  "fmt_0d w x =
     (let ds = fmt_d (nat \<bar>x\<bar>) in
      if x < 0 then ''-'' @ replicate (w - 1 - length ds) (CHR ''0'') @ ds
      else replicate (w - length ds) (CHR ''0'') @ ds)"

definition timetos :: "int \<Rightarrow> string" where
  "timetos timestamp =
     (let utc_time = gmtime timestamp in
      fmt_0d 4 (tm_year utc_time + 1900) @ ''-'' @ fmt_0d 2 (tm_mon utc_time + 1) @ ''-'' @
      fmt_0d 2 (tm_mday utc_time) @ '' '' @ fmt_0d 2 (tm_hour utc_time) @ '':'' @
      fmt_0d 2 (tm_min utc_time) @ '':'' @ fmt_0d 2 (tm_sec utc_time))"

definition sprintf_fits :: "string \<Rightarrow> nat \<Rightarrow> bool" where
  "sprintf_fits s cap \<longleftrightarrow> length s + 1 \<le> cap"

lemma length_fmt_d:
  "n < 10 \<Longrightarrow> length (fmt_d n) = 1"
  "10 \<le> n \<Longrightarrow> n < 100 \<Longrightarrow> length (fmt_d n) = 2"
  "100 \<le> n \<Longrightarrow> n < 1000 \<Longrightarrow> length (fmt_d n) = 3"
  "1000 \<le> n \<Longrightarrow> n < 10000 \<Longrightarrow> length (fmt_d n) = 4"
proof -
  have 1: "length (fmt_d n) = 1" if "n < 10" for n
    using that by (simp add: fmt_d.simps [of n])
  have 2: "length (fmt_d n) = 2" if "10 \<le> n" "n < 100" for n
    using that 1 [of "n div 10"] by (simp add: fmt_d.simps [of n] div_less_iff_less_mult)
  have 3: "length (fmt_d n) = 3" if "100 \<le> n" "n < 1000" for n
    using that 2 [of "n div 10"] by (simp add: fmt_d.simps [of n] div_less_iff_less_mult)
  have 4: "length (fmt_d n) = 4" if "1000 \<le> n" "n < 10000" for n
    using that 3 [of "n div 10"] by (simp add: fmt_d.simps [of n] div_less_iff_less_mult)
  show "n < 10 \<Longrightarrow> length (fmt_d n) = 1" "10 \<le> n \<Longrightarrow> n < 100 \<Longrightarrow> length (fmt_d n) = 2"
    "100 \<le> n \<Longrightarrow> n < 1000 \<Longrightarrow> length (fmt_d n) = 3" "1000 \<le> n \<Longrightarrow> n < 10000 \<Longrightarrow> length (fmt_d n) = 4"
    by (simp_all add: 1 2 3 4)
qed

lemma length_fmt_d_u8: "length (fmt_d (unat (b :: u8))) \<le> 3"
  using unat_u8_less [of b] length_fmt_d [of "unat b"]
  by (cases "unat b < 10"; cases "unat b < 100") simp_all

lemma length_fmt_0d:
  "0 \<le> x \<Longrightarrow> x < 100 \<Longrightarrow> length (fmt_0d 2 x) = 2"
  "0 \<le> x \<Longrightarrow> x < 10000 \<Longrightarrow> length (fmt_0d 4 x) = 4"
proof -
  have pad: "0 \<le> x \<Longrightarrow> length (fmt_d (nat x)) \<le> w \<Longrightarrow> length (fmt_0d w x) = w" for w
    by (simp add: fmt_0d_def Let_def)
  have "length (fmt_d n) \<le> 2" if "n < 100" for n
    using that length_fmt_d(1,2) [of n] by (cases "n < 10") simp_all
  then show "0 \<le> x \<Longrightarrow> x < 100 \<Longrightarrow> length (fmt_0d 2 x) = 2" by (intro pad) simp_all
  have "length (fmt_d n) \<le> 4" if "n < 10000" for n
  proof -
    consider "n < 10" | "10 \<le> n" "n < 100" | "100 \<le> n" "n < 1000" | "1000 \<le> n" by linarith
    then show ?thesis using that by cases (simp_all add: length_fmt_d)
  qed
  then show "0 \<le> x \<Longrightarrow> x < 10000 \<Longrightarrow> length (fmt_0d 4 x) = 4" by (intro pad) simp_all
qed

text \<open>Bounds of the calendar computation, for times up to the end of the year 9999.\<close>

lemma yoe_ge: "0 \<le> doe \<Longrightarrow> doe < 146097 \<Longrightarrow> 0 \<le> year_of_era doe"
proof -
  assume a: "0 \<le> doe" "doe < 146097"
  have "0 \<le> doe - doe div 1460 + doe div 36524 - doe div 146096" using a by linarith
  then show ?thesis unfolding year_of_era_def by simp
qed

lemma yoe_le: "0 \<le> doe \<Longrightarrow> doe < 146097 \<Longrightarrow> year_of_era doe \<le> 399"
proof -
  assume a: "0 \<le> doe" "doe < 146097"
  have "doe - doe div 1460 + doe div 36524 - doe div 146096 < 146000"
  proof (cases "doe < 146096")
    case True
    show ?thesis
    proof (cases "doe < 146000")
      case True
      then show ?thesis using a by linarith
    next
      case False
      then have "doe div 1460 = 100" "doe div 36524 = 3 \<or> doe div 36524 = 4" using a True by linarith+
      then show ?thesis using a by linarith
    qed
  next
    case False
    then have "doe = 146096" using a by simp
    then show ?thesis by simp
  qed
  then show ?thesis unfolding year_of_era_def by linarith
qed

lemma yoe_early: "0 \<le> doe \<Longrightarrow> doe \<le> 145730 \<Longrightarrow> year_of_era doe \<le> 398"
proof -
  assume a: "0 \<le> doe" "doe \<le> 145730"
  have "doe - doe div 1460 + doe div 36524 - doe div 146096 \<le> 145634"
  proof (cases "doe < 145600")
    case True
    then show ?thesis using a by linarith
  next
    case False
    then have "doe div 1460 = 99" "doe div 36524 = 3" "doe div 146096 = 0" using a by linarith+
    then show ?thesis using a by linarith
  qed
  then show ?thesis unfolding year_of_era_def by linarith
qed
lemma day_of_year_bounds:
  assumes "0 \<le> doe" "doe < 146097" and "y = year_of_era doe"
  shows "-50 \<le> doe - (365 * y + y div 4 - y div 100)"
    and "doe - (365 * y + y div 4 - y div 100) \<le> 450"
proof -
  define a b c where "a = doe div 1460" and "b = doe div 36524" and "c = doe div 146096"
  have y: "y = (doe - a + b - c) div 365" using assms(3) by (simp add: year_of_era_def a_def b_def c_def)
  have bounds: "1460 * a \<le> doe" "doe < 1460 * a + 1460" "36524 * b \<le> doe" "doe < 36524 * b + 36524"
    "146096 * c \<le> doe" "doe < 146096 * c + 146096"
    unfolding a_def b_def c_def by linarith+
  have years: "365 * y \<le> doe - a + b - c" "doe - a + b - c < 365 * y + 365"
    unfolding y by linarith+
  define q h where "q = y div 4" and "h = y div 100"
  have "4 * q \<le> y" "y < 4 * q + 4" "100 * h \<le> y" "y < 100 * h + 100"
    unfolding q_def h_def by linarith+
  with bounds years assms(1,2)
  show "-50 \<le> doe - (365 * y + y div 4 - y div 100)" and "doe - (365 * y + y div 4 - y div 100) \<le> 450"
    unfolding q_def [symmetric] h_def [symmetric] by linarith+
qed


lemma month_day_bounds:
  assumes "-50 \<le> (doy :: int)" and "doy \<le> 450" and mp: "mp = (5 * doy + 2) div 153"
    and month: "month = (if mp < 10 then mp + 3 else mp - 9)"
  shows "1 \<le> month" and "month \<le> 12" and "1 \<le> doy - (153 * mp + 2) div 5 + 1"
    and "doy - (153 * mp + 2) div 5 + 1 \<le> 31"
proof -
  have "-2 \<le> mp" "mp \<le> 14" using assms(1,2) unfolding mp by linarith+
  then show "1 \<le> month" "month \<le> 12" unfolding month by auto
  show "1 \<le> doy - (153 * mp + 2) div 5 + 1" "doy - (153 * mp + 2) div 5 + 1 \<le> 31"
    unfolding mp by linarith+
qed

lemma last_year:
  assumes "0 \<le> (days :: int)" and "days < 2932897" and doe: "doe = day_of_era days"
    and era: "era = (days + 719468) div 146097" and y: "y = year_of_era doe"
    and doy: "doy = doe - (365 * y + y div 4 - y div 100)" and mp: "mp = (5 * doy + 2) div 153"
    and month: "month = (if mp < 10 then mp + 3 else mp - 9)"
  shows "0 \<le> y + era * 400 + (if month \<le> 2 then 1 else 0)"
    and "y + era * 400 + (if month \<le> 2 then 1 else 0) < 10000"
proof -
  have d: "0 \<le> doe" "doe < 146097" unfolding doe day_of_era_def by simp_all
  have era_b: "4 \<le> era" "era \<le> 24" using assms(1,2) unfolding era by linarith+
  have yb: "0 \<le> y" "y \<le> 399" using yoe_ge [OF d] yoe_le [OF d] y by simp_all
  show "0 \<le> y + era * 400 + (if month \<le> 2 then 1 else 0)"
    using yb era_b by simp
  have split: "days + 719468 = era * 146097 + doe"
    unfolding era doe day_of_era_def by simp
  show "y + era * 400 + (if month \<le> 2 then 1 else 0) < 10000"
  proof (cases "era = 24 \<and> y = 399")
    case False
    with yb era_b have "y + era * 400 \<le> 9998" by linarith
    then show ?thesis by simp
  next
    case True
    then have "doe \<le> 146036" using split assms(2) by simp
    moreover have "145731 \<le> doe" using yoe_early [of doe] d(1) True y by fastforce
    moreover have "doy = doe - 145731" unfolding doy using True by simp
    ultimately have "0 \<le> doy" "doy \<le> 305" by simp_all
    then have "0 \<le> mp" "mp < 10" unfolding mp by linarith+
    then show ?thesis using True unfolding month by simp
  qed
qed

lemma gmtime_bounds:
  assumes "0 \<le> t" and "t < 253402300800"
  shows "0 \<le> tm_year (gmtime t) + 1900" and "tm_year (gmtime t) + 1900 < 10000"
    and "0 \<le> tm_mon (gmtime t)" and "tm_mon (gmtime t) < 12"
    and "1 \<le> tm_mday (gmtime t)" and "tm_mday (gmtime t) \<le> 31"
    and "0 \<le> tm_hour (gmtime t)" and "tm_hour (gmtime t) < 24"
    and "0 \<le> tm_min (gmtime t)" and "tm_min (gmtime t) < 60"
    and "0 \<le> tm_sec (gmtime t)" and "tm_sec (gmtime t) < 60"
proof -
  define days where "days = t div 86400"
  define doe where "doe = day_of_era days"
  define era where "era = (days + 719468) div 146097"
  define y where "y = year_of_era doe"
  define doy where "doy = doe - (365 * y + y div 4 - y div 100)"
  define mp where "mp = (5 * doy + 2) div 153"
  define month where "month = (if mp < 10 then mp + 3 else mp - 9)"
  note defs = days_def doe_def era_def y_def doy_def mp_def month_def
  have days: "0 \<le> days" "days < 2932897" using assms unfolding days_def by linarith+
  have d: "0 \<le> doe" "doe < 146097" unfolding doe_def day_of_era_def by simp_all
  have tm: "gmtime t = \<lparr>tm_year = y + era * 400 + (if month \<le> 2 then 1 else 0) - 1900,
      tm_mon = month - 1, tm_mday = doy - (153 * mp + 2) div 5 + 1, tm_hour = t mod 86400 div 3600,
      tm_min = t mod 86400 div 60 mod 60, tm_sec = t mod 86400 mod 60\<rparr>"
    unfolding gmtime_def Let_def defs ..
  note year = last_year [OF days doe_def era_def y_def doy_def mp_def month_def]
  note doy_b = day_of_year_bounds [OF d y_def, folded doy_def]
  note md = month_day_bounds [OF doy_b mp_def month_def]
  show "0 \<le> tm_year (gmtime t) + 1900" "tm_year (gmtime t) + 1900 < 10000"
    unfolding tm tm.simps using year by linarith+
  show "0 \<le> tm_mon (gmtime t)" "tm_mon (gmtime t) < 12"
    unfolding tm tm.simps using md(1,2) by linarith+
  show "1 \<le> tm_mday (gmtime t)" "tm_mday (gmtime t) \<le> 31"
    unfolding tm tm.simps using md(3,4) by linarith+
  have s: "0 \<le> t mod 86400" "t mod 86400 < 86400" by simp_all
  show "0 \<le> tm_hour (gmtime t)" "tm_hour (gmtime t) < 24"
    unfolding tm tm.simps using s by linarith+
  show "0 \<le> tm_min (gmtime t)" "tm_min (gmtime t) < 60" "0 \<le> tm_sec (gmtime t)" "tm_sec (gmtime t) < 60"
    unfolding tm tm.simps by simp_all
qed

lemma length_timetos:
  assumes "0 \<le> t" and "t < 253402300800"
  shows "length (timetos t) = 19"
  using gmtime_bounds [OF assms] by (simp add: timetos_def Let_def length_fmt_0d)

lemma length_timetos_10000: "length (timetos 253402300800) = 20"
proof -
  have g: "gmtime 253402300800 = \<lparr>tm_year = 8100, tm_mon = 0, tm_mday = 1, tm_hour = 0, tm_min = 0, tm_sec = 0\<rparr>"
    by code_simp
  have "length (fmt_0d 4 10000) = 5"
    by (simp add: fmt_0d_def fmt_d.simps [of 10000] fmt_d.simps [of 1000] fmt_d.simps [of 100]
        fmt_d.simps [of 10] fmt_d.simps [of "Suc 0"])
  then show ?thesis
    by (simp add: timetos_def Let_def g length_fmt_0d)
qed

text \<open>C40. The static output buffers are large enough: no address, whatever its bytes, makes
  \<open>iptos\<close> write past its 16 bytes or \<open>mactos\<close> past its 18, and no time from the beginning of
  1970 to the end of the year 9999 makes \<open>timetos\<close> write past its 20; the MAC address and the time
  fill their buffers exactly. (Times before 1970 are outside the claim.) The first second of the year 10000 does not fit any more.\<close>

theorem address_text_fits:
  assumes "0 \<le> t" and "t < 253402300800"
  shows "sprintf_fits (iptos ip) (3 * 4 + 3 + 1) \<and> sprintf_fits (mactos mac) (2 * 6 + 5 + 1) \<and>
         length (mactos mac) + 1 = 2 * 6 + 5 + 1 \<and> length (timetos t) + 1 = 20 \<and>
         \<not> sprintf_fits (timetos 253402300800) 20"
proof -
  obtain a b c d where ip: "ip = (a, b, c, d)" by (cases ip)
  obtain p q r s t' u where mac: "mac = (p, q, r, s, t', u)" by (cases mac)
  show ?thesis
    using length_timetos_10000 length_fmt_d_u8 [of a] length_fmt_d_u8 [of b] length_fmt_d_u8 [of c]
      length_fmt_d_u8 [of d] length_timetos [OF assms]
    by (simp add: ip mac sprintf_fits_def iptos_def mactos_def fmt_02X_def)
qed

theorem address_text_fits_witness: "length (timetos 1680000000) + 1 = 20"
  using address_text_fits [of 1680000000] by simp

end
