(* ===== verification/Buf.thy ===== *)
theory Buf
  imports Utils
begin

text \<open>
  The packet buffer of \<^verbatim>\<open>src/buf.c\<close>: a window of \<^verbatim>\<open>len\<close> bytes starting at \<^verbatim>\<open>data\<close> inside a
  fixed payload array. \<open>buf_data\<close> is the offset of the \<^verbatim>\<open>data\<close> pointer from the start of
  \<^verbatim>\<open>payload\<close>. The operations return the buffer and their status code (0 or -1). The pointer
  comparisons of the guards are comparisons of offsets. \<open>buf_read\<close> and \<open>buf_write\<close> are the
  \<^verbatim>\<open>memcpy\<close> and the struct overlays the other files put on the payload: they fault when they
  leave the array.

  The lemmas show that every operation keeps \<open>buf_ok\<close> and refines its effect on the byte list
  \<open>contents\<close>; the locale \<open>header_stack\<close> is the interface the protocol layers use (push a header,
  pop a header), with encapsulation followed by decapsulation proved from it.
\<close>

definition BUF_MAX_LEN :: nat where
  "BUF_MAX_LEN = 2 * 65535 + 255"

lemma BUF_MAX_LEN_eq [simp]: "BUF_MAX_LEN = 131325"
  by (simp add: BUF_MAX_LEN_def)

record buf_t =
  buf_len :: nat
  buf_data :: nat
  buf_payload :: mem

definition buf_init :: "buf_t \<Rightarrow> nat \<Rightarrow> buf_t \<times> int" where
  "buf_init b len =
     (if len \<ge> BUF_MAX_LEN div 2 then (b, -1)
      else (b\<lparr>buf_len := len, buf_data := BUF_MAX_LEN div 2 - len\<rparr>, 0))"

definition buf_add_header :: "buf_t \<Rightarrow> nat \<Rightarrow> buf_t \<times> int" where
  "buf_add_header b len =
     (if buf_data b < len then (b, -1)
      else (b\<lparr>buf_len := buf_len b + len, buf_data := buf_data b - len\<rparr>, 0))"

definition buf_remove_header :: "buf_t \<Rightarrow> nat \<Rightarrow> buf_t \<times> int" where
  "buf_remove_header b len =
     (if buf_len b < len then (b, -1)
      else (b\<lparr>buf_len := buf_len b - len, buf_data := buf_data b + len\<rparr>, 0))"

definition buf_add_padding :: "buf_t \<Rightarrow> nat \<Rightarrow> buf_t \<times> int" where
  "buf_add_padding b len =
     (if buf_data b + buf_len b + len \<ge> BUF_MAX_LEN then (b, -1)
      else (b\<lparr>buf_payload := store (buf_payload b) (buf_data b + buf_len b) (replicate len 0),
              buf_len := buf_len b + len\<rparr>, 0))"

definition buf_remove_padding :: "buf_t \<Rightarrow> nat \<Rightarrow> buf_t \<times> int" where
  "buf_remove_padding b len =
     (if buf_len b < len then (b, -1)
      else (b\<lparr>buf_len := buf_len b - len\<rparr>, 0))"

text \<open>
  Of the three assertions of \<^verbatim>\<open>buf_copy\<close> the first, \<^verbatim>\<open>src->data >= src->payload\<close>, holds of any
  offset. The whole payload array is copied.
\<close>

definition buf_copy :: "buf_t \<Rightarrow> buf_t \<Rightarrow> buf_t res" where
  "buf_copy dst src =
     ebind (guard_else (buf_len src \<le> BUF_MAX_LEN) AssertFailed) (\<lambda>_.
     ebind (guard_else (buf_data src + buf_len src < BUF_MAX_LEN) AssertFailed) (\<lambda>_.
     Inr (dst\<lparr>buf_len := buf_len src, buf_data := buf_data src,
              buf_payload := buf_payload src\<rparr>)))"

definition buf_read :: "buf_t \<Rightarrow> nat \<Rightarrow> nat \<Rightarrow> u8 list res" where
  "buf_read b off n =
     (if off + n \<le> BUF_MAX_LEN then Inr (load (buf_payload b) off n) else Inl OutOfBounds)"

definition buf_write :: "buf_t \<Rightarrow> nat \<Rightarrow> u8 list \<Rightarrow> buf_t res" where
  "buf_write b off bs =
     (if off + length bs \<le> BUF_MAX_LEN
      then Inr (b\<lparr>buf_payload := store (buf_payload b) off bs\<rparr>) else Inl OutOfBounds)"

subsection \<open>Invariant and contents\<close>

definition buf_ok :: "buf_t \<Rightarrow> bool" where
  "buf_ok b \<longleftrightarrow> buf_data b + buf_len b < BUF_MAX_LEN"

definition contents :: "buf_t \<Rightarrow> u8 list" where
  "contents b = load (buf_payload b) (buf_data b) (buf_len b)"

lemmas buf_op_defs = buf_init_def buf_add_header_def buf_remove_header_def
  buf_add_padding_def buf_remove_padding_def

lemma length_contents [simp]: "length (contents b) = buf_len b"
  by (simp add: contents_def)

lemma buf_init_ok: "snd (buf_init b n) = 0 \<Longrightarrow> buf_ok (fst (buf_init b n))"
  by (simp add: buf_init_def buf_ok_def split: if_splits)

text \<open>C30. Every buffer operation keeps the window strictly inside the payload array: after any
  of the four resizing operations, whether it succeeds or reports -1, \<open>data + len\<close> is still
  below \<open>BUF_MAX_LEN\<close>, so the assertions of \<open>buf_copy\<close> cannot fail on such a buffer. \<open>buf_init\<close>
  makes the window valid whatever the buffer was before: for less than half the array it gives a
  window of the wanted length that ends in the middle, and otherwise it reports -1 and changes nothing.\<close>

theorem buf_ops_keep_ok:
  assumes "buf_ok b"
  shows "buf_ok (fst (buf_add_header b n)) \<and> buf_ok (fst (buf_remove_header b n)) \<and>
         buf_ok (fst (buf_add_padding b n)) \<and> buf_ok (fst (buf_remove_padding b n)) \<and>
         buf_ok (fst (buf_init b n)) \<and>
         (if n < BUF_MAX_LEN div 2
          then snd (buf_init dst n) = 0 \<and> buf_ok (fst (buf_init dst n)) \<and>
            buf_len (fst (buf_init dst n)) = n \<and>
            buf_data (fst (buf_init dst n)) + n = BUF_MAX_LEN div 2
          else buf_init dst n = (dst, -1)) \<and>
         (\<exists>c. buf_copy dst b = Inr c \<and> buf_ok c \<and> contents c = contents b)"
  using assms by (auto simp: buf_op_defs buf_ok_def buf_copy_def buf_init_def contents_def)

theorem buf_ops_keep_ok_witness:
  "buf_ok (fst (buf_add_padding \<lparr>buf_len = 4, buf_data = 65658, buf_payload = (\<lambda>_. 0)\<rparr> 42)) \<and>
   buf_data (fst (buf_init \<lparr>buf_len = 0, buf_data = 0, buf_payload = (\<lambda>_. 0)\<rparr> 42)) + 42 = 65662"
  using buf_ops_keep_ok [of "\<lparr>buf_len = 4, buf_data = 65658, buf_payload = (\<lambda>_. 0)\<rparr>" 42
      "\<lparr>buf_len = 0, buf_data = 0, buf_payload = (\<lambda>_. 0)\<rparr>"]
  by (simp add: buf_ok_def)

text \<open>C29. On the bytes of the packet the operations do what their names say, and each succeeds
  exactly under its documented condition: adding a header puts the bytes that lie before the
  window in front of the contents, removing one drops a prefix, padding appends zero bytes,
  removing padding drops a suffix; on failure the buffer is unchanged.\<close>

theorem buf_ops_refine:
  "buf_add_header b n =
     (if n \<le> buf_data b then (fst (buf_add_header b n), 0) else (b, -1)) \<and>
   (n \<le> buf_data b \<longrightarrow> contents (fst (buf_add_header b n)) =
      load (buf_payload b) (buf_data b - n) n @ contents b) \<and>
   buf_remove_header b n =
     (if n \<le> length (contents b) then (fst (buf_remove_header b n), 0) else (b, -1)) \<and>
   (n \<le> length (contents b) \<longrightarrow> contents (fst (buf_remove_header b n)) = drop n (contents b)) \<and>
   buf_add_padding b n =
     (if buf_ok (b\<lparr>buf_len := buf_len b + n\<rparr>) then (fst (buf_add_padding b n), 0) else (b, -1)) \<and>
   (buf_ok (b\<lparr>buf_len := buf_len b + n\<rparr>) \<longrightarrow>
      contents (fst (buf_add_padding b n)) = contents b @ replicate n 0) \<and>
   buf_remove_padding b n =
     (if n \<le> length (contents b) then (fst (buf_remove_padding b n), 0) else (b, -1)) \<and>
   (n \<le> length (contents b) \<longrightarrow>
      contents (fst (buf_remove_padding b n)) = take (length (contents b) - n) (contents b))"
proof -
  have "load (buf_payload b) (buf_data b - n) (buf_len b + n)
      = load (buf_payload b) (buf_data b - n) n @ load (buf_payload b) (buf_data b) (buf_len b)"
    if "n \<le> buf_data b"
    using that load_append [of "buf_payload b" "buf_data b - n" n "buf_len b"]
    by (simp add: add.commute)
  then show ?thesis
    by (auto simp: buf_op_defs buf_ok_def contents_def mem_simps load_append)
qed

theorem buf_ops_refine_witness:
  "contents (fst (buf_remove_header
     \<lparr>buf_len = 3, buf_data = 2, buf_payload = (\<lambda>i. of_nat (10 * i))\<rparr> 1)) = [30, 40]"
proof -
  let ?b = "\<lparr>buf_len = 3, buf_data = 2, buf_payload = (\<lambda>i. of_nat (10 * i))\<rparr> :: buf_t"
  have b: "contents ?b = [20, 30, 40]"
    by (simp add: contents_def load_def)
  have "contents (fst (buf_remove_header ?b 1)) = drop 1 (contents ?b)"
    using buf_ops_refine [of ?b 1] by simp
  then show ?thesis
    unfolding b by simp
qed

subsection \<open>The interface of the protocol layers: a stack of headers\<close>

text \<open>
  Sending pushes headers on the front of the packet, receiving pops them. \<open>room\<close> is how many
  more bytes can be pushed.
\<close>

locale header_stack =
  fixes bytes :: "'b \<Rightarrow> u8 list"
    and ok :: "'b \<Rightarrow> bool"
    and room :: "'b \<Rightarrow> nat"
    and push :: "'b \<Rightarrow> u8 list \<Rightarrow> 'b"
    and pop :: "'b \<Rightarrow> nat \<Rightarrow> 'b"
  assumes bytes_push: "ok b \<Longrightarrow> length h \<le> room b \<Longrightarrow> bytes (push b h) = h @ bytes b"
    and ok_push: "ok b \<Longrightarrow> length h \<le> room b \<Longrightarrow> ok (push b h)"
    and room_push: "ok b \<Longrightarrow> length h \<le> room b \<Longrightarrow> room (push b h) = room b - length h"
    and bytes_pop: "ok b \<Longrightarrow> n \<le> length (bytes b) \<Longrightarrow> bytes (pop b n) = drop n (bytes b)"
    and ok_pop: "ok b \<Longrightarrow> n \<le> length (bytes b) \<Longrightarrow> ok (pop b n)"
begin

lemma pop_push: "ok b \<Longrightarrow> length h \<le> room b \<Longrightarrow> bytes (pop (push b h) (length h)) = bytes b"
  by (simp add: bytes_pop ok_push bytes_push)

lemma push_all:
  "ok b \<Longrightarrow> length (concat hs) \<le> room b \<Longrightarrow>
    bytes (fold (\<lambda>h c. push c h) hs b) = concat (rev hs) @ bytes b \<and>
    ok (fold (\<lambda>h c. push c h) hs b)"
proof (induction hs arbitrary: b)
  case (Cons h hs)
  then have h: "length h \<le> room b" by simp
  from Cons.prems have "length (concat hs) \<le> room (push b h)"
    by (simp add: room_push h)
  with Cons.IH [of "push b h"] Cons.prems(1) h show ?case
    by (simp add: ok_push bytes_push)
qed simp

lemma pop_all:
  "ok b \<Longrightarrow> bytes b = concat hs @ rest \<Longrightarrow>
    bytes (fold (\<lambda>h c. pop c (length h)) hs b) = rest"
  by (induction hs arbitrary: b) (simp_all add: bytes_pop ok_pop)

text \<open>What a sending stack of layers pushes, the receiving stack removes in reverse order.\<close>

lemma encapsulate_decapsulate:
  assumes "ok b" and "length (concat hs) \<le> room b"
  shows "bytes (fold (\<lambda>h c. pop c (length h)) (rev hs) (fold (\<lambda>h c. push c h) hs b)) = bytes b"
  using push_all [OF assms] by (intro pop_all) simp_all

end

definition buf_push :: "buf_t \<Rightarrow> u8 list \<Rightarrow> buf_t" where
  "buf_push b h = (case buf_add_header b (length h) of
     (c, _) \<Rightarrow> c\<lparr>buf_payload := store (buf_payload c) (buf_data c) h\<rparr>)"

definition buf_pop :: "buf_t \<Rightarrow> nat \<Rightarrow> buf_t" where
  "buf_pop b n = fst (buf_remove_header b n)"

interpretation bh: header_stack contents buf_ok buf_data buf_push buf_pop
  by unfold_locales
    (auto simp: buf_push_def buf_pop_def buf_op_defs buf_ok_def contents_def mem_simps
      load_store_split load_store_disjoint add.commute [of "buf_len b" for b])

lemma buf_add_header_write:
  assumes "length h \<le> buf_data b" and "buf_ok b"
  shows "buf_add_header b (length h) = (b\<lparr>buf_len := buf_len b + length h,
           buf_data := buf_data b - length h\<rparr>, 0)"
    and "buf_write (fst (buf_add_header b (length h))) (buf_data b - length h) h
           = Inr (buf_push b h)"
  using assms by (auto simp: buf_op_defs buf_write_def buf_push_def buf_ok_def)

lemma buf_read_contents:
  "buf_ok b \<Longrightarrow> n \<le> buf_len b \<Longrightarrow> buf_read b (buf_data b) n = Inr (take n (contents b))"
  by (simp add: buf_read_def buf_ok_def contents_def mem_simps min_def)

text \<open>Encapsulation is undone by decapsulation: headers pushed with \<open>buf_add_header\<close> and
  written in front of a packet, one per layer, and then removed with \<open>buf_remove_header\<close> from
  the outermost inwards, leave exactly the original packet, provided the space in front of the
  window holds all the headers.\<close>

lemma headers_roundtrip:
  assumes "buf_ok b" and "length (concat hs) \<le> buf_data b"
  shows "contents (fold (\<lambda>h c. buf_pop c (length h)) (rev hs)
           (fold (\<lambda>h c. buf_push c h) hs b)) = contents b"
  using assms by (rule bh.encapsulate_decapsulate)

lemma headers_roundtrip_example:
  "contents (fold (\<lambda>h c. buf_pop c (length h)) (rev [[1, 2], [3]])
     (fold (\<lambda>h c. buf_push c h) [[1, 2], [3]]
        \<lparr>buf_len = 2, buf_data = 10, buf_payload = (\<lambda>_. 7)\<rparr>)) = [7, 7]"
proof -
  let ?b = "\<lparr>buf_len = 2, buf_data = 10, buf_payload = (\<lambda>_. 7)\<rparr> :: buf_t"
  have "contents ?b = [7, 7]" by (simp add: contents_def load_def)
  then show ?thesis
    using headers_roundtrip [of ?b "[[1, 2], [3]]"] by (simp add: buf_ok_def)
qed

end
