(* ===== verification/Queue.thy ===== *)
theory Queue
  imports Buf
begin

text \<open>
  The linked queue of \<^verbatim>\<open>src/queue.c\<close> on an explicit heap. The heap has one cell space per type
  the program allocates (queue nodes, queue heads, packet buffers) and hands out addresses it
  has never used, so a stale pointer is seen as \<open>UseAfterFree\<close>. \<open>malloc\<close> never returns null: the
  source does not test for it. A \<^verbatim>\<open>queue_t\<close> is passed by value and returned changed, since the
  program keeps it inside a table slot; \<open>None\<close> is the null queue, which the assertions of the
  source refuse. The loops of \<open>queue_free_data\<close> carry fuel: the number of addresses ever handed
  out plus one, which a well-formed queue never exhausts (\<open>queue_free_data_ok\<close>).

  The locale \<open>fifo\<close> is the interface of a queue; it is interpreted here on the linked queue and in
  \<open>Ring\<close> on the ring buffer of accepted connections.
\<close>

record queue_node =
  n_item :: "nat option"
  n_next :: "nat option"

record queue_t =
  q_head :: "nat option"
  q_tail :: "nat option"

record heap =
  h_next :: nat
  h_nodes :: "nat \<Rightarrow> queue_node option"
  h_queues :: "nat \<Rightarrow> queue_t option"
  h_bufs :: "nat \<Rightarrow> buf_t option"

definition heap_empty :: heap where
  "heap_empty = \<lparr>h_next = 0, h_nodes = Map.empty, h_queues = Map.empty, h_bufs = Map.empty\<rparr>"

definition node_read :: "heap \<Rightarrow> nat \<Rightarrow> queue_node res" where
  "node_read h a = (case h_nodes h a of None \<Rightarrow> Inl UseAfterFree | Some n \<Rightarrow> Inr n)"

definition malloc_node :: "heap \<Rightarrow> queue_node \<Rightarrow> heap \<times> nat" where
  "malloc_node h n =
     (h\<lparr>h_next := Suc (h_next h), h_nodes := (h_nodes h)(h_next h \<mapsto> n)\<rparr>, h_next h)"

definition free_node :: "heap \<Rightarrow> nat \<Rightarrow> heap res" where
  "free_node h a = ebind (node_read h a) (\<lambda>_. Inr (h\<lparr>h_nodes := (h_nodes h)(a := None)\<rparr>))"

definition malloc_buf :: "heap \<Rightarrow> buf_t \<Rightarrow> heap \<times> nat" where
  "malloc_buf h b =
     (h\<lparr>h_next := Suc (h_next h), h_bufs := (h_bufs h)(h_next h \<mapsto> b)\<rparr>, h_next h)"

definition free_buf :: "heap \<Rightarrow> nat \<Rightarrow> heap res" where
  "free_buf h a = (case h_bufs h a of
     None \<Rightarrow> Inl UseAfterFree | Some _ \<Rightarrow> Inr (h\<lparr>h_bufs := (h_bufs h)(a := None)\<rparr>))"

definition deref :: "'a option \<Rightarrow> fault \<Rightarrow> 'a res" where
  "deref p e = (case p of None \<Rightarrow> Inl e | Some x \<Rightarrow> Inr x)"

lemma deref_simps [simp]: "deref (Some x) e = Inr x" "deref None e = Inl e"
  by (simp_all add: deref_def)

definition queue_new :: "heap \<Rightarrow> nat option \<Rightarrow> heap \<times> nat" where
  "queue_new h item =
     (let q = h_next h;
          h1 = h\<lparr>h_next := Suc q, h_queues := (h_queues h)(q \<mapsto> \<lparr>q_head = None, q_tail = None\<rparr>)\<rparr>;
          (h2, node) = malloc_node h1 \<lparr>n_item = item, n_next = None\<rparr>
      in (h2\<lparr>h_queues := (h_queues h2)(q \<mapsto> \<lparr>q_head = Some node, q_tail = Some node\<rparr>)\<rparr>, q))"

fun free_items_loop :: "nat \<Rightarrow> heap \<Rightarrow> nat option \<Rightarrow> heap res" where
  "free_items_loop fuel h None = Inr h"
| "free_items_loop 0 h (Some a) = Inl OutOfFuel"
| "free_items_loop (Suc fuel) h (Some a) =
     ebind (node_read h a) (\<lambda>n.
     ebind (case n_item n of None \<Rightarrow> Inr h | Some p \<Rightarrow> free_buf h p) (\<lambda>h'.
     free_items_loop fuel h' (n_next n)))"

fun free_nodes_loop :: "nat \<Rightarrow> heap \<Rightarrow> nat option \<Rightarrow> heap res" where
  "free_nodes_loop fuel h None = Inr h"
| "free_nodes_loop 0 h (Some a) = Inl OutOfFuel"
| "free_nodes_loop (Suc fuel) h (Some a) =
     ebind (node_read h a) (\<lambda>n.
     ebind (free_node h a) (\<lambda>h'.
     free_nodes_loop fuel h' (n_next n)))"

definition queue_free_data :: "heap \<Rightarrow> queue_t option \<Rightarrow> bool \<Rightarrow> heap res" where
  "queue_free_data h qp free_items =
     ebind (deref qp AssertFailed) (\<lambda>q.
     ebind (if free_items then free_items_loop (Suc (h_next h)) h (q_head q) else Inr h) (\<lambda>h1.
     free_nodes_loop (Suc (h_next h)) h1 (q_head q)))"

definition queue_free :: "heap \<Rightarrow> nat option \<Rightarrow> bool \<Rightarrow> heap res" where
  "queue_free h qaddr free_items =
     ebind (deref qaddr AssertFailed) (\<lambda>a.
     ebind (deref (h_queues h a) UseAfterFree) (\<lambda>q.
     ebind (queue_free_data h (Some q) free_items) (\<lambda>h1.
     Inr (h1\<lparr>h_queues := (h_queues h1)(a := None)\<rparr>))))"

definition queue_push :: "heap \<Rightarrow> queue_t option \<Rightarrow> nat option \<Rightarrow> (heap \<times> queue_t) res" where
  "queue_push h qp item =
     ebind (deref qp AssertFailed) (\<lambda>q.
     case malloc_node h \<lparr>n_item = item, n_next = None\<rparr> of (h1, node) \<Rightarrow>
     ebind (deref (q_tail q) NullDeref) (\<lambda>t.
     ebind (node_read h1 t) (\<lambda>tn.
     Inr (h1\<lparr>h_nodes := (h_nodes h1)(t \<mapsto> tn\<lparr>n_next := Some node\<rparr>)\<rparr>,
          q\<lparr>q_tail := Some node\<rparr>))))"

definition queue_pop :: "heap \<Rightarrow> queue_t option \<Rightarrow> (heap \<times> queue_t \<times> nat option) res" where
  "queue_pop h qp =
     ebind (deref qp AssertFailed) (\<lambda>q.
     case q_head q of
       None \<Rightarrow> Inr (h, q, None)
     | Some a \<Rightarrow>
         ebind (node_read h a) (\<lambda>n.
         let q1 = q\<lparr>q_head := n_next n\<rparr> in
         ebind (free_node h a) (\<lambda>h1.
         Inr (h1, (if q_head q1 = None then q1\<lparr>q_tail := None\<rparr> else q1), n_item n))))"

definition queue_copy :: "queue_t \<Rightarrow> queue_t \<Rightarrow> queue_t" where
  "queue_copy dst src = src"

subsection \<open>Well-formed queues\<close>

text \<open>
  \<open>chain ns p as\<close>: from \<open>p\<close> the next-pointers run through the nodes at \<open>as\<close> and end in null.
  \<open>queue_at h q as\<close>: the head and tail of \<open>q\<close> delimit that chain; its nodes are distinct and were
  all handed out by the heap.
\<close>

fun chain :: "(nat \<Rightarrow> queue_node option) \<Rightarrow> nat option \<Rightarrow> nat list \<Rightarrow> bool" where
  "chain ns p [] \<longleftrightarrow> p = None"
| "chain ns p (a # as) \<longleftrightarrow>
     p = Some a \<and> (case ns a of None \<Rightarrow> False | Some n \<Rightarrow> chain ns (n_next n) as)"

definition queue_at :: "heap \<Rightarrow> queue_t \<Rightarrow> nat list \<Rightarrow> bool" where
  "queue_at h q as \<longleftrightarrow>
     chain (h_nodes h) (q_head q) as \<and> distinct as \<and> (\<forall>a \<in> set as. a < h_next h) \<and>
     q_tail q = (if as = [] then None else Some (last as))"

definition queue_items :: "heap \<Rightarrow> nat list \<Rightarrow> nat option list" where
  "queue_items h as = map (\<lambda>a. case h_nodes h a of None \<Rightarrow> None | Some n \<Rightarrow> n_item n) as"

definition queue_rep :: "heap \<times> queue_t \<Rightarrow> nat list \<Rightarrow> bool" where
  "queue_rep s xs \<longleftrightarrow>
     (\<exists>as. queue_at (fst s) (snd s) as \<and> queue_items (fst s) as = map Some xs)"

lemma chain_upd_notin [simp]: "a \<notin> set as \<Longrightarrow> chain (ns(a := v)) p as = chain ns p as"
  by (induction as arbitrary: p) (auto split: option.splits)

lemma chain_cong: "(\<And>a. a \<in> set as \<Longrightarrow> ns a = ns' a) \<Longrightarrow> chain ns p as = chain ns' p as"
  by (induction as arbitrary: p) (auto split: option.splits)

lemma chain_allocated: "chain ns p as \<Longrightarrow> a \<in> set as \<Longrightarrow> ns a \<noteq> None"
  by (induction as arbitrary: p) (auto split: option.splits)

lemma chain_append:
  "chain ns p (as @ [a]) \<Longrightarrow> ns b = Some m \<Longrightarrow> n_next m = None \<Longrightarrow> distinct (as @ [a, b]) \<Longrightarrow>
    ns a = Some n \<Longrightarrow> chain (ns(a \<mapsto> n\<lparr>n_next := Some b\<rparr>)) p (as @ [a, b])"
  by (induction as arbitrary: p) (auto split: option.splits)

lemma queue_items_cong:
  "(\<And>a. a \<in> set as \<Longrightarrow> map_option n_item (h_nodes h a) = map_option n_item (h_nodes h' a)) \<Longrightarrow>
    queue_items h as = queue_items h' as"
  by (auto simp: queue_items_def split: option.splits)
    (metis option.distinct(1) option.simps(8) option.simps(9) option.inject)+

text \<open>A queue is untouched by changes of the heap outside its nodes.\<close>

lemma queue_at_frame:
  assumes "queue_at h q as" and "\<And>a. a \<in> set as \<Longrightarrow> h_nodes h' a = h_nodes h a"
    and "h_next h \<le> h_next h'"
  shows "queue_at h' q as" and "queue_items h' as = queue_items h as"
proof -
  show "queue_at h' q as"
    using assms chain_cong [of as "h_nodes h'" "h_nodes h"]
    by (auto simp: queue_at_def intro: less_le_trans)
  show "queue_items h' as = queue_items h as"
    using assms(2) by (simp add: queue_items_def)
qed

lemma queue_at_fresh: "queue_at h q as \<Longrightarrow> h_next h \<notin> set as"
  by (auto simp: queue_at_def)

lemma queue_push_at:
  assumes at: "queue_at h q as" and ne: "as \<noteq> []"
  obtains h' q' where "queue_push h (Some q) item = Inr (h', q')"
    and "queue_at h' q' (as @ [h_next h])"
    and "queue_items h' (as @ [h_next h]) = queue_items h as @ [item]"
    and "h_next h' = Suc (h_next h)" and "h_bufs h' = h_bufs h" and "h_queues h' = h_queues h"
    and "\<And>a. a \<notin> set as \<Longrightarrow> a \<noteq> h_next h \<Longrightarrow> h_nodes h' a = h_nodes h a"
proof -
  obtain bs t where as: "as = bs @ [t]" using ne by (metis append_butlast_last_id)
  let ?b = "h_next h"
  let ?m = "\<lparr>n_item = item, n_next = None\<rparr>"
  have chain: "chain (h_nodes h) (q_head q) (bs @ [t])" and dist: "distinct (bs @ [t])"
    and tail: "q_tail q = Some t" and less: "\<forall>a \<in> set as. a < ?b"
    using at by (auto simp: queue_at_def as)
  then have fresh: "?b \<notin> set as" by auto
  obtain n where n: "h_nodes h t = Some n"
    using chain_allocated [OF chain, of t] by auto
  let ?ns = "((h_nodes h)(?b \<mapsto> ?m))(t \<mapsto> n\<lparr>n_next := Some ?b\<rparr>)"
  let ?h = "h\<lparr>h_next := Suc ?b, h_nodes := ?ns\<rparr>"
  let ?q = "q\<lparr>q_tail := Some ?b\<rparr>"
  have tb: "t \<noteq> ?b" using fresh by (auto simp: as)
  have push: "queue_push h (Some q) item = Inr (?h, ?q)"
    using tb by (simp add: queue_push_def malloc_node_def tail node_read_def n)
  have "chain ((h_nodes h)(?b \<mapsto> ?m)) (q_head q) (bs @ [t])"
    using chain fresh as by (metis chain_upd_notin)
  then have "chain ?ns (q_head q) (bs @ [t, ?b])"
    using tb dist fresh n by (intro chain_append [where m = ?m]) (auto simp: as)
  then have "queue_at ?h ?q (as @ [?b])"
    using dist fresh less by (auto simp: queue_at_def as)
  moreover have "queue_items ?h (as @ [?b]) = queue_items h as @ [item]"
    using fresh n tb dist by (auto simp: queue_items_def as)
  ultimately show thesis
    using that push fresh by (auto simp: as)
qed

lemma queue_pop_Nil: "queue_at h q [] \<Longrightarrow> queue_pop h (Some q) = Inr (h, q, None)"
  by (simp add: queue_at_def queue_pop_def)

lemma queue_pop_at:
  assumes at: "queue_at h q (a # as)"
  obtains h' q' where "queue_pop h (Some q) = Inr (h', q', hd (queue_items h (a # as)))"
    and "queue_at h' q' as" and "queue_items h' as = queue_items h as"
    and "h_next h' = h_next h" and "h_bufs h' = h_bufs h" and "h_queues h' = h_queues h"
    and "\<And>b. b \<noteq> a \<Longrightarrow> h_nodes h' b = h_nodes h b" and "h_nodes h' a = None"
proof -
  from at obtain n where head: "q_head q = Some a" and n: "h_nodes h a = Some n"
    and rest: "chain (h_nodes h) (n_next n) as" and dist: "a \<notin> set as" "distinct as"
    and less: "\<forall>b \<in> set as. b < h_next h"
    and tail: "q_tail q = Some (if as = [] then a else last as)"
    by (auto simp: queue_at_def split: option.splits)
  let ?h = "h\<lparr>h_nodes := (h_nodes h)(a := None)\<rparr>"
  let ?q1 = "q\<lparr>q_head := n_next n\<rparr>"
  let ?q = "if n_next n = None then ?q1\<lparr>q_tail := None\<rparr> else ?q1"
  have pop: "queue_pop h (Some q) = Inr (?h, ?q, n_item n)"
    by (simp add: queue_pop_def head node_read_def n free_node_def Let_def)
  have "n_next n = None \<longleftrightarrow> as = []"
    using rest by (cases as) auto
  then have "queue_at ?h ?q as"
    using rest dist less tail by (simp add: queue_at_def)
  moreover have "queue_items ?h as = queue_items h as"
    using dist by (auto simp: queue_items_def)
  moreover have "hd (queue_items h (a # as)) = n_item n"
    by (simp add: queue_items_def n)
  ultimately show thesis
    using that pop by auto
qed

lemma queue_new_at:
  assumes "queue_new h item = (h', qa)"
  shows "qa = h_next h" and "h_next h' = Suc (Suc (h_next h))" and "h_bufs h' = h_bufs h"
    and "h_nodes h' = (h_nodes h)(Suc (h_next h) \<mapsto> \<lparr>n_item = item, n_next = None\<rparr>)"
    and "h_queues h' = (h_queues h)(h_next h \<mapsto>
          \<lparr>q_head = Some (Suc (h_next h)), q_tail = Some (Suc (h_next h))\<rparr>)"
  using assms by (auto simp: queue_new_def malloc_node_def Let_def)

lemma queue_new_rep:
  "queue_new h (Some x) = (h', qa) \<Longrightarrow> h_queues h' qa = Some q \<Longrightarrow> queue_rep (h', q) [x]"
  unfolding queue_rep_def
  by (rule exI [of _ "[Suc (h_next h)]"])
    (auto simp: queue_new_at queue_at_def queue_items_def)

subsection \<open>The queue interface\<close>

text \<open>
  \<open>rep s xs\<close>: the state \<open>s\<close> represents the queue with the elements \<open>xs\<close>, oldest first. \<open>room xs\<close>
  says when another element is accepted.
\<close>

locale fifo =
  fixes rep :: "'s \<Rightarrow> 'a list \<Rightarrow> bool"
    and room :: "'a list \<Rightarrow> bool"
    and push :: "'s \<Rightarrow> 'a \<Rightarrow> 's res"
    and pop :: "'s \<Rightarrow> ('s \<times> 'a option) res"
  assumes push_rep: "rep s xs \<Longrightarrow> room xs \<Longrightarrow> \<exists>s'. push s x = Inr s' \<and> rep s' (xs @ [x])"
    and pop_empty: "rep s [] \<Longrightarrow> \<exists>s'. pop s = Inr (s', None) \<and> rep s' []"
    and pop_rep: "rep s (x # xs) \<Longrightarrow> \<exists>s'. pop s = Inr (s', Some x) \<and> rep s' xs"

fun push_list :: "('s \<Rightarrow> 'a \<Rightarrow> 's res) \<Rightarrow> 's \<Rightarrow> 'a list \<Rightarrow> 's res" where
  "push_list push s [] = Inr s"
| "push_list push s (x # xs) = ebind (push s x) (\<lambda>s'. push_list push s' xs)"

fun pop_list :: "('s \<Rightarrow> ('s \<times> 'a option) res) \<Rightarrow> nat \<Rightarrow> 's \<Rightarrow> ('s \<times> 'a option list) res" where
  "pop_list pop 0 s = Inr (s, [])"
| "pop_list pop (Suc n) s =
     ebind (pop s) (\<lambda>(s', x). ebind (pop_list pop n s') (\<lambda>(s'', xs). Inr (s'', x # xs)))"

context fifo begin

lemma push_list_rep:
  "rep s xs \<Longrightarrow> (\<forall>i < length ys. room (xs @ take i ys)) \<Longrightarrow>
    \<exists>s'. push_list push s ys = Inr s' \<and> rep s' (xs @ ys)"
proof (induction ys arbitrary: s xs)
  case (Cons y ys)
  then have "room xs" by force
  with Cons.prems(1) obtain s1 where s1: "push s y = Inr s1" "rep s1 (xs @ [y])"
    using push_rep by blast
  moreover have "\<forall>i < length ys. room ((xs @ [y]) @ take i ys)"
    using Cons.prems(2) by (metis Suc_less_eq append.assoc append_Cons append_Nil length_Cons take_Suc_Cons)
  ultimately show ?case
    using Cons.IH [of s1 "xs @ [y]"] by simp
qed simp

lemma pop_list_rep:
  "rep s (xs @ ys) \<Longrightarrow> \<exists>s'. pop_list pop (length xs) s = Inr (s', map Some xs) \<and> rep s' ys"
proof (induction xs arbitrary: s)
  case (Cons x xs)
  then obtain s1 where s1: "pop s = Inr (s1, Some x)" "rep s1 (xs @ ys)"
    using pop_rep [of s x "xs @ ys"] by auto
  with Cons.IH [OF s1(2)] show ?case by auto
qed simp

text \<open>Whatever is pushed comes out in the same order, after what was there before.\<close>

lemma push_then_pop:
  assumes "rep s xs" and "\<forall>i < length ys. room (xs @ take i ys)"
  obtains s1 s2 where "push_list push s ys = Inr s1"
    and "pop_list pop (length xs + length ys) s1 = Inr (s2, map Some (xs @ ys))" and "rep s2 []"
proof -
  obtain s1 where s1: "push_list push s ys = Inr s1" "rep s1 ((xs @ ys) @ [])"
    using push_list_rep [OF assms] by auto
  obtain s2 where "pop_list pop (length (xs @ ys)) s1 = Inr (s2, map Some (xs @ ys))" "rep s2 []"
    using pop_list_rep [OF s1(2)] by auto
  with s1(1) that show thesis by simp
qed

end

definition lq_push :: "heap \<times> queue_t \<Rightarrow> nat \<Rightarrow> (heap \<times> queue_t) res" where
  "lq_push s x = queue_push (fst s) (Some (snd s)) (Some x)"

definition lq_pop :: "heap \<times> queue_t \<Rightarrow> ((heap \<times> queue_t) \<times> nat option) res" where
  "lq_pop s = ebind (queue_pop (fst s) (Some (snd s))) (\<lambda>(h, q, x). Inr ((h, q), x))"

interpretation lq: fifo queue_rep "\<lambda>xs. xs \<noteq> []" lq_push lq_pop
proof unfold_locales
  fix s xs and x :: nat
  assume "queue_rep s xs" and ne: "xs \<noteq> []"
  then obtain as where at: "queue_at (fst s) (snd s) as"
    and items: "queue_items (fst s) as = map Some xs"
    by (auto simp: queue_rep_def)
  have "as \<noteq> []" using items ne by (auto simp: queue_items_def)
  with at obtain h' q' where "queue_push (fst s) (Some (snd s)) (Some x) = Inr (h', q')"
    "queue_at h' q' (as @ [h_next (fst s)])"
    "queue_items h' (as @ [h_next (fst s)]) = queue_items (fst s) as @ [Some x]"
    by (rule queue_push_at)
  then show "\<exists>s'. lq_push s x = Inr s' \<and> queue_rep s' (xs @ [x])"
    using items by (auto simp: lq_push_def queue_rep_def)
next
  fix s
  assume "queue_rep s []"
  then show "\<exists>s'. lq_pop s = Inr (s', None) \<and> queue_rep s' []"
    by (auto simp: queue_rep_def queue_items_def lq_pop_def queue_pop_Nil)
next
  fix s xs and x :: nat
  assume "queue_rep s (x # xs)"
  then obtain a as where at: "queue_at (fst s) (snd s) (a # as)"
    and items: "queue_items (fst s) (a # as) = map Some (x # xs)"
    by (auto simp: queue_rep_def queue_items_def)
  from at obtain h' q' where
    "queue_pop (fst s) (Some (snd s)) = Inr (h', q', hd (queue_items (fst s) (a # as)))"
    "queue_at h' q' as" "queue_items h' as = queue_items (fst s) as"
    by (rule queue_pop_at)
  moreover have "queue_items (fst s) as = map Some xs"
    using items by (simp add: queue_items_def)
  ultimately show "\<exists>s'. lq_pop s = Inr (s', Some x) \<and> queue_rep s' xs"
    using items by (auto simp: lq_pop_def queue_rep_def)
qed

subsection \<open>Freeing a queue\<close>

lemma free_nodes_loop_ok:
  "chain (h_nodes h) p as \<Longrightarrow> distinct as \<Longrightarrow> length as \<le> fuel \<Longrightarrow>
    free_nodes_loop fuel h p =
      Inr (h\<lparr>h_nodes := (\<lambda>a. if a \<in> set as then None else h_nodes h a)\<rparr>)"
proof (induction as arbitrary: h p fuel)
  case (Cons a as)
  then obtain n fuel' where n: "p = Some a" "h_nodes h a = Some n" "chain (h_nodes h) (n_next n) as"
    and fuel: "fuel = Suc fuel'"
    by (cases fuel) (auto split: option.splits)
  let ?h = "h\<lparr>h_nodes := (h_nodes h)(a := None)\<rparr>"
  have "chain (h_nodes ?h) (n_next n) as = chain (h_nodes h) (n_next n) as"
    by (rule chain_cong) (use Cons.prems(2) in auto)
  with n(3) have "chain (h_nodes ?h) (n_next n) as" by (simp only:)
  then have "free_nodes_loop fuel' ?h (n_next n) =
      Inr (?h\<lparr>h_nodes := (\<lambda>b. if b \<in> set as then None else h_nodes ?h b)\<rparr>)"
    by (rule Cons.IH) (use Cons.prems(2,3) fuel in simp_all)
  moreover have "(\<lambda>b. if b \<in> set as then None else ((h_nodes h)(a := None)) b)
      = (\<lambda>b. if b \<in> set (a # as) then None else h_nodes h b)"
    by auto
  ultimately show ?case
    by (simp add: n fuel node_read_def free_node_def del: fun_upd_apply cong: if_cong)
qed simp

definition items_of :: "heap \<Rightarrow> nat list \<Rightarrow> nat list" where
  "items_of h as = map the (filter (\<lambda>x. x \<noteq> None) (queue_items h as))"

lemma free_items_loop_ok:
  "chain (h_nodes h) p as \<Longrightarrow> length as \<le> fuel \<Longrightarrow> distinct (items_of h as) \<Longrightarrow>
   (\<forall>x \<in> set (items_of h as). h_bufs h x \<noteq> None) \<Longrightarrow>
    free_items_loop fuel h p =
      Inr (h\<lparr>h_bufs := (\<lambda>x. if x \<in> set (items_of h as) then None else h_bufs h x)\<rparr>)"
proof (induction as arbitrary: h p fuel)
  case Nil
  then show ?case by (simp add: items_of_def queue_items_def)
next
  case (Cons a as)
  then obtain n fuel' where n: "p = Some a" "h_nodes h a = Some n" "chain (h_nodes h) (n_next n) as"
    and fuel: "fuel = Suc fuel'"
    by (cases fuel) (auto split: option.splits)
  show ?case
  proof (cases "n_item n")
    case None
    then have "items_of h (a # as) = items_of h as"
      by (simp add: items_of_def queue_items_def n)
    with Cons.IH [of h "n_next n" fuel'] Cons.prems n fuel None show ?thesis
      by (simp add: node_read_def)
  next
    case (Some x)
    let ?h = "h\<lparr>h_bufs := (h_bufs h)(x := None)\<rparr>"
    have items: "items_of h (a # as) = x # items_of h as" "items_of ?h as = items_of h as"
      by (simp_all add: items_of_def queue_items_def n Some)
    then have "free_buf h x = Inr ?h"
      using Cons.prems(4) by (auto simp: free_buf_def)
    moreover have "free_items_loop fuel' ?h (n_next n) =
        Inr (?h\<lparr>h_bufs := (\<lambda>y. if y \<in> set (items_of ?h as) then None else h_bufs ?h y)\<rparr>)"
      using Cons.prems n(3) fuel items by (intro Cons.IH) auto
    moreover have "(\<lambda>y. if y \<in> set (items_of h as) then None else ((h_bufs h)(x := None)) y)
        = (\<lambda>y. if y \<in> set (items_of h (a # as)) then None else h_bufs h y)"
      by (auto simp: items)
    ultimately show ?thesis
      by (simp add: n fuel node_read_def Some items del: fun_upd_apply cong: if_cong)
  qed
qed

lemma queue_at_length: "queue_at h q as \<Longrightarrow> length as \<le> Suc (h_next h)"
proof -
  assume at: "queue_at h q as"
  then have "length as = card (set as)" by (simp add: queue_at_def distinct_card)
  also have "\<dots> \<le> card {..< h_next h}"
    using at by (intro card_mono) (auto simp: queue_at_def)
  finally show ?thesis by simp
qed

lemma queue_free_data_nothing: "queue_at h q [] \<Longrightarrow> queue_free_data h (Some q) fi = Inr h"
  by (simp add: queue_at_def queue_free_data_def)

text \<open>C28. Freeing a well-formed queue terminates and frees exactly what it should: its nodes,
  and, when asked to, the items they hold, which must be live and distinct; every other cell of
  the heap is unchanged. The fuel of the model's loops is never used up.\<close>

theorem queue_free_data_ok:
  assumes "queue_at h q as"
    and "free_items \<longrightarrow> distinct (items_of h as) \<and> (\<forall>x \<in> set (items_of h as). h_bufs h x \<noteq> None)"
  shows "queue_free_data h (Some q) free_items =
    Inr (h\<lparr>h_nodes := (\<lambda>a. if a \<in> set as then None else h_nodes h a),
           h_bufs := (\<lambda>x. if free_items \<and> x \<in> set (items_of h as) then None else h_bufs h x)\<rparr>)"
proof -
  have chain: "chain (h_nodes h) (q_head q) as" and dist: "distinct as"
    using assms(1) by (simp_all add: queue_at_def)
  note len = queue_at_length [OF assms(1)]
  show ?thesis
  proof (cases free_items)
    case True
    let ?h = "h\<lparr>h_bufs := (\<lambda>x. if x \<in> set (items_of h as) then None else h_bufs h x)\<rparr>"
    have "free_items_loop (Suc (h_next h)) h (q_head q) = Inr ?h"
      using True assms(2) chain len by (intro free_items_loop_ok) auto
    moreover have "chain (h_nodes ?h) (q_head q) as"
      using chain by simp
    ultimately show ?thesis
      using True dist len by (simp add: queue_free_data_def free_nodes_loop_ok cong: if_cong)
  next
    case False
    with chain dist len show ?thesis
      by (simp add: queue_free_data_def free_nodes_loop_ok)
  qed
qed

theorem queue_free_data_ok_witness:
  "h_nodes (case queue_free_data
       \<lparr>h_next = 2, h_nodes = [1 \<mapsto> \<lparr>n_item = Some 0, n_next = None\<rparr>], h_queues = Map.empty,
        h_bufs = [0 \<mapsto> \<lparr>buf_len = 0, buf_data = 0, buf_payload = (\<lambda>_. 0)\<rparr>]\<rparr>
       (Some \<lparr>q_head = Some 1, q_tail = Some 1\<rparr>) True of Inr h \<Rightarrow> h) = Map.empty"
proof -
  let ?h = "\<lparr>h_next = 2, h_nodes = [1 \<mapsto> \<lparr>n_item = Some 0, n_next = None\<rparr>],
    h_queues = Map.empty, h_bufs = [0 \<mapsto> \<lparr>buf_len = 0, buf_data = 0, buf_payload = (\<lambda>_. 0)\<rparr>]\<rparr> :: heap"
  have "queue_at ?h \<lparr>q_head = Some 1, q_tail = Some 1\<rparr> [1]"
    by (simp add: queue_at_def)
  moreover have "items_of ?h [1] = [0]"
    by (simp add: items_of_def queue_items_def)
  ultimately show ?thesis
    using queue_free_data_ok [of ?h "\<lparr>q_head = Some 1, q_tail = Some 1\<rparr>" "[1]" True]
    by (auto simp: fun_eq_iff)
qed

subsection \<open>Properties of the queue\<close>

text \<open>The linked queue is first in, first out: a queue created with one item and then given
  any further items hands all of them back in that order, and is then empty; no step fails.\<close>

lemma queue_is_fifo:
  assumes "queue_new h (Some x) = (h1, qa)" and "h_queues h1 qa = Some q"
  shows "\<exists>s1 s2. push_list lq_push (h1, q) ys = Inr s1 \<and>
    pop_list lq_pop (Suc (length ys)) s1 = Inr (s2, map Some (x # ys)) \<and>
    lq_pop s2 = Inr (s2, None)"
proof -
  have "queue_rep (h1, q) [x]"
    by (rule queue_new_rep [OF assms])
  then obtain s1 s2 where s: "push_list lq_push (h1, q) ys = Inr s1"
    "pop_list lq_pop (length [x] + length ys) s1 = Inr (s2, map Some ([x] @ ys))" "queue_rep s2 []"
    by (rule lq.push_then_pop) simp_all
  moreover have "lq_pop s2 = Inr (s2, None)"
    using s(3) by (auto simp: queue_rep_def queue_items_def lq_pop_def queue_pop_Nil)
  ultimately show ?thesis by auto
qed

lemma queue_is_fifo_example:
  "\<exists>s1 s2. push_list lq_push (fst (queue_new heap_empty (Some 7)),
        \<lparr>q_head = Some 1, q_tail = Some 1\<rparr>) [8, 9] = Inr s1 \<and>
    pop_list lq_pop (Suc (length [8, 9 :: nat])) s1 = Inr (s2, map Some (7 # [8, 9])) \<and>
    lq_pop s2 = Inr (s2, None)"
  by (rule queue_is_fifo [of heap_empty 7 _ 0])
    (simp_all add: queue_new_def malloc_node_def heap_empty_def Let_def)

text \<open>A queue cannot be refilled: once its items have been popped, \<open>queue_push\<close> dereferences
  the null tail pointer that \<open>queue_pop\<close> left behind.\<close>

lemma queue_push_empty_faults:
  assumes "queue_rep (h, q) []"
  shows "queue_push h (Some q) item = Inl NullDeref"
  using assms
  by (auto simp: queue_rep_def queue_at_def queue_items_def queue_push_def malloc_node_def)

lemma queue_push_empty_faults_example:
  "queue_rep (heap_empty, \<lparr>q_head = None, q_tail = None\<rparr>) [] \<and>
   queue_push heap_empty (Some \<lparr>q_head = None, q_tail = None\<rparr>) (Some 3) = Inl NullDeref"
proof -
  have "queue_rep (heap_empty, \<lparr>q_head = None, q_tail = None\<rparr>) []"
    by (auto simp: queue_rep_def queue_at_def queue_items_def)
  then show ?thesis
    using queue_push_empty_faults by blast
qed

end
