(* ===== verification/NetMap.thy ===== *)
theory NetMap
  imports Prelude
begin

text \<open>
  The generic table of \<^verbatim>\<open>src/map.c\<close>: an array of \<open>max_size\<close> slots, each a key, a value and the time
  of its last update, searched linearly. A slot is valid when its time is not 0 and it has not
  expired. The byte array of the code is modelled slot by slot: \<open>m_data m i\<close> is the entry at
  physical position \<open>i\<close>, \<open>map_entry_get\<close> its byte offset. A pointer to a value stored in the
  table is the number of its slot, so that the callers that keep such pointers (the ARP queue,
  the TCP connections and handlers) see later changes of the slot. \<open>now\<close> is what \<^verbatim>\<open>time(NULL)\<close>
  returns; it does not change within one operation.

  The lemmas show the table to be a finite map (locale \<open>kv_table\<close>) with a count (locale
  \<open>counted_table\<close>), the layout of its slots, and what the count does when entries expire.
\<close>

definition MAP_MAX_LEN :: nat where
  "MAP_MAX_LEN = 16 * 131325"

record ('k, 'v) entry =
  ent_key :: 'k
  ent_val :: 'v
  ent_time :: int

record ('k, 'v) map_t =
  m_key_len :: nat
  m_value_len :: nat
  m_size :: nat
  m_max_size :: nat
  m_timeout :: int
  m_ctor :: "'v \<Rightarrow> 'v \<Rightarrow> 'v"
  m_data :: "nat \<Rightarrow> ('k, 'v) entry"

text \<open>
  \<open>z\<close> is the entry that all-zero bytes represent (\<^verbatim>\<open>memset(map, 0, ...)\<close>). The product in the
  capacity test is a \<^verbatim>\<open>size_t\<close> product and wraps. The default constructor is \<^verbatim>\<open>memcpy\<close>, which
  replaces the destination by the source.
\<close>

definition map_init ::
  "('k, 'v) entry \<Rightarrow> nat \<Rightarrow> nat \<Rightarrow> nat \<Rightarrow> int \<Rightarrow> ('v \<Rightarrow> 'v \<Rightarrow> 'v) option \<Rightarrow> ('k, 'v) map_t" where
  "map_init z key_len value_len max_size timeout ctor =
     (let stride = key_len + value_len + 8;
          max_size' = (if max_size = 0 \<or> (max_size * stride) mod 2 ^ 64 > MAP_MAX_LEN
                       then MAP_MAX_LEN div stride else max_size);
          ctor' = (case ctor of None \<Rightarrow> (\<lambda>_ src. src) | Some f \<Rightarrow> f)
      in \<lparr>m_key_len = key_len, m_value_len = value_len, m_size = 0, m_max_size = max_size',
          m_timeout = timeout, m_ctor = ctor', m_data = (\<lambda>_. z\<lparr>ent_time := 0\<rparr>)\<rparr>)"

definition map_size :: "('k, 'v) map_t \<Rightarrow> nat" where
  "map_size m = m_size m"

definition map_entry_get :: "('k, 'v) map_t \<Rightarrow> nat \<Rightarrow> nat option" where
  "map_entry_get m pos =
     (if pos \<ge> m_max_size m then None
      else Some (pos * (m_key_len m + m_value_len m + 8)))"

definition map_entry_valid :: "('k, 'v) map_t \<Rightarrow> int \<Rightarrow> ('k, 'v) entry \<Rightarrow> bool" where
  "map_entry_valid m now e \<longleftrightarrow>
     ent_time e \<noteq> 0 \<and> (m_timeout m = 0 \<or> ent_time e + m_timeout m \<ge> now)"

text \<open>The loops of \<^verbatim>\<open>map_get\<close> and \<^verbatim>\<open>map_set\<close>: the first slot from \<open>i\<close> on that satisfies \<open>P\<close>.\<close>

function map_scan :: "(('k, 'v) entry \<Rightarrow> bool) \<Rightarrow> ('k, 'v) map_t \<Rightarrow> nat \<Rightarrow> nat option" where
  "map_scan P m i =
     (if i < m_max_size m
      then (if P (m_data m i) then Some i else map_scan P m (Suc i))
      else None)"
  by pat_completeness auto
termination
  by (relation "measure (\<lambda>(P, m, i). m_max_size m - i)") auto

declare map_scan.simps [simp del]

definition map_get :: "('k, 'v) map_t \<Rightarrow> int \<Rightarrow> 'k option \<Rightarrow> nat option" where
  "map_get m now key =
     (case key of
        None \<Rightarrow> None
      | Some k \<Rightarrow> map_scan (\<lambda>e. map_entry_valid m now e \<and> k = ent_key e) m 0)"

definition map_set :: "('k, 'v) map_t \<Rightarrow> int \<Rightarrow> 'k \<Rightarrow> 'v \<Rightarrow> ('k, 'v) map_t \<times> int" where
  "map_set m now key value =
     (case map_get m now (Some key) of
        Some i \<Rightarrow>
          (m\<lparr>m_data := (m_data m)(i := (m_data m i)
               \<lparr>ent_val := m_ctor m (ent_val (m_data m i)) value, ent_time := now\<rparr>)\<rparr>, 0)
      | None \<Rightarrow>
          if m_size m = m_max_size m then (m, -1)
          else (case map_scan (\<lambda>e. \<not> map_entry_valid m now e) m 0 of
                  Some i \<Rightarrow>
                    (m\<lparr>m_data := (m_data m)(i :=
                         \<lparr>ent_key = key,
                          ent_val = m_ctor m (ent_val (m_data m i)) value,
                          ent_time = now\<rparr>),
                       m_size := m_size m + 1\<rparr>, 0)
                | None \<Rightarrow> (m, -1)))"

definition map_delete :: "('k, 'v) map_t \<Rightarrow> int \<Rightarrow> 'k \<Rightarrow> ('k, 'v) map_t" where
  "map_delete m now key =
     (case map_get m now (Some key) of
        None \<Rightarrow> m
      | Some i \<Rightarrow> m\<lparr>m_data := (m_data m)(i := (m_data m i)\<lparr>ent_time := 0\<rparr>),
                    m_size := m_size m - 1\<rparr>)"

text \<open>
  The count is at least 1 whenever \<^verbatim>\<open>map_delete\<close> finds an entry (\<open>map_inv\<close> below), so its
  decrement never wraps. \<^verbatim>\<open>map_foreach\<close> hands every valid entry to the handler, which may change the entry and a
  state of its own.
\<close>

function map_foreach_from ::
  "(('k, 'v) entry \<Rightarrow> 's \<Rightarrow> ('k, 'v) entry \<times> 's) \<Rightarrow> int \<Rightarrow> nat \<Rightarrow> ('k, 'v) map_t \<Rightarrow> 's \<Rightarrow>
   ('k, 'v) map_t \<times> 's" where
  "map_foreach_from h now i m s =
     (if i < m_max_size m then
        (if map_entry_valid m now (m_data m i) then
           (case h (m_data m i) s of
              (e, s') \<Rightarrow> map_foreach_from h now (Suc i) (m\<lparr>m_data := (m_data m)(i := e)\<rparr>) s')
         else map_foreach_from h now (Suc i) m s)
      else (m, s))"
  by pat_completeness auto
termination
  by (relation "measure (\<lambda>(h, now, i, m, s). m_max_size m - i)") auto

declare map_foreach_from.simps [simp del]

definition map_foreach where
  "map_foreach m now h s = map_foreach_from h now 0 m s"

text \<open>A write through a value pointer that \<^verbatim>\<open>map_get\<close> returned: the value of one slot changes.\<close>

definition map_poke :: "('k, 'v) map_t \<Rightarrow> nat \<Rightarrow> 'v \<Rightarrow> ('k, 'v) map_t" where
  "map_poke m i v = m\<lparr>m_data := (m_data m)(i := (m_data m i)\<lparr>ent_val := v\<rparr>)\<rparr>"

definition map_val :: "('k, 'v) map_t \<Rightarrow> nat \<Rightarrow> 'v" where
  "map_val m i = ent_val (m_data m i)"

subsection \<open>The scan finds the first match\<close>

lemma map_scan_SomeD:
  "map_scan P m i = Some j \<Longrightarrow>
    i \<le> j \<and> j < m_max_size m \<and> P (m_data m j) \<and> (\<forall>k. i \<le> k \<and> k < j \<longrightarrow> \<not> P (m_data m k))"
proof (induction P m i rule: map_scan.induct)
  case (1 P m i)
  then show ?case
    by (cases "i < m_max_size m \<and> P (m_data m i)")
      (auto simp: map_scan.simps [of P m i] le_Suc_eq not_less_eq_eq
        split: if_splits dest: le_neq_implies_less)
qed

lemma map_scan_None_iff:
  "map_scan P m i = None \<longleftrightarrow> (\<forall>k. i \<le> k \<and> k < m_max_size m \<longrightarrow> \<not> P (m_data m k))"
proof (induction P m i rule: map_scan.induct)
  case (1 P m i)
  then show ?case
    by (auto simp: map_scan.simps [of P m i] dest: le_neq_implies_less)
qed

lemma map_scan_Some_iff:
  "map_scan P m 0 = Some j \<longleftrightarrow>
    j < m_max_size m \<and> P (m_data m j) \<and> (\<forall>k < j. \<not> P (m_data m k))"
proof
  assume "map_scan P m 0 = Some j"
  then show "j < m_max_size m \<and> P (m_data m j) \<and> (\<forall>k < j. \<not> P (m_data m k))"
    by (auto dest: map_scan_SomeD)
next
  assume R: "j < m_max_size m \<and> P (m_data m j) \<and> (\<forall>k < j. \<not> P (m_data m k))"
  then have "map_scan P m 0 \<noteq> None" by (auto simp: map_scan_None_iff)
  then obtain i where i: "map_scan P m 0 = Some i" by auto
  from map_scan_SomeD [OF this] R have "i = j"
    by (metis le0 linorder_less_linear)
  with i show "map_scan P m 0 = Some j" by simp
qed

subsection \<open>The abstract table and the invariant\<close>

definition map_live :: "('k, 'v) map_t \<Rightarrow> int \<Rightarrow> nat \<Rightarrow> bool" where
  "map_live m now i \<longleftrightarrow> i < m_max_size m \<and> map_entry_valid m now (m_data m i)"

definition map_lookup :: "int \<Rightarrow> ('k, 'v) map_t \<Rightarrow> 'k \<Rightarrow> 'v option" where
  "map_lookup now m k = map_option (\<lambda>i. ent_val (m_data m i)) (map_get m now (Some k))"

text \<open>Slots in use: those with a non-zero time, expired or not.\<close>

definition map_used :: "('k, 'v) map_t \<Rightarrow> nat set" where
  "map_used m = {i. i < m_max_size m \<and> ent_time (m_data m i) \<noteq> 0}"

definition map_inv :: "int \<Rightarrow> ('k, 'v) map_t \<Rightarrow> bool" where
  "map_inv now m \<longleftrightarrow>
     now \<noteq> 0 \<and> 0 \<le> m_timeout m \<and> m_ctor m = (\<lambda>_ v. v) \<and>
     (\<forall>i j. map_live m now i \<longrightarrow> map_live m now j \<longrightarrow>
        ent_key (m_data m i) = ent_key (m_data m j) \<longrightarrow> i = j) \<and>
     card (map_used m) \<le> m_size m \<and> m_size m \<le> m_max_size m"

lemma map_get_Some_iff:
  "map_get m now (Some k) = Some i \<longleftrightarrow>
     map_live m now i \<and> ent_key (m_data m i) = k \<and>
     (\<forall>j < i. \<not> (map_live m now j \<and> ent_key (m_data m j) = k))"
  by (auto simp: map_get_def map_scan_Some_iff map_live_def)

lemma map_get_None_iff:
  "map_get m now (Some k) = None \<longleftrightarrow> (\<forall>i. map_live m now i \<longrightarrow> ent_key (m_data m i) \<noteq> k)"
  by (auto simp: map_get_def map_scan_None_iff map_live_def)

lemma map_get_null [simp]: "map_get m now None = None"
  by (simp add: map_get_def)

lemma map_get_inv_iff:
  "map_inv now m \<Longrightarrow>
    map_get m now (Some k) = Some i \<longleftrightarrow> map_live m now i \<and> ent_key (m_data m i) = k"
  unfolding map_get_Some_iff map_inv_def by (metis less_irrefl)

lemma map_inv_later:
  assumes "map_inv now m" and "now \<le> now'" and "now' \<noteq> 0"
  shows "map_inv now' m"
proof -
  have "map_live m now i" if "map_live m now' i" for i
    using that assms(2) by (auto simp: map_live_def map_entry_valid_def)
  with assms(1,3) show ?thesis
    unfolding map_inv_def by blast
qed

lemma finite_map_used [simp]: "finite (map_used m)"
  by (simp add: map_used_def)

lemma map_live_used: "map_live m now i \<Longrightarrow> i \<in> map_used m"
  by (simp add: map_live_def map_used_def map_entry_valid_def)

lemma map_size_pos: "map_inv now m \<Longrightarrow> map_live m now i \<Longrightarrow> 0 < m_size m"
  unfolding map_inv_def
  by (metis card_gt_0_iff empty_iff finite_map_used map_live_used order_less_le_trans)

text \<open>A table whose count is below its capacity has a slot that is not in use.\<close>

lemma map_free_slot:
  assumes "map_inv now m" and "m_size m < m_max_size m"
  obtains i where "map_scan (\<lambda>e. \<not> map_entry_valid m now e) m 0 = Some i"
proof -
  have "card (map_used m) < card {..< m_max_size m}"
    using assms by (simp add: map_inv_def)
  then have "\<not> {..< m_max_size m} \<subseteq> map_used m"
    by (metis card_mono finite_map_used not_le)
  then obtain i where "i < m_max_size m" and "ent_time (m_data m i) = 0"
    by (auto simp: map_used_def)
  then have "map_scan (\<lambda>e. \<not> map_entry_valid m now e) m 0 \<noteq> None"
    by (auto simp: map_scan_None_iff map_entry_valid_def)
  with that show thesis by auto
qed

text \<open>The two ways \<open>map_set\<close> succeeds, and the result of \<open>map_delete\<close>, as slot updates.\<close>

lemma map_set_hit:
  assumes "map_inv now m" and "map_get m now (Some k) = Some i"
  shows "map_set m now k v = (m\<lparr>m_data := (m_data m)(i :=
      \<lparr>ent_key = k, ent_val = v, ent_time = now\<rparr>)\<rparr>, 0)"
proof -
  have "ent_key (m_data m i) = k" and "m_ctor m = (\<lambda>_ v. v)"
    using assms by (simp_all add: map_inv_def map_get_Some_iff)
  then show ?thesis
    using assms(2) by (cases "m_data m i") (simp add: map_set_def)
qed

lemma map_set_miss:
  "map_inv now m \<Longrightarrow> map_get m now (Some k) = None \<Longrightarrow> m_size m < m_max_size m \<Longrightarrow>
   map_scan (\<lambda>e. \<not> map_entry_valid m now e) m 0 = Some i \<Longrightarrow>
    map_set m now k v = (m\<lparr>m_data := (m_data m)(i :=
      \<lparr>ent_key = k, ent_val = v, ent_time = now\<rparr>), m_size := m_size m + 1\<rparr>, 0)"
  by (auto simp: map_set_def map_inv_def)

lemma map_set_full:
  "map_get m now (Some k) = None \<Longrightarrow> m_size m = m_max_size m \<Longrightarrow> map_set m now k v = (m, -1)"
  by (simp add: map_set_def)

lemma map_delete_hit:
  "map_get m now (Some k) = Some i \<Longrightarrow>
    map_delete m now k = m\<lparr>m_data := (m_data m)(i := (m_data m i)\<lparr>ent_time := 0\<rparr>),
      m_size := m_size m - 1\<rparr>"
  by (simp add: map_delete_def)

lemma map_set_cases [consumes 1, case_names hit miss full]:
  assumes "map_inv now m"
  obtains (hit) i where "map_live m now i" and "ent_key (m_data m i) = k"
      and "map_get m now (Some k) = Some i"
      and "map_set m now k v = (m\<lparr>m_data := (m_data m)(i :=
            \<lparr>ent_key = k, ent_val = v, ent_time = now\<rparr>)\<rparr>, 0)"
  | (miss) i where "map_get m now (Some k) = None" and "m_size m < m_max_size m"
      and "i < m_max_size m" and "\<not> map_live m now i"
      and "\<And>j. j < i \<Longrightarrow> map_live m now j"
      and "map_set m now k v = (m\<lparr>m_data := (m_data m)(i :=
            \<lparr>ent_key = k, ent_val = v, ent_time = now\<rparr>), m_size := m_size m + 1\<rparr>, 0)"
  | (full) "map_get m now (Some k) = None" and "m_size m = m_max_size m"
      and "map_set m now k v = (m, -1)"
proof (cases "map_get m now (Some k)")
  case (Some i)
  with assms show thesis
    by (intro hit [of i]) (auto simp: map_set_hit map_get_inv_iff)
next
  case None
  show thesis
  proof (cases "m_size m = m_max_size m")
    case True
    with None show thesis by (intro full) (auto simp: map_set_full)
  next
    case False
    with assms have less: "m_size m < m_max_size m" by (simp add: map_inv_def)
    obtain i where i: "map_scan (\<lambda>e. \<not> map_entry_valid m now e) m 0 = Some i"
      using map_free_slot [OF assms less] .
    with None less assms show thesis
      by (intro miss [of i]) (auto simp: map_set_miss map_live_def dest: map_scan_SomeD)
  qed
qed

text \<open>What an update of one slot does to the live slots and to the slots in use.\<close>

lemma map_live_upd:
  "map_live (m\<lparr>m_data := (m_data m)(i := e)\<rparr>) now j \<longleftrightarrow>
    (if j = i then i < m_max_size m \<and> map_entry_valid m now e else map_live m now j)"
  by (auto simp: map_live_def map_entry_valid_def)

lemma map_live_size [simp]: "map_live (m\<lparr>m_size := n\<rparr>) now j \<longleftrightarrow> map_live m now j"
  by (simp add: map_live_def map_entry_valid_def)

lemma map_used_upd:
  "map_used (m\<lparr>m_data := (m_data m)(i := e)\<rparr>) =
    (if i < m_max_size m \<and> ent_time e \<noteq> 0 then insert i (map_used m) else map_used m - {i})"
  by (auto simp: map_used_def)

lemma map_used_size [simp]: "map_used (m\<lparr>m_size := n\<rparr>) = map_used m"
  by (simp add: map_used_def)

lemma map_entry_valid_now:
  "map_inv now m \<Longrightarrow> map_entry_valid m now \<lparr>ent_key = k, ent_val = v, ent_time = now\<rparr>"
  by (simp add: map_entry_valid_def map_inv_def)

lemma map_inv_upd:
  assumes inv: "map_inv now m"
    and uniq: "\<And>j. map_entry_valid m now e \<Longrightarrow> map_live m now j \<Longrightarrow> j \<noteq> i \<Longrightarrow>
      ent_key (m_data m j) \<noteq> ent_key e"
    and size: "card (map_used (m\<lparr>m_data := (m_data m)(i := e)\<rparr>)) \<le> n" "n \<le> m_max_size m"
  shows "map_inv now (m\<lparr>m_data := (m_data m)(i := e), m_size := n\<rparr>)"
    (is "map_inv now ?m")
proof -
  have live: "map_live ?m now j \<longleftrightarrow>
      (if j = i then i < m_max_size m \<and> map_entry_valid m now e else map_live m now j)" for j
    by (auto simp: map_live_def map_entry_valid_def)
  have "j = j'" if "map_live ?m now j" "map_live ?m now j'"
    and "ent_key (m_data ?m j) = ent_key (m_data ?m j')" for j j'
  proof (cases "j = i \<or> j' = i")
    case True
    with that uniq [of j] uniq [of j'] show ?thesis
      by (auto simp: map_live_upd split: if_splits)
  next
    case False
    with that inv show ?thesis
      by (auto simp: map_live_upd map_inv_def)
  qed
  moreover have "map_used ?m = map_used (m\<lparr>m_data := (m_data m)(i := e)\<rparr>)"
    by (simp add: map_used_def)
  ultimately show ?thesis
    using inv size by (simp add: map_inv_def)
qed

lemma map_inv_set:
  assumes "map_inv now m"
  shows "map_inv now (fst (map_set m now k v))"
  using assms
proof (cases rule: map_set_cases [where k = k and v = v])
  case (hit i)
  let ?e = "\<lparr>ent_key = k, ent_val = v, ent_time = now\<rparr>"
  have "map_used (m\<lparr>m_data := (m_data m)(i := ?e)\<rparr>) \<subseteq> map_used m"
    using hit(1) by (auto simp: map_used_upd dest: map_live_used)
  then have "card (map_used (m\<lparr>m_data := (m_data m)(i := ?e)\<rparr>)) \<le> m_size m"
    using assms by (meson card_mono finite_map_used map_inv_def order_trans)
  then have "map_inv now (m\<lparr>m_data := (m_data m)(i := ?e), m_size := m_size m\<rparr>)"
    using assms hit(1,2) by (intro map_inv_upd) (auto simp: map_inv_def)
  moreover have "m\<lparr>m_data := (m_data m)(i := ?e), m_size := m_size m\<rparr>
      = m\<lparr>m_data := (m_data m)(i := ?e)\<rparr>"
    by simp
  ultimately show ?thesis using hit(4) by simp
next
  case (miss i)
  have "card (map_used (m\<lparr>m_data := (m_data m)
      (i := \<lparr>ent_key = k, ent_val = v, ent_time = now\<rparr>)\<rparr>)) \<le> m_size m + 1"
    using assms by (auto simp: map_used_upd card_insert_if map_inv_def
        intro: order_trans [OF card_Diff1_le])
  then have "map_inv now (m\<lparr>m_data := (m_data m)
      (i := \<lparr>ent_key = k, ent_val = v, ent_time = now\<rparr>), m_size := m_size m + 1\<rparr>)"
    using assms miss(1,2) by (intro map_inv_upd) (auto simp: map_get_None_iff)
  then show ?thesis using miss(6) by simp
next
  case full
  with assms show ?thesis by simp
qed

lemma map_inv_delete:
  assumes "map_inv now m"
  shows "map_inv now (map_delete m now k)"
proof (cases "map_get m now (Some k)")
  case None
  with assms show ?thesis by (simp add: map_delete_def)
next
  case (Some i)
  then have live: "map_live m now i" by (simp add: map_get_Some_iff)
  then have "i \<in> map_used m" by (rule map_live_used)
  then have "card (map_used m - {i}) = card (map_used m) - 1"
    by simp
  with assms live have "card (map_used m - {i}) \<le> m_size m - 1" and "m_size m - 1 \<le> m_max_size m"
    by (auto simp: map_inv_def)
  then show ?thesis
    using assms unfolding map_delete_hit [OF Some]
    by (intro map_inv_upd) (auto simp: map_used_upd map_entry_valid_def)
qed

lemma map_lookup_Some_iff:
  "map_inv now m \<Longrightarrow> map_lookup now m k = Some v \<longleftrightarrow>
    (\<exists>i. map_live m now i \<and> ent_key (m_data m i) = k \<and> ent_val (m_data m i) = v)"
  by (auto simp: map_lookup_def map_get_inv_iff)

lemma map_lookup_None_iff: "map_lookup now m k = None \<longleftrightarrow> map_get m now (Some k) = None"
  by (simp add: map_lookup_def)

lemma map_lookup_eqI:
  assumes "\<And>k v. map_lookup now m k = Some v \<longleftrightarrow> f k = Some v"
  shows "map_lookup now m = f"
proof
  fix k
  show "map_lookup now m k = f k"
    using assms [of k] by (cases "f k"; cases "map_lookup now m k") auto
qed

lemma map_lookup_upd:
  assumes inv: "map_inv now m"
    and inv': "map_inv now (m\<lparr>m_data := (m_data m)(i := e), m_size := n\<rparr>)" (is "map_inv now ?m")
    and e: "i < m_max_size m" "map_entry_valid m now e" "ent_key e = k" "ent_val e = v"
    and other: "\<And>j. map_live m now j \<Longrightarrow> j \<noteq> i \<Longrightarrow> ent_key (m_data m j) \<noteq> k"
    and old: "map_live m now i \<Longrightarrow> ent_key (m_data m i) = k"
  shows "map_lookup now ?m = (map_lookup now m)(k \<mapsto> v)"
proof (rule map_lookup_eqI)
  fix k' v'
  have live: "map_live ?m now j \<longleftrightarrow> (j = i \<or> map_live m now j)" for j
    using e(1,2) by (simp add: map_live_upd)
  show "map_lookup now ?m k' = Some v' \<longleftrightarrow> ((map_lookup now m)(k \<mapsto> v)) k' = Some v'"
  proof (cases "k' = k")
    case True
    have "map_lookup now ?m k = Some v'  \<longleftrightarrow> v' = v"
      unfolding map_lookup_Some_iff [OF inv'] live using other e(3,4) by auto
    with True show ?thesis by auto
  next
    case False
    have "(j = i \<or> map_live m now j) \<and> ent_key (m_data ?m j) = k' \<and> ent_val (m_data ?m j) = v' \<longleftrightarrow>
        map_live m now j \<and> ent_key (m_data m j) = k' \<and> ent_val (m_data m j) = v'" for j
      using False old e(3) by (cases "j = i") auto
    then have "map_lookup now ?m k' = Some v' \<longleftrightarrow>
        (\<exists>j. map_live m now j \<and> ent_key (m_data m j) = k' \<and> ent_val (m_data m j) = v')"
      unfolding map_lookup_Some_iff [OF inv'] live by (simp only:)
    with False show ?thesis
      by (simp add: map_lookup_Some_iff [OF inv])
  qed
qed

lemma map_lookup_set:
  assumes inv: "map_inv now m" and ok: "snd (map_set m now k v) = 0"
  shows "map_lookup now (fst (map_set m now k v)) = (map_lookup now m)(k \<mapsto> v)"
  using inv
proof (cases rule: map_set_cases [where k = k and v = v])
  case (hit i)
  let ?e = "\<lparr>ent_key = k, ent_val = v, ent_time = now\<rparr>"
  have eq: "fst (map_set m now k v) = m\<lparr>m_data := (m_data m)(i := ?e), m_size := m_size m\<rparr>"
    using hit(4) by simp
  have other: "ent_key (m_data m j) \<noteq> k" if "map_live m now j" "j \<noteq> i" for j
    using that hit(1,2) inv unfolding map_inv_def by metis
  show ?thesis
    unfolding eq
  proof (rule map_lookup_upd [OF inv])
    show "map_inv now (m\<lparr>m_data := (m_data m)(i := ?e), m_size := m_size m\<rparr>)"
      using map_inv_set [OF inv, of k v] by (simp only: eq)
    show "i < m_max_size m" using hit(1) by (simp add: map_live_def)
  qed (use hit(2) other map_entry_valid_now [OF inv, of k v] in simp_all)
next
  case (miss i)
  let ?e = "\<lparr>ent_key = k, ent_val = v, ent_time = now\<rparr>"
  have eq: "fst (map_set m now k v) = m\<lparr>m_data := (m_data m)(i := ?e), m_size := m_size m + 1\<rparr>"
    using miss(6) by simp
  show ?thesis
    unfolding eq
  proof (rule map_lookup_upd [OF inv])
    show "map_inv now (m\<lparr>m_data := (m_data m)(i := ?e), m_size := m_size m + 1\<rparr>)"
      using map_inv_set [OF inv, of k v] by (simp only: eq)
  qed (use miss(1,3,4) map_entry_valid_now [OF inv, of k v] in \<open>simp_all add: map_get_None_iff\<close>)
next
  case full
  with ok show ?thesis by simp
qed

lemma map_lookup_delete:
  assumes inv: "map_inv now m"
  shows "map_lookup now (map_delete m now k) = (map_lookup now m)(k := None)"
proof (cases "map_get m now (Some k)")
  case None
  then have "map_lookup now m k = None" by (simp add: map_lookup_def)
  with None show ?thesis by (auto simp: map_delete_def)
next
  case (Some i)
  let ?m = "m\<lparr>m_data := (m_data m)(i := (m_data m i)\<lparr>ent_time := 0\<rparr>), m_size := m_size m - 1\<rparr>"
  have inv': "map_inv now ?m"
    using map_inv_delete [OF inv, of k] by (simp only: map_delete_hit [OF Some])
  have i: "map_live m now i" "ent_key (m_data m i) = k"
    using Some by (simp_all add: map_get_Some_iff)
  then have uniq: "map_live m now j \<Longrightarrow> ent_key (m_data m j) = k \<Longrightarrow> j = i" for j
    using inv by (auto simp: map_inv_def)
  have live: "map_live ?m now j \<longleftrightarrow> j \<noteq> i \<and> map_live m now j" for j
    by (simp add: map_live_upd map_entry_valid_def)
  show ?thesis
    unfolding map_delete_hit [OF Some]
  proof (rule map_lookup_eqI)
    fix k' v'
    have "map_lookup now ?m k' = Some v' \<longleftrightarrow>
        (\<exists>j. j \<noteq> i \<and> map_live m now j \<and> ent_key (m_data m j) = k' \<and> ent_val (m_data m j) = v')"
      unfolding map_lookup_Some_iff [OF inv'] live by fastforce
    then show "map_lookup now ?m k' = Some v' \<longleftrightarrow> ((map_lookup now m)(k := None)) k' = Some v'"
      using i(2) uniq by (cases "k' = k") (auto simp: map_lookup_Some_iff [OF inv])
  qed
qed

lemma map_size_set:
  assumes "map_inv now m" and "snd (map_set m now k v) = 0"
  shows "m_size (fst (map_set m now k v)) =
    (if map_lookup now m k = None then Suc (m_size m) else m_size m)"
  using assms(1)
proof (cases rule: map_set_cases [where k = k and v = v])
  case (hit i)
  then show ?thesis by (simp add: map_lookup_None_iff)
next
  case (miss i)
  then show ?thesis by (simp add: map_lookup_None_iff)
next
  case full
  with assms(2) show ?thesis by simp
qed

lemma map_max_size_set [simp]: "m_max_size (fst (map_set m now k v)) = m_max_size m"
  by (simp add: map_set_def split: option.splits)

lemma map_timeout_set [simp]: "m_timeout (fst (map_set m now k v)) = m_timeout m"
  by (simp add: map_set_def split: option.splits)

lemma map_max_size_delete [simp]: "m_max_size (map_delete m now k) = m_max_size m"
  by (simp add: map_delete_def split: option.splits)

lemma map_size_delete:
  "map_inv now m \<Longrightarrow>
    m_size (map_delete m now k) = (if map_lookup now m k = None then m_size m else m_size m - 1)"
  by (simp add: map_delete_def map_lookup_def split: option.splits)

lemma map_set_status:
  assumes "map_inv now m"
  shows "snd (map_set m now k v) =
    (if map_lookup now m k = None \<and> m_size m = m_max_size m then -1 else 0)"
  using assms
  by (cases rule: map_set_cases [where k = k and v = v])
    (simp_all add: map_lookup_None_iff)

lemma map_set_fail: "snd (map_set m now k v) = -1 \<Longrightarrow> fst (map_set m now k v) = m"
  by (auto simp: map_set_def split: option.splits if_splits)

lemma map_init_simps [simp]:
  "m_size (map_init z kl vl mx to c) = 0"
  "m_timeout (map_init z kl vl mx to c) = to"
  "m_ctor (map_init z kl vl mx to None) = (\<lambda>_ v. v)"
  "m_data (map_init z kl vl mx to c) = (\<lambda>_. z\<lparr>ent_time := 0\<rparr>)"
  by (simp_all add: map_init_def Let_def)

lemma map_live_init [simp]: "\<not> map_live (map_init z kl vl mx to c) now i"
  by (simp add: map_live_def map_entry_valid_def)

lemma map_inv_init: "now \<noteq> 0 \<Longrightarrow> 0 \<le> to \<Longrightarrow> map_inv now (map_init z kl vl mx to None)"
  by (simp add: map_inv_def map_used_def)

lemma map_lookup_init [simp]: "map_lookup now (map_init z kl vl mx to c) = Map.empty"
  by (rule ext) (simp add: map_lookup_None_iff map_get_None_iff)

subsection \<open>Writing through value pointers\<close>

lemma map_poke_fields [simp]:
  "m_max_size (map_poke m i v) = m_max_size m" "m_size (map_poke m i v) = m_size m"
  "m_timeout (map_poke m i v) = m_timeout m" "m_ctor (map_poke m i v) = m_ctor m"
  "ent_key (m_data (map_poke m i v) j) = ent_key (m_data m j)"
  "ent_time (m_data (map_poke m i v) j) = ent_time (m_data m j)"
  "map_val (map_poke m i v) j = (if j = i then v else map_val m j)"
  by (simp_all add: map_poke_def map_val_def)

lemma map_entry_valid_poke [simp]:
  "map_entry_valid (map_poke m i v) now (m_data (map_poke m i v) j) =
    map_entry_valid m now (m_data m j)"
  by (simp add: map_entry_valid_def)

lemma map_live_poke [simp]: "map_live (map_poke m i v) now j = map_live m now j"
  by (simp add: map_live_def)

lemma map_get_poke [simp]: "map_get (map_poke m i v) now k = map_get m now k"
proof (cases k)
  case (Some k')
  have "map_get (map_poke m i v) now (Some k') = Some j \<longleftrightarrow> map_get m now (Some k') = Some j" for j
    by (simp add: map_get_Some_iff)
  then show ?thesis unfolding Some by (metis option.exhaust)
qed simp

lemma map_inv_poke [simp]: "map_inv now (map_poke m i v) = map_inv now m"
  by (simp add: map_inv_def map_used_def)

lemma map_val_live: "map_get m now (Some k) = Some i \<Longrightarrow> map_lookup now m k = Some (map_val m i)"
  by (simp add: map_lookup_def map_val_def)

lemma map_get_live: "map_get m now (Some k) = Some i \<Longrightarrow> map_live m now i"
  by (simp add: map_get_Some_iff)

lemma map_poke_poke [simp]: "map_poke (map_poke m i v) i w = map_poke m i w"
  by (simp add: map_poke_def)

lemma map_live_delete:
  assumes "map_inv now m" and "map_get m now (Some k) = Some i"
  shows "map_live (map_delete m now k) now j \<longleftrightarrow> j \<noteq> i \<and> map_live m now j"
    and "map_val (map_delete m now k) j = map_val m j"
  by (auto simp: map_delete_hit [OF assms(2)] map_live_upd map_entry_valid_def map_val_def)

subsection \<open>The interface: a finite table with a capacity\<close>

text \<open>
  What the protocol layers rely on. \<open>set\<close> returns a status; \<open>full\<close> says that a new key will be
  refused. \<open>counted_table\<close> adds the count and the capacity.
\<close>

locale kv_table =
  fixes inv :: "'m \<Rightarrow> bool"
    and lookup :: "'m \<Rightarrow> 'k \<Rightarrow> 'v option"
    and set :: "'m \<Rightarrow> 'k \<Rightarrow> 'v \<Rightarrow> 'm \<times> int"
    and delete :: "'m \<Rightarrow> 'k \<Rightarrow> 'm"
    and full :: "'m \<Rightarrow> bool"
  assumes inv_set: "inv m \<Longrightarrow> inv (fst (set m k v))"
    and inv_delete: "inv m \<Longrightarrow> inv (delete m k)"
    and set_status: "inv m \<Longrightarrow> snd (set m k v) = (if lookup m k = None \<and> full m then -1 else 0)"
    and lookup_set: "inv m \<Longrightarrow> snd (set m k v) = 0 \<Longrightarrow>
          lookup (fst (set m k v)) = (lookup m)(k \<mapsto> v)"
    and set_fail: "snd (set m k v) = -1 \<Longrightarrow> fst (set m k v) = m"
    and lookup_delete: "inv m \<Longrightarrow> lookup (delete m k) = (lookup m)(k := None)"
begin

lemma set_cases:
  assumes "inv m"
  obtains (stored) "snd (set m k v) = 0" and "lookup (fst (set m k v)) = (lookup m)(k \<mapsto> v)"
  | (refused) "snd (set m k v) = -1" and "fst (set m k v) = m" and "lookup m k = None" and "full m"
  using set_status [OF assms, of k v] lookup_set [OF assms, of k v] set_fail [of m k v]
  by (auto split: if_splits)

lemma update_present: "inv m \<Longrightarrow> lookup m k \<noteq> None \<Longrightarrow> snd (set m k v) = 0"
  by (simp add: set_status)

lemma overwrite:
  assumes "inv m" and "snd (set m k v) = 0"
  shows "snd (set (fst (set m k v)) k w) = 0 \<and>
    lookup (fst (set (fst (set m k v)) k w)) = (lookup m)(k \<mapsto> w)"
proof -
  let ?n = "fst (set m k v)"
  have n: "inv ?n" "lookup ?n = (lookup m)(k \<mapsto> v)"
    using assms by (simp_all add: inv_set lookup_set)
  then have "snd (set ?n k w) = 0" by (intro update_present) simp_all
  with n show ?thesis by (simp add: lookup_set)
qed

lemma set_delete:
  assumes "inv m" and "snd (set m k v) = 0"
  shows "lookup (delete (fst (set m k v)) k) = (lookup m)(k := None)"
  using assms by (simp add: lookup_delete inv_set lookup_set)

lemma set_other:
  "inv m \<Longrightarrow> k' \<noteq> k \<Longrightarrow> lookup (fst (set m k v)) k' = lookup m k'"
  by (cases rule: set_cases [of m k v]) simp_all

end

locale counted_table = kv_table +
  fixes count :: "'a \<Rightarrow> nat" and capacity :: "'a \<Rightarrow> nat"
  assumes full_iff: "inv m \<Longrightarrow> full m \<longleftrightarrow> capacity m \<le> count m"
    and count_set: "inv m \<Longrightarrow> snd (set m k v) = 0 \<Longrightarrow>
          count (fst (set m k v)) = (if lookup m k = None then Suc (count m) else count m)"
    and capacity_set: "capacity (fst (set m k v)) = capacity m"
begin

text \<open>Storing a list of new keys, all of which fit: every store succeeds and all are found.\<close>

lemma store_all:
  "inv m \<Longrightarrow> distinct (map fst kvs) \<Longrightarrow> (\<forall>k \<in> fst ` List.set kvs. lookup m k = None) \<Longrightarrow>
   count m + length kvs \<le> capacity m \<Longrightarrow>
   inv (fold (\<lambda>(k, v) m. fst (set m k v)) kvs m) \<and>
   lookup (fold (\<lambda>(k, v) m. fst (set m k v)) kvs m) = lookup m ++ map_of kvs"
proof (induction kvs arbitrary: m)
  case (Cons kv kvs)
  obtain k v where kv: "kv = (k, v)" by (cases kv)
  let ?n = "fst (set m k v)"
  have ok: "snd (set m k v) = 0"
    using Cons.prems by (simp add: set_status full_iff)
  have n: "inv ?n" "lookup ?n = (lookup m)(k \<mapsto> v)" "count ?n = Suc (count m)"
    using Cons.prems ok by (simp_all add: kv inv_set lookup_set count_set)
  have "\<forall>k' \<in> fst ` List.set kvs. lookup ?n k' = None"
    using Cons.prems by (auto simp: kv n)
  then have "inv (fold (\<lambda>(k, v) m. fst (set m k v)) kvs ?n) \<and>
      lookup (fold (\<lambda>(k, v) m. fst (set m k v)) kvs ?n) = lookup ?n ++ map_of kvs"
    using Cons.prems by (intro Cons.IH) (simp_all add: n capacity_set)
  moreover have "k \<notin> dom (map_of kvs)"
    using Cons.prems(2) by (simp add: kv dom_map_of_conv_image_fst)
  ultimately show ?case
    by (auto simp: kv n map_add_def fun_eq_iff split: option.splits)
qed simp

end

lemma map_full_iff: "map_inv now m \<Longrightarrow> m_size m = m_max_size m \<longleftrightarrow> m_max_size m \<le> m_size m"
  by (auto simp: map_inv_def)

interpretation nm: counted_table "map_inv now" "map_lookup now" "\<lambda>m. map_set m now"
    "\<lambda>m. map_delete m now" "\<lambda>m. m_size m = m_max_size m" m_size m_max_size
  for now :: int
  by unfold_locales
    (simp_all add: map_inv_set map_inv_delete map_set_status map_lookup_set map_set_fail
      map_lookup_delete map_size_set map_full_iff)

subsection \<open>Properties of the table\<close>

text \<open>C26. The slot array is a finite map. On a table that satisfies the invariant, a store that
  returns 0 changes the lookup of exactly its key, a store that returns -1 changes nothing and
  happens exactly when the key is new and the count has reached the capacity, deleting removes
  exactly its key, and all three keep the invariant.\<close>

theorem map_refines_finite_map:
  assumes "map_inv now m"
  shows "map_inv now (fst (map_set m now k v)) \<and> map_inv now (map_delete m now k) \<and>
    map_lookup now (map_delete m now k) = (map_lookup now m)(k := None) \<and>
    (if map_lookup now m k = None \<and> m_size m = m_max_size m
     then map_set m now k v = (m, -1)
     else snd (map_set m now k v) = 0 \<and>
          map_lookup now (fst (map_set m now k v)) = (map_lookup now m)(k \<mapsto> v))"
proof -
  note laws = nm.inv_set [OF assms] nm.inv_delete [OF assms] nm.lookup_delete [OF assms]
    nm.set_status [OF assms, of k v]
  show ?thesis
    using nm.lookup_set [OF assms, of k v] nm.set_fail [of m now k v]
    by (simp add: laws prod_eq_iff)
qed

theorem map_refines_finite_map_witness:
  "map_lookup 5 (fst (map_set (map_init \<lparr>ent_key = 0, ent_val = 0, ent_time = 0\<rparr> 2 8 2 0 None)
      5 (17 :: nat) (3 :: nat))) 17 = Some 3"
proof -
  let ?m = "map_init \<lparr>ent_key = 0 :: nat, ent_val = 0 :: nat, ent_time = 0\<rparr> 2 8 2 0 None"
  have "map_inv 5 ?m" by (rule map_inv_init) simp_all
  moreover have "m_max_size ?m = 2" by (simp add: map_init_def MAP_MAX_LEN_def)
  ultimately show ?thesis
    using map_refines_finite_map [of 5 ?m 17 3] by simp
qed

text \<open>The slots lie inside the table's byte array and do not overlap: whenever the size
  product of \<open>map_init\<close> does not wrap, the entry at any position below the chosen capacity
  ends within \<open>MAP_MAX_LEN\<close>, and positions in order have disjoint byte ranges; a position at or
  above the capacity has no entry.\<close>

lemma map_layout:
  assumes "mx * (kl + vl + 8) < 2 ^ 64" and m_def: "m = map_init z kl vl mx to c"
  shows "map_entry_get m pos = (if pos < m_max_size m then Some (pos * (kl + vl + 8)) else None) \<and>
    (\<forall>off. map_entry_get m pos = Some off \<longrightarrow> off + (kl + vl + 8) \<le> MAP_MAX_LEN) \<and>
    (\<forall>p q offp offq. p < q \<longrightarrow> map_entry_get m p = Some offp \<longrightarrow> map_entry_get m q = Some offq \<longrightarrow>
       offp + (kl + vl + 8) \<le> offq)"
proof -
  let ?s = "kl + vl + 8"
  have fields: "m_key_len m = kl" "m_value_len m = vl"
    by (simp_all add: m_def map_init_def Let_def)
  have "m_max_size m * ?s \<le> MAP_MAX_LEN"
    using assms(1) by (auto simp: m_def map_init_def Let_def not_less)
  moreover have "pos * ?s + ?s \<le> m_max_size m * ?s" if "pos < m_max_size m"
    using mult_le_mono1 [of "Suc pos" "m_max_size m" ?s] that by (simp add: add.commute)
  moreover have "p * ?s + ?s \<le> q * ?s" if "p < q" for p q
    using mult_le_mono1 [of "Suc p" q ?s] that by (simp add: add.commute)
  ultimately show ?thesis
    by (auto simp: map_entry_get_def fields split: if_splits intro: order_trans)
qed

lemma map_layout_example:
  "map_entry_get (map_init \<lparr>ent_key = (), ent_val = (), ent_time = 0\<rparr> 4 6 0 300 None) 116732
     = Some 2101176"
  using map_layout [of 0 4 6 _ "\<lparr>ent_key = (), ent_val = (), ent_time = 0\<rparr>" 300 None 116732,
      OF _ refl]
  by (simp add: map_init_def Let_def MAP_MAX_LEN_def)

definition map_exact :: "('k, 'v) map_t \<Rightarrow> bool" where
  "map_exact m \<longleftrightarrow> m_timeout m = 0 \<and> m_size m = card (map_used m)"

text \<open>A table whose entries never expire counts exactly: starting from a state where the
  count equals the number of slots in use, stores and deletes keep it so, and a new key is
  refused only if the table really holds as many keys as it has slots.\<close>

lemma map_exact_without_timeout:
  assumes "map_inv now m" and "map_exact m"
  shows "map_exact (fst (map_set m now k v)) \<and> map_exact (map_delete m now k) \<and>
    m_size m = card (dom (map_lookup now m)) \<and>
    (snd (map_set m now k v) = -1 \<longrightarrow>
       k \<notin> dom (map_lookup now m) \<and> card (dom (map_lookup now m)) = m_max_size m)"
proof -
  have to: "m_timeout m = 0" and size: "m_size m = card (map_used m)"
    using assms(2) by (simp_all add: map_exact_def)
  have live: "map_live m now i \<longleftrightarrow> i \<in> map_used m" for i
    using to by (auto simp: map_live_def map_used_def map_entry_valid_def)
  have now: "now \<noteq> 0" using assms(1) by (simp add: map_inv_def)
  have "map_exact (fst (map_set m now k v))"
    using assms(1)
  proof (cases rule: map_set_cases [where k = k and v = v])
    case (hit i)
    then have "i \<in> map_used m" by (simp only: live)
    then have "insert i (map_used m) = map_used m" and "i < m_max_size m"
      by (auto simp: map_used_def)
    with hit to size now show ?thesis
      by (simp add: map_exact_def map_used_upd)
  next
    case (miss i)
    with to size now show ?thesis
      by (simp add: map_exact_def map_used_upd live)
  next
    case full
    with assms(2) show ?thesis by simp
  qed
  moreover have "map_exact (map_delete m now k)"
  proof (cases "map_get m now (Some k)")
    case None
    with assms(2) show ?thesis by (simp add: map_delete_def)
  next
    case (Some i)
    then have "i \<in> map_used m" by (simp add: map_get_Some_iff live)
    then show ?thesis
      using to size by (simp add: map_delete_hit [OF Some] map_exact_def map_used_upd)
  qed
  moreover have dom: "card (dom (map_lookup now m)) = m_size m"
  proof -
    have "dom (map_lookup now m) = (\<lambda>i. ent_key (m_data m i)) ` map_used m"
      using assms(1) by (auto simp: dom_def map_lookup_Some_iff live)
    moreover have "inj_on (\<lambda>i. ent_key (m_data m i)) (map_used m)"
      using assms(1) by (auto simp: inj_on_def map_inv_def live)
    ultimately show ?thesis by (simp add: card_image size)
  qed
  ultimately show ?thesis
    by (auto simp: map_set_status [OF assms(1)] split: if_splits)
qed

lemma map_exact_without_timeout_example:
  "m_size (map_init \<lparr>ent_key = (), ent_val = (), ent_time = 0\<rparr> 2 8 0 0 None) =
   card (dom (map_lookup 1 (map_init \<lparr>ent_key = (), ent_val = (), ent_time = 0\<rparr> 2 8 0 0 None)))"
  using map_exact_without_timeout [OF map_inv_init [of 1 0], of "\<lparr>ent_key = (), ent_val = (), ent_time = 0\<rparr>" 2 8 0]
  by (simp add: map_exact_def map_used_def)

text \<open>C37. Expiry is not counted. When entries can expire, the count of a table that was filled
  stays at the capacity after every entry has expired, and from then on \<open>map_set\<close> refuses every
  key for ever: the lookup is empty, yet no key can be stored.\<close>

theorem map_expired_table_refuses:
  assumes "m_timeout m > 0" and "m_size m = m_max_size m"
    and "\<forall>i < m_max_size m. ent_time (m_data m i) + m_timeout m < now"
  shows "map_lookup now m = Map.empty \<and> map_set m now k v = (m, -1)"
proof -
  have "\<not> map_live m now i" for i
    using assms(1,3) by (auto simp: map_live_def map_entry_valid_def)
  then have "map_get m now (Some k) = None" for k
    by (simp add: map_get_None_iff)
  then show ?thesis
    using assms(2) by (auto simp: map_lookup_None_iff map_set_full)
qed

definition two_slots :: "(nat, nat) map_t" where
  "two_slots = fst (map_set (fst (map_set
     (map_init \<lparr>ent_key = 0, ent_val = 0, ent_time = 0\<rparr> 4 6 2 300 None) 1 10 1)) 1 11 2)"

lemma two_slots_eq: "m_timeout two_slots = 300" "m_max_size two_slots = 2" "m_size two_slots = 2"
    "\<forall>i < 2. ent_time (m_data two_slots i) = 1"
  by (simp_all add: two_slots_def map_set_def map_get_def map_scan.simps map_entry_valid_def
      map_init_def MAP_MAX_LEN_def less_2_cases_iff)

theorem map_expired_table_refuses_witness:
  "map_lookup 400 two_slots = Map.empty \<and> map_set two_slots 400 12 3 = (two_slots, -1)"
  by (rule map_expired_table_refuses) (simp_all add: two_slots_eq)

end
