(* ===== verification/State.thy ===== *)
theory State
  imports Queue NetMap
begin

text \<open>
  The state of the program: one record with the global variables of all its files, the heap, and
  what the program exchanges with its environment (frames handed to and taken from libpcap, the
  clock, the random number generator). Buffers are passed by reference, as in the code, so that
  two layers working on \<^verbatim>\<open>txbuf\<close> see each other's writes. Addresses (MAC, IP) are passed by value:
  no function writes to the bytes such a pointer designates between receiving and last using it.
\<close>

subsection \<open>Types of the protocol layers\<close>

datatype net_handler = H_arp_in | H_ip_in | H_icmp_in | H_udp_in | H_tcp_in

datatype udp_handler_t = H_udp_handler

datatype tcp_handler_t = H_tcp_handler | H_http_handler

datatype tcp_state =
    TCP_LISTEN | TCP_SYN_SEND | TCP_SYN_RCVD | TCP_ESTABLISHED | TCP_CLOSE_WAIT
  | TCP_LAST_ACK | TCP_FIN_WAIT_1 | TCP_FIN_WAIT_2 | TCP_CLOSING | TCP_TIME_WAIT

datatype connect_state = TCP_CONN_CONNECTED | TCP_CONN_DATA_RECV | TCP_CONN_CLOSED

record tcp_key =
  key_ip :: ip_addr
  key_src_port :: u16
  key_dst_port :: u16

text \<open>
  A handler pointer stored in a connection is a pointer into the handler table, that is, a slot
  of \<open>tcp_table\<close>; the receive and transmit buffers are heap addresses.
\<close>

record tcp_connect =
  c_state :: tcp_state
  c_local_port :: u16
  c_remote_port :: u16
  c_ip :: ip_addr
  c_unack_seq :: u32
  c_next_seq :: u32
  c_ack :: u32
  c_remote_mss :: u16
  c_remote_win :: u16
  c_handler :: "nat option"
  c_rx_buf :: "nat option"
  c_tx_buf :: "nat option"

text \<open>The ring of accepted connections; an element is a connection pointer, a slot of \<open>connect_table\<close>.\<close>

record http_fifo =
  f_buffer :: "nat \<Rightarrow> nat"
  f_front :: u8
  f_tail :: u8
  f_count :: u8

text \<open>
  What \<^verbatim>\<open>pcap_next_ex\<close> answers: nothing, a packet with its captured bytes and its length on the
  wire, or an error.
\<close>

datatype pcap_event = Pcap_none | Pcap_packet "u8 list" nat | Pcap_error

text \<open>
  \<open>clock\<close> is what \<^verbatim>\<open>time(NULL)\<close> returns; it changes only between operations. \<open>rand_seq\<close> is the
  sequence of values \<^verbatim>\<open>rand()\<close> is going to return. \<open>pcap_input\<close> is what \<^verbatim>\<open>pcap_next_ex\<close> is going to
  answer (nothing when exhausted), \<open>pcap_sendpacket\<close> the status libpcap gives for a frame, and \<open>sent\<close>
  the frames handed to it so far.
\<close>

record net =
  rxbuf :: buf_t
  txbuf :: buf_t
  mheap :: heap
  net_table :: "(u16, net_handler) map_t"
  arp_table :: "(ip_addr, mac_addr) map_t"
  arp_buf :: "(ip_addr, queue_t) map_t"
  ip_id :: u16
  udp_table :: "(u16, udp_handler_t) map_t"
  tcp_table :: "(u16, tcp_handler_t) map_t"
  connect_table :: "(tcp_key, tcp_connect) map_t"
  http_fifo_v :: http_fifo
  clock :: int
  delete_port :: u16
  rand_seq :: "nat \<Rightarrow> u32"
  pcap_input :: "pcap_event list"
  pcap_sendpacket :: "u8 list \<Rightarrow> int"
  sent :: "u8 list list"

subsection \<open>Configuration\<close>

text \<open>The addresses of the build without \<^verbatim>\<open>TEST\<close> (\<^verbatim>\<open>include/config.h\<close>).\<close>

definition NET_IF_IP :: ip_addr where
  "NET_IF_IP = (192, 168, 230, 2)"

definition NET_IF_MAC :: mac_addr where
  "NET_IF_MAC = (0x44, 0xe5, 0x17, 0xf9, 0xf1, 0xe6)"

definition net_if_ip :: ip_addr where
  "net_if_ip = NET_IF_IP"

definition net_if_mac :: mac_addr where
  "net_if_mac = NET_IF_MAC"

definition net_broadcast_mac :: mac_addr where
  "net_broadcast_mac = (0xff, 0xff, 0xff, 0xff, 0xff, 0xff)"

definition ETHERNET_MAX_TRANSPORT_UNIT :: nat where
  "ETHERNET_MAX_TRANSPORT_UNIT = 1500"

definition ARP_TIMEOUT_SEC :: int where
  "ARP_TIMEOUT_SEC = 60 * 5"

definition NET_PROTOCOL_ARP :: u16 where "NET_PROTOCOL_ARP = 0x0806"
definition NET_PROTOCOL_IP :: u16 where "NET_PROTOCOL_IP = 0x0800"
definition NET_PROTOCOL_ICMP :: u16 where "NET_PROTOCOL_ICMP = 1"
definition NET_PROTOCOL_UDP :: u16 where "NET_PROTOCOL_UDP = 17"
definition NET_PROTOCOL_TCP :: u16 where "NET_PROTOCOL_TCP = 6"

lemmas protocol_defs = NET_PROTOCOL_ARP_def NET_PROTOCOL_IP_def NET_PROTOCOL_ICMP_def
  NET_PROTOCOL_UDP_def NET_PROTOCOL_TCP_def

subsection \<open>Buffers by reference\<close>

datatype bufref = Rxbuf | Txbuf | Heapbuf nat

definition get_buf :: "net \<Rightarrow> bufref \<Rightarrow> buf_t res" where
  "get_buf s r = (case r of
     Rxbuf \<Rightarrow> Inr (rxbuf s)
   | Txbuf \<Rightarrow> Inr (txbuf s)
   | Heapbuf a \<Rightarrow> deref (h_bufs (mheap s) a) UseAfterFree)"

definition put_buf :: "net \<Rightarrow> bufref \<Rightarrow> buf_t \<Rightarrow> net" where
  "put_buf s r b = (case r of
     Rxbuf \<Rightarrow> s\<lparr>rxbuf := b\<rparr>
   | Txbuf \<Rightarrow> s\<lparr>txbuf := b\<rparr>
   | Heapbuf a \<Rightarrow> s\<lparr>mheap := (mheap s)\<lparr>h_bufs := (h_bufs (mheap s))(a \<mapsto> b)\<rparr>\<rparr>)"

text \<open>\<open>buf_op f s r\<close>: call the buffer operation \<open>f\<close> on \<open>*r\<close>; \<open>buf_do\<close> ignores its status.\<close>

definition buf_op :: "(buf_t \<Rightarrow> buf_t \<times> int) \<Rightarrow> net \<Rightarrow> bufref \<Rightarrow> (net \<times> int) res" where
  "buf_op f s r = ebind (get_buf s r) (\<lambda>b. case f b of (b', st) \<Rightarrow> Inr (put_buf s r b', st))"

definition buf_do :: "(buf_t \<Rightarrow> buf_t \<times> int) \<Rightarrow> net \<Rightarrow> bufref \<Rightarrow> net res" where
  "buf_do f s r = ebind (buf_op f s r) (\<lambda>(s', st). Inr s')"

definition mem_read :: "net \<Rightarrow> bufref \<Rightarrow> nat \<Rightarrow> nat \<Rightarrow> u8 list res" where
  "mem_read s r off n = ebind (get_buf s r) (\<lambda>b. buf_read b off n)"

definition mem_write :: "net \<Rightarrow> bufref \<Rightarrow> nat \<Rightarrow> u8 list \<Rightarrow> net res" where
  "mem_write s r off bs =
     ebind (get_buf s r) (\<lambda>b. ebind (buf_write b off bs) (\<lambda>b'. Inr (put_buf s r b')))"

lemma get_put_same [simp]: "get_buf (put_buf s r b) r = Inr b"
  by (cases r) (simp_all add: get_buf_def put_buf_def)

lemma get_put_other [simp]: "r' \<noteq> r \<Longrightarrow> get_buf (put_buf s r b) r' = get_buf s r'"
  by (cases r; cases r') (simp_all add: get_buf_def put_buf_def)

lemma put_put_same [simp]: "put_buf (put_buf s r b) r c = put_buf s r c"
  by (cases r) (simp_all add: put_buf_def)

lemma put_get_id: "get_buf s r = Inr b \<Longrightarrow> put_buf s r b = s"
  by (cases r) (auto simp: get_buf_def put_buf_def deref_def fun_upd_idem split: option.splits)

lemma put_buf_frame [frame_simps, simp]:
  "net_table (put_buf s r b) = net_table s"
  "arp_table (put_buf s r b) = arp_table s"
  "arp_buf (put_buf s r b) = arp_buf s"
  "ip_id (put_buf s r b) = ip_id s"
  "udp_table (put_buf s r b) = udp_table s"
  "tcp_table (put_buf s r b) = tcp_table s"
  "connect_table (put_buf s r b) = connect_table s"
  "http_fifo_v (put_buf s r b) = http_fifo_v s"
  "clock (put_buf s r b) = clock s"
  "delete_port (put_buf s r b) = delete_port s"
  "rand_seq (put_buf s r b) = rand_seq s"
  "pcap_input (put_buf s r b) = pcap_input s"
  "pcap_sendpacket (put_buf s r b) = pcap_sendpacket s"
  "sent (put_buf s r b) = sent s"
  by (cases r; simp add: put_buf_def)+

lemma get_buf_sent [simp]: "get_buf (s\<lparr>sent := x\<rparr>) r = get_buf s r"
  by (cases r) (simp_all add: get_buf_def)

lemma get_buf_simps [simp]:
  "get_buf s Rxbuf = Inr (rxbuf s)" "get_buf s Txbuf = Inr (txbuf s)"
  "get_buf s (Heapbuf a) = deref (h_bufs (mheap s) a) UseAfterFree"
  by (simp_all add: get_buf_def)

lemma put_buf_simps [simp]:
  "put_buf s Rxbuf b = s\<lparr>rxbuf := b\<rparr>" "put_buf s Txbuf b = s\<lparr>txbuf := b\<rparr>"
  by (simp_all add: put_buf_def)

lemma put_buf_sent: "put_buf (s\<lparr>sent := x\<rparr>) r b = (put_buf s r b)\<lparr>sent := x\<rparr>"
  by (cases r) (simp_all add: put_buf_def)

lemma buf_op_get: "get_buf s r = Inr b \<Longrightarrow> buf_op f s r = Inr (put_buf s r (fst (f b)), snd (f b))"
  by (simp add: buf_op_def split: prod.splits)

lemma buf_do_get: "get_buf s r = Inr b \<Longrightarrow> buf_do f s r = Inr (put_buf s r (fst (f b)))"
  by (simp add: buf_do_def buf_op_get)

lemma mem_read_get: "get_buf s r = Inr b \<Longrightarrow> mem_read s r off n = buf_read b off n"
  by (simp add: mem_read_def)

lemma mem_write_get:
  "get_buf s r = Inr b \<Longrightarrow> off + length bs \<le> BUF_MAX_LEN \<Longrightarrow>
    mem_write s r off bs = Inr (put_buf s r (b\<lparr>buf_payload := store (buf_payload b) off bs\<rparr>))"
  by (simp add: mem_write_def buf_write_def)

subsection \<open>The driver (\<^verbatim>\<open>src/driver.c\<close>)\<close>

text \<open>
  Sending reads the window of the buffer and hands it to libpcap. Receiving copies the packet to
  where the data pointer of the buffer stands and sets the length; the copy is as long as the
  packet was on the wire.
\<close>

definition driver_send :: "net \<Rightarrow> bufref \<Rightarrow> (net \<times> int) res" where
  "driver_send s r =
     ebind (get_buf s r) (\<lambda>b.
     ebind (buf_read b (buf_data b) (buf_len b)) (\<lambda>frame.
     let s' = s\<lparr>sent := sent s @ [frame]\<rparr> in
     if pcap_sendpacket s frame = -1 then Inr (s', -1) else Inr (s', 0)))"

definition driver_recv :: "net \<Rightarrow> bufref \<Rightarrow> (net \<times> int) res" where
  "driver_recv s r =
     (case pcap_input s of
        [] \<Rightarrow> Inr (s, 0)
      | ev # evs \<Rightarrow>
          let s1 = s\<lparr>pcap_input := evs\<rparr> in
          (case ev of
             Pcap_none \<Rightarrow> Inr (s1, 0)
           | Pcap_packet bytes len \<Rightarrow>
               ebind (guard_else (len \<le> length bytes) OutOfBounds) (\<lambda>_.
               ebind (get_buf s1 r) (\<lambda>b.
               ebind (mem_write s1 r (buf_data b) (take len bytes)) (\<lambda>s2.
               ebind (buf_do (\<lambda>b. (b\<lparr>buf_len := len\<rparr>, 0)) s2 r) (\<lambda>s3.
               Inr (s3, int len)))))
           | Pcap_error \<Rightarrow> Inr (s1, -1)))"

lemma driver_send_get:
  "get_buf s r = Inr b \<Longrightarrow> buf_data b + buf_len b \<le> BUF_MAX_LEN \<Longrightarrow>
    \<exists>st. driver_send s r = Inr (s\<lparr>sent := sent s @ [contents b]\<rparr>, st)"
  by (simp add: driver_send_def buf_read_def contents_def Let_def)

subsection \<open>Registering a protocol (\<^verbatim>\<open>src/net.c\<close>)\<close>

definition net_add_protocol :: "net \<Rightarrow> u16 \<Rightarrow> net_handler \<Rightarrow> net" where
  "net_add_protocol s protocol handler =
     s\<lparr>net_table := fst (map_set (net_table s) (clock s) protocol handler)\<rparr>"

end
