(* ===== verification/Ethernet.thy ===== *)
theory Ethernet
  imports State
begin

text \<open>
  Packet headers as fixed-width codecs, and the Ethernet layer (\<^verbatim>\<open>src/ethernet.c\<close>). The locale
  \<open>fixed_codec\<close> is the interface of every packed header struct: an encoder to and a decoder from
  a fixed number of bytes that are inverse to each other. It is interpreted on the header of each
  protocol in that protocol's theory.
\<close>

subsection \<open>Header structs\<close>

locale fixed_codec =
  fixes enc :: "'h \<Rightarrow> u8 list"
    and dec :: "u8 list \<Rightarrow> 'h"
    and width :: nat
  assumes length_enc: "length (enc h) = width"
    and dec_enc: "dec (enc h) = h"
    and enc_dec: "length bs = width \<Longrightarrow> enc (dec bs) = bs"
begin

text \<open>A header written into memory reads back, and rewriting what was read changes nothing.\<close>

lemma read_written: "dec (load (store m off (enc h)) off width) = h"
  by (simp add: mem_simps length_enc dec_enc)

lemma write_read: "store m off (enc (dec (load m off width))) = m"
  by (simp add: enc_dec mem_simps)

lemma enc_inject: "enc h = enc h' \<longleftrightarrow> h = h'"
  by (metis dec_enc)

lemma dec_prefix: "dec (take width (enc h @ rest)) = h"
  by (simp add: length_enc dec_enc)

lemma buf_write_read:
  "buf_write b off (enc h) = Inr b' \<Longrightarrow> buf_read b' off width = Inr bs \<Longrightarrow> dec bs = h"
  by (auto simp: buf_write_def buf_read_def read_written split: if_splits)

end

lemma list_of_6: "length xs = 6 \<Longrightarrow> \<exists>a b c d e f. xs = [a, b, c, d, e, f]"
  by (auto simp: numeral_eq_Suc length_Suc_conv)

lemma list_of_4: "length xs = 4 \<Longrightarrow> \<exists>a b c d. xs = [a, b, c, d]"
  by (auto simp: numeral_eq_Suc length_Suc_conv)

lemma mac_bytes_mac_of: "6 \<le> length xs \<Longrightarrow> mac_bytes (mac_of xs) = take 6 xs"
  by (rule nth_equalityI) (auto simp: mac_of_def less_Suc_eq numeral_eq_Suc nth_Cons')

lemma ip_bytes_ip_of: "4 \<le> length xs \<Longrightarrow> ip_bytes (ip_of xs) = take 4 xs"
  by (rule nth_equalityI) (auto simp: ip_of_def less_Suc_eq numeral_eq_Suc nth_Cons')

lemma mac_of_append [simp]: "mac_of (mac_bytes a @ xs) = a"
  by (cases a) (simp add: mac_of_def)

lemma ip_of_append [simp]: "ip_of (ip_bytes a @ xs) = a"
  by (cases a) (simp add: ip_of_def)

lemma u16_bytes_le16: "u16_bytes (le16 a b) = [a, b]"
  by (simp add: u16_bytes_def codec_simps)

lemma take_2_nth: "n + 2 \<le> length xs \<Longrightarrow> take 2 (drop n xs) = [xs ! n, xs ! Suc n]"
  by (rule nth_equalityI) (auto simp: less_Suc_eq numeral_eq_Suc)

record ether_hdr =
  eth_dst :: mac_addr
  eth_src :: mac_addr
  eth_protocol16 :: u16

definition ether_enc :: "ether_hdr \<Rightarrow> u8 list" where
  "ether_enc h = mac_bytes (eth_dst h) @ mac_bytes (eth_src h) @ u16_bytes (eth_protocol16 h)"

definition ether_dec :: "u8 list \<Rightarrow> ether_hdr" where
  "ether_dec bs = \<lparr>eth_dst = mac_of bs, eth_src = mac_of (drop 6 bs),
     eth_protocol16 = le16 (bs ! 12) (bs ! 13)\<rparr>"

abbreviation ETHER_HDR_LEN :: nat where "ETHER_HDR_LEN \<equiv> 14"

interpretation ether: fixed_codec ether_enc ether_dec 14
proof unfold_locales
  fix h
  show "length (ether_enc h) = 14" by (simp add: ether_enc_def)
  show "ether_dec (ether_enc h) = h"
    by (simp add: ether_enc_def ether_dec_def nth_append u16_bytes_def codec_simps)
next
  fix bs :: "u8 list"
  assume len: "length bs = 14"
  have "take 6 bs @ take 6 (drop 6 bs) @ drop 12 bs = bs"
    using append_take_drop_id [of 6 bs] append_take_drop_id [of 6 "drop 6 bs"] by simp
  moreover have "drop 12 bs = [bs ! 12, bs ! 13]"
    using take_2_nth [of 12 bs] len by simp
  ultimately show "ether_enc (ether_dec bs) = bs"
    using len by (simp add: ether_enc_def ether_dec_def mac_bytes_mac_of u16_bytes_le16)
qed

lemma length_ether_enc [simp]: "length (ether_enc h) = 14"
  by (rule ether.length_enc)

subsection \<open>Sending\<close>

definition ethernet_out :: "net \<Rightarrow> bufref \<Rightarrow> mac_addr \<Rightarrow> u16 \<Rightarrow> net res" where
  "ethernet_out s r mac protocol =
     (let protocol' = swap16 protocol in
     ebind (get_buf s r) (\<lambda>b.
     ebind (if buf_len b < 46 then buf_do (\<lambda>b. buf_add_padding b (46 - buf_len b)) s r else Inr s) (\<lambda>s1.
     ebind (buf_do (\<lambda>b. buf_add_header b ETHER_HDR_LEN) s1 r) (\<lambda>s2.
     ebind (get_buf s2 r) (\<lambda>b2.
     ebind (mem_write s2 r (buf_data b2)
              (ether_enc \<lparr>eth_dst = mac, eth_src = net_if_mac, eth_protocol16 = protocol'\<rparr>)) (\<lambda>s3.
     ebind (driver_send s3 r) (\<lambda>(s4, st). Inr s4)))))))"

definition ethernet_init :: "net \<Rightarrow> net res" where
  "ethernet_init s = buf_do (\<lambda>b. buf_init b (ETHERNET_MAX_TRANSPORT_UNIT + ETHER_HDR_LEN)) s Rxbuf"

subsection \<open>Receiving\<close>

text \<open>
  \<open>ethernet_in\<close> is given the upper-layer dispatcher \<^verbatim>\<open>net_in\<close> of \<^verbatim>\<open>src/net.c\<close>, which the theory
  \<open>Net\<close> defines and passes in.
\<close>

definition ethernet_in ::
  "(net \<Rightarrow> bufref \<Rightarrow> u16 \<Rightarrow> u8 list \<Rightarrow> (net \<times> int) res) \<Rightarrow> net \<Rightarrow> bufref \<Rightarrow> net res" where
  "ethernet_in net_in s r =
     ebind (get_buf s r) (\<lambda>b.
     ebind (mem_read s r (buf_data b) ETHER_HDR_LEN) (\<lambda>bs.
     let hdr = ether_dec bs;
         length_type = swap16 (eth_protocol16 hdr)
     in
       if eth_dst hdr = net_if_mac \<or> eth_dst hdr = net_broadcast_mac then
         (if 46 \<le> length_type \<and> length_type \<le> 1500 then Inr s
          else if length_type \<ge> 0x0600 then
            ebind (buf_do (\<lambda>b. buf_remove_header b ETHER_HDR_LEN) s r) (\<lambda>s1.
            ebind (net_in s1 r length_type (mac_bytes (eth_src hdr))) (\<lambda>(s2, st). Inr s2))
          else Inr s)
       else Inr s))"

definition ethernet_poll ::
  "(net \<Rightarrow> bufref \<Rightarrow> u16 \<Rightarrow> u8 list \<Rightarrow> (net \<times> int) res) \<Rightarrow> net \<Rightarrow> net res" where
  "ethernet_poll net_in s =
     ebind (driver_recv s Rxbuf) (\<lambda>(s1, n).
     if n > 0 then ethernet_in net_in s1 Rxbuf else Inr s1)"

subsection \<open>What is put on the wire\<close>

text \<open>The frame the standard asks for: header, payload, zero padding up to 46 bytes of payload.\<close>

definition ether_frame :: "mac_addr \<Rightarrow> u16 \<Rightarrow> u8 list \<Rightarrow> u8 list" where
  "ether_frame mac protocol body =
     ether_enc \<lparr>eth_dst = mac, eth_src = net_if_mac, eth_protocol16 = swap16 protocol\<rparr>
       @ body @ replicate (46 - length body) 0"

text \<open>A buffer ready for a frame: room for the header in front and for the padding behind.\<close>

definition frame_room :: "buf_t \<Rightarrow> bool" where
  "frame_room b \<longleftrightarrow> 14 \<le> buf_data b \<and> buf_data b + max 46 (buf_len b) < BUF_MAX_LEN"

definition frame_buf :: "buf_t \<Rightarrow> mac_addr \<Rightarrow> u16 \<Rightarrow> buf_t" where
  "frame_buf b mac protocol =
     \<lparr>buf_len = max 46 (buf_len b) + 14, buf_data = buf_data b - 14,
      buf_payload = store (buf_payload b) (buf_data b - 14)
        (ether_frame mac protocol (contents b))\<rparr>"

lemma length_ether_frame: "length (ether_frame mac p body) = 14 + max 46 (length body)"
  by (simp add: ether_frame_def)

lemma padded_contents:
  "frame_room b \<Longrightarrow>
    contents (if buf_len b < 46 then fst (buf_add_padding b (46 - buf_len b)) else b) =
      contents b @ replicate (46 - buf_len b) 0"
  using load_store_split [where n = 0]
    load_append [of "store (buf_payload b) (buf_data b + buf_len b) (replicate (46 - buf_len b) 0)"
      "buf_data b" "buf_len b" "46 - buf_len b"]
  by (auto simp: buf_add_padding_def frame_room_def contents_def mem_simps)

lemma padded_fields:
  assumes "frame_room b"
  defines "c \<equiv> (if buf_len b < 46 then fst (buf_add_padding b (46 - buf_len b)) else b)"
  shows "buf_len c = max 46 (buf_len b)" and "buf_data c = buf_data b" and "buf_ok c"
  using assms by (auto simp: buf_add_padding_def frame_room_def buf_ok_def)

lemma store_contents_append:
  "store (store m (d + n) zs) d' hs = store m d' (hs @ load m d n @ zs)" if "d' + length hs = d"
  using that by (intro ext) (auto simp: store_def nth_append nth_load)

lemma ethernet_out_spec:
  assumes get: "get_buf s r = Inr b" and room: "frame_room b"
  shows "ethernet_out s r mac protocol =
    Inr ((put_buf s r (frame_buf b mac protocol))
           \<lparr>sent := sent s @ [ether_frame mac protocol (contents b)]\<rparr>)"
proof -
  define c where "c = (if buf_len b < 46 then fst (buf_add_padding b (46 - buf_len b)) else b)"
  note c = padded_fields [OF room, folded c_def] padded_contents [OF room, folded c_def]
  define h where "h = ether_enc \<lparr>eth_dst = mac, eth_src = net_if_mac,
    eth_protocol16 = swap16 protocol\<rparr>"
  have len_h: "length h = 14" by (simp add: h_def)
  have d: "14 \<le> buf_data c" using room by (simp add: c frame_room_def)
  let ?p = "buf_push c h"
  have pad: "(if buf_len b < 46 then buf_do (\<lambda>b. buf_add_padding b (46 - buf_len b)) s r else Inr s)
      = Inr (if buf_len b < 46 then put_buf s r c else s)"
    using get by (simp add: buf_do_get c_def)
  have get_c: "get_buf (if buf_len b < 46 then put_buf s r c else s) r = Inr c"
    using get by (simp add: c_def)
  have put: "put_buf (if buf_len b < 46 then put_buf s r c else s) r x = put_buf s r x" for x
    by simp
  have push: "fst (buf_add_header c 14) = c\<lparr>buf_len := buf_len c + 14, buf_data := buf_data c - 14\<rparr>"
    using d by (simp add: buf_add_header_def)
  have p: "?p = c\<lparr>buf_len := buf_len c + 14, buf_data := buf_data c - 14,
      buf_payload := store (buf_payload c) (buf_data c - 14) h\<rparr>"
    using d by (simp add: buf_push_def buf_add_header_def len_h)
  have contents_p: "contents ?p = ether_frame mac protocol (contents b)"
    using bh.bytes_push [of c h] c d by (simp add: len_h ether_frame_def h_def)
  have "store (buf_payload c) (buf_data b - 14) h = store (buf_payload b) (buf_data b - 14)
      (h @ load (buf_payload b) (buf_data b) (buf_len b) @ replicate (46 - buf_len b) 0)"
  proof (cases "buf_len b < 46")
    case True
    then have "buf_payload c = store (buf_payload b) (buf_data b + buf_len b)
        (replicate (46 - buf_len b) 0)"
      using room by (simp add: c_def buf_add_padding_def frame_room_def)
    then show ?thesis
      using store_contents_append [of "buf_data b - 14" h "buf_data b"] d c(2) len_h by simp
  next
    case False
    then show ?thesis
      using store_contents_append [of "buf_data b - 14" h "buf_data b" _ _ "[]"] d c(2) len_h
      by (simp add: c_def)
  qed
  then have "buf_payload ?p = store (buf_payload b) (buf_data b - 14)
      (ether_frame mac protocol (contents b))"
    by (simp add: p c(2) ether_frame_def h_def [symmetric] contents_def)
  then have pf: "?p = frame_buf b mac protocol"
    using c by (simp add: p frame_buf_def)
  have ok: "buf_data ?p + buf_len ?p \<le> BUF_MAX_LEN"
    using c(3) d by (simp add: p buf_ok_def)
  obtain st where st: "driver_send (put_buf s r ?p) r = Inr ((put_buf s r ?p)
      \<lparr>sent := sent s @ [contents ?p]\<rparr>, st)"
    using driver_send_get [of "put_buf s r ?p" r ?p] ok by auto
  show ?thesis
    unfolding ethernet_out_def Let_def get ebind_Inr pad h_def [symmetric]
    using get_c push d c(3) len_h st
    by (simp add: buf_do_get put mem_write_get buf_ok_def contents_p [symmetric] pf [symmetric])
      (simp add: p)
qed

lemma contents_frame_buf: "contents (frame_buf b mac p) = ether_frame mac p (contents b)"
  by (simp add: frame_buf_def contents_def mem_simps length_ether_frame)

lemma frame_buf_ok: "frame_room b \<Longrightarrow> buf_ok (frame_buf b mac p)"
  by (simp add: frame_buf_def frame_room_def buf_ok_def)

lemma ethernet_in_spec:
  assumes "get_buf s r = Inr b" and "buf_ok b" and "14 \<le> buf_len b"
    and hdr: "ether_dec (take 14 (contents b)) = hdr"
  shows "ethernet_in ni s r =
    (if (eth_dst hdr = net_if_mac \<or> eth_dst hdr = net_broadcast_mac) \<and>
        0x0600 \<le> swap16 (eth_protocol16 hdr)
     then ebind (ni (put_buf s r (buf_pop b 14)) r (swap16 (eth_protocol16 hdr))
                   (mac_bytes (eth_src hdr))) (\<lambda>(s2, st). Inr s2)
     else Inr s)"
proof -
  have "\<not> (46 \<le> lt \<and> lt \<le> 1500)" if "0x0600 \<le> lt" for lt :: u16
  proof -
    have "(1500 :: u16) < 0x0600" by simp
    with that show ?thesis by (meson leD order_less_le_trans)
  qed
  moreover have "mem_read s r (buf_data b) 14 = Inr (take 14 (contents b))"
    using assms by (simp add: mem_read_get buf_read_contents)
  ultimately show ?thesis
    using assms(1) hdr by (auto simp: ethernet_in_def Let_def buf_do_get buf_pop_def)
qed

subsection \<open>Properties of the Ethernet layer\<close>

text \<open>C25. Sending puts exactly the standard's frame on the wire: destination, own address, type in
  network order, payload, and zero padding to the minimum of 60 bytes. It succeeds for every
  buffer with 14 bytes free in front and room for the padding behind, appends one frame to what
  was sent, and leaves the buffer holding that frame.\<close>

theorem ethernet_out_frame:
  assumes "get_buf s r = Inr b" and "frame_room b"
  shows "\<exists>s'. ethernet_out s r mac protocol = Inr s' \<and>
    sent s' = sent s @ [ether_frame mac protocol (contents b)] \<and>
    60 \<le> length (ether_frame mac protocol (contents b)) \<and>
    (\<exists>b'. get_buf s' r = Inr b' \<and> buf_ok b' \<and>
       contents b' = ether_frame mac protocol (contents b))"
  using ethernet_out_spec [OF assms] frame_buf_ok [OF assms(2)]
  by (simp add: length_ether_frame contents_frame_buf)

text \<open>A concrete state for the witnesses: fresh tables, nothing received, the clock at 1.\<close>

definition demo_buf :: "u8 list \<Rightarrow> buf_t" where
  "demo_buf bs = \<lparr>buf_len = length bs, buf_data = 1000, buf_payload = store (\<lambda>_. 0) 1000 bs\<rparr>"

lemma contents_demo_buf [simp]: "contents (demo_buf bs) = bs"
  by (simp add: demo_buf_def contents_def mem_simps)

lemma buf_len_demo_buf [simp]: "buf_len (demo_buf bs) = length bs"
  by (simp add: demo_buf_def)

lemma frame_room_demo_buf: "length bs \<le> 1500 \<Longrightarrow> frame_room (demo_buf bs)"
  by (simp add: demo_buf_def frame_room_def)

lemma buf_ok_demo_buf: "length bs \<le> 1500 \<Longrightarrow> buf_ok (demo_buf bs)"
  by (simp add: demo_buf_def buf_ok_def)

definition demo_state :: net where
  "demo_state = \<lparr>
     rxbuf = \<lparr>buf_len = 0, buf_data = 0, buf_payload = (\<lambda>_. 0)\<rparr>,
     txbuf = \<lparr>buf_len = 0, buf_data = 0, buf_payload = (\<lambda>_. 0)\<rparr>,
     mheap = heap_empty,
     net_table = map_init \<lparr>ent_key = 0, ent_val = H_arp_in, ent_time = 0\<rparr> 2 8 0 0 None,
     arp_table = map_init \<lparr>ent_key = (0, 0, 0, 0), ent_val = (0, 0, 0, 0, 0, 0), ent_time = 0\<rparr>
       4 6 0 ARP_TIMEOUT_SEC None,
     arp_buf = map_init \<lparr>ent_key = (0, 0, 0, 0), ent_val = \<lparr>q_head = None, q_tail = None\<rparr>,
       ent_time = 0\<rparr> 4 16 0 0 (Some queue_copy),
     ip_id = 0,
     udp_table = map_init \<lparr>ent_key = 0, ent_val = H_udp_handler, ent_time = 0\<rparr> 2 8 0 0 None,
     tcp_table = map_init \<lparr>ent_key = 0, ent_val = H_tcp_handler, ent_time = 0\<rparr> 2 8 0 0 None,
     connect_table = map_init \<lparr>ent_key = \<lparr>key_ip = (0, 0, 0, 0), key_src_port = 0, key_dst_port = 0\<rparr>,
       ent_val = \<lparr>c_state = TCP_LISTEN, c_local_port = 0, c_remote_port = 0, c_ip = (0, 0, 0, 0),
         c_unack_seq = 0, c_next_seq = 0, c_ack = 0, c_remote_mss = 0, c_remote_win = 0,
         c_handler = None, c_rx_buf = None, c_tx_buf = None\<rparr>, ent_time = 0\<rparr> 8 56 0 0 None,
     http_fifo_v = \<lparr>f_buffer = (\<lambda>_. 0), f_front = 0, f_tail = 0, f_count = 0\<rparr>,
     clock = 1, delete_port = 0, rand_seq = (\<lambda>_. 0), pcap_input = [], pcap_sendpacket = (\<lambda>_. 0), sent = []\<rparr>"

theorem ethernet_out_frame_witness:
  "\<exists>s'. ethernet_out (demo_state\<lparr>txbuf := demo_buf [1, 2, 3]\<rparr>) Txbuf net_broadcast_mac 0x0806 = Inr s' \<and>
    sent s' = [ether_frame net_broadcast_mac 0x0806 [1, 2, 3]]"
  using ethernet_out_frame [of "demo_state\<lparr>txbuf := demo_buf [1, 2, 3]\<rparr>" Txbuf "demo_buf [1, 2, 3]"
      net_broadcast_mac "0x0806"] frame_room_demo_buf [of "[1, 2, 3]"]
  by (auto simp: demo_state_def)

text \<open>What one host sends the other accepts: a frame built for the receiver's address or for
  broadcast, with a type of at least 0x0600, is handed to the upper layer with the original type,
  the sender's address and the original payload followed only by the zero padding.\<close>

lemma ethernet_in_accepts_frame:
  assumes "get_buf s r = Inr b" and "buf_ok b"
    and "contents b = ether_frame mac protocol body"
    and "mac = net_if_mac \<or> mac = net_broadcast_mac" and "0x0600 \<le> protocol"
  shows "\<exists>b'. contents b' = body @ replicate (46 - length body) 0 \<and> buf_ok b' \<and>
    ethernet_in ni s r =
      ebind (ni (put_buf s r b') r protocol (mac_bytes net_if_mac)) (\<lambda>(s2, st). Inr s2)"
proof -
  have len: "14 \<le> buf_len b"
    using assms(3) length_contents [of b] length_ether_frame [of mac protocol body] by simp
  have hdr: "ether_dec (take 14 (contents b)) =
      \<lparr>eth_dst = mac, eth_src = net_if_mac, eth_protocol16 = swap16 protocol\<rparr>"
    by (simp add: assms(3) ether_frame_def ether.dec_enc)
  have "contents (buf_pop b 14) = body @ replicate (46 - length body) 0"
    using bh.bytes_pop [OF assms(2), of 14] len assms(3) by (simp add: ether_frame_def)
  moreover have "buf_ok (buf_pop b 14)"
    using bh.ok_pop [OF assms(2), of 14] len by simp
  ultimately show ?thesis
    using ethernet_in_spec [OF assms(1,2) len hdr, of ni] assms(4,5)
    by (intro exI [of _ "buf_pop b 14"]) simp
qed

lemma ethernet_in_accepts_frame_example:
  "\<exists>b'. contents b' = [1, 2, 3] @ replicate 43 0 \<and>
    ethernet_in (\<lambda>s r p src. Inr (s, int (unat p)))
      (demo_state\<lparr>rxbuf := frame_buf (demo_buf [1, 2, 3]) net_if_mac 0x0800\<rparr>) Rxbuf =
    Inr (demo_state\<lparr>rxbuf := b'\<rparr>)"
  using ethernet_in_accepts_frame [of
      "demo_state\<lparr>rxbuf := frame_buf (demo_buf [1, 2, 3]) net_if_mac 0x0800\<rparr>" Rxbuf
      "frame_buf (demo_buf [1, 2, 3]) net_if_mac 0x0800" net_if_mac "0x0800" "[1, 2, 3]"
      "\<lambda>s r p src. Inr (s, int (unat p))"]
    frame_buf_ok [OF frame_room_demo_buf [of "[1, 2, 3]"], of net_if_mac "0x0800"]
  by (auto simp: contents_frame_buf)

text \<open>Frames for other stations and frames whose type field is a length or reserved are dropped
  without any effect; everything else goes to \<open>net_in\<close> with the header removed.\<close>

lemma ethernet_in_filter:
  assumes "get_buf s r = Inr b" and "buf_ok b" and "14 \<le> buf_len b"
    and "ether_dec (take 14 (contents b)) = hdr"
  shows "(eth_dst hdr \<noteq> net_if_mac \<and> eth_dst hdr \<noteq> net_broadcast_mac \<longrightarrow>
      ethernet_in ni s r = Inr s) \<and>
    (swap16 (eth_protocol16 hdr) < 0x0600 \<longrightarrow> ethernet_in ni s r = Inr s) \<and>
    (eth_dst hdr \<in> {net_if_mac, net_broadcast_mac} \<and> 0x0600 \<le> swap16 (eth_protocol16 hdr) \<longrightarrow>
      ethernet_in ni s r =
        ebind (ni (put_buf s r (buf_pop b 14)) r (swap16 (eth_protocol16 hdr))
          (mac_bytes (eth_src hdr))) (\<lambda>(s2, st). Inr s2))"
  using ethernet_in_spec [OF assms, of ni] by (auto simp: not_le)

lemma ethernet_in_filter_example:
  "ethernet_in (\<lambda>s r p src. Inl AssertFailed)
     (demo_state\<lparr>rxbuf := demo_buf (ether_enc \<lparr>eth_dst = (1, 2, 3, 4, 5, 6), eth_src = net_if_mac,
        eth_protocol16 = swap16 0x0800\<rparr>)\<rparr>) Rxbuf =
   Inr (demo_state\<lparr>rxbuf := demo_buf (ether_enc \<lparr>eth_dst = (1, 2, 3, 4, 5, 6), eth_src = net_if_mac,
        eth_protocol16 = swap16 0x0800\<rparr>)\<rparr>)"
proof -
  let ?h = "\<lparr>eth_dst = (1, 2, 3, 4, 5, 6), eth_src = net_if_mac, eth_protocol16 = swap16 0x0800\<rparr>"
  have "eth_dst ?h \<noteq> net_if_mac" "eth_dst ?h \<noteq> net_broadcast_mac"
    by (simp_all add: net_if_mac_def NET_IF_MAC_def net_broadcast_mac_def)
  moreover have "ether_dec (take 14 (ether_enc ?h)) = ?h"
    by (simp add: ether.dec_enc)
  moreover have "14 \<le> buf_len (demo_buf (ether_enc ?h))"
    by simp
  ultimately show ?thesis
    using ethernet_in_filter [of "demo_state\<lparr>rxbuf := demo_buf (ether_enc ?h)\<rparr>" Rxbuf
        "demo_buf (ether_enc ?h)" ?h "\<lambda>s r p src. Inl AssertFailed"]
      buf_ok_demo_buf [of "ether_enc ?h"]
    by simp
qed

end
