(* ===== verification/Arp.thy ===== *)
theory Arp
  imports Ethernet
begin

text \<open>
  Address resolution (\<^verbatim>\<open>src/arp.c\<close>). \<open>arp_table\<close> maps an IP address to the MAC address learnt for it;
  \<open>arp_buf\<close> maps an address under resolution to the queue of packets that wait for it. A packet
  for an unknown address is copied to the heap and queued, and the first one triggers a
  broadcast request; a reply flushes the queue in order. The invariant \<open>arp_inv\<close> ties the two
  tables to the heap: every pending queue is well formed, not empty, and owns its nodes and
  buffers. The theorems show what is sent in each case and that a packet waits exactly until
  the reply arrives.
\<close>

subsection \<open>The ARP packet\<close>

record arp_pkt =
  hw_type16 :: u16
  pro_type16 :: u16
  hw_len :: u8
  pro_len :: u8
  opcode16 :: u16
  sender_mac :: mac_addr
  sender_ip :: ip_addr
  target_mac :: mac_addr
  target_ip :: ip_addr

definition arp_enc :: "arp_pkt \<Rightarrow> u8 list" where
  "arp_enc p =
     u16_bytes (hw_type16 p) @ u16_bytes (pro_type16 p) @ [hw_len p, pro_len p] @
     u16_bytes (opcode16 p) @ mac_bytes (sender_mac p) @ ip_bytes (sender_ip p) @
     mac_bytes (target_mac p) @ ip_bytes (target_ip p)"

definition arp_dec :: "u8 list \<Rightarrow> arp_pkt" where
  "arp_dec bs = \<lparr>hw_type16 = le16 (bs ! 0) (bs ! 1), pro_type16 = le16 (bs ! 2) (bs ! 3),
     hw_len = bs ! 4, pro_len = bs ! 5, opcode16 = le16 (bs ! 6) (bs ! 7),
     sender_mac = mac_of (drop 8 bs), sender_ip = ip_of (drop 14 bs),
     target_mac = mac_of (drop 18 bs), target_ip = ip_of (drop 24 bs)\<rparr>"

interpretation arp: fixed_codec arp_enc arp_dec 28
proof unfold_locales
  fix p
  show "length (arp_enc p) = 28" by (simp add: arp_enc_def)
  show "arp_dec (arp_enc p) = p"
    by (simp add: arp_enc_def arp_dec_def nth_append u16_bytes_def codec_simps)
next
  fix bs :: "u8 list"
  assume len: "length bs = 28"
  have split: "take k (drop n bs) @ drop (n + k) bs = drop n bs" for n k
    by (metis append_take_drop_id drop_drop add.commute)
  have two: "take 2 (drop n bs) = [bs ! n, bs ! Suc n]" if "n + 2 \<le> 28" for n
    using take_2_nth [of n bs] that len by simp
  have "bs = take 2 (drop 0 bs) @ take 2 (drop 2 bs) @ take 2 (drop 4 bs) @ take 2 (drop 6 bs) @
      take 6 (drop 8 bs) @ take 4 (drop 14 bs) @ take 6 (drop 18 bs) @ take 4 (drop 24 bs)"
    using split [of 2 0] split [of 2 2] split [of 2 4] split [of 2 6] split [of 6 8] split [of 4 14]
      split [of 6 18] split [of 4 24] len by simp
  then show "arp_enc (arp_dec bs) = bs"
    using len two [of 0] two [of 2] two [of 4] two [of 6]
    by (simp add: arp_enc_def arp_dec_def mac_bytes_mac_of ip_bytes_ip_of u16_bytes_le16)
qed

lemma length_arp_enc [simp]: "length (arp_enc p) = 28"
  by (rule arp.length_enc)

definition ARP_HW_ETHER :: u16 where "ARP_HW_ETHER = 1"
definition ARP_PADDING_SIZE :: nat where "ARP_PADDING_SIZE = 18"

lemma ARP_HW_ETHER_eq [simp]: "ARP_HW_ETHER = 1"
  by (simp add: ARP_HW_ETHER_def)

lemma ARP_PADDING_SIZE_eq [simp]: "ARP_PADDING_SIZE = 18"
  by (simp add: ARP_PADDING_SIZE_def)

definition ARP_REQUEST :: u16 where "ARP_REQUEST = 1"
definition ARP_REPLY :: u16 where "ARP_REPLY = 2"

definition arp_init_pkt :: arp_pkt where
  "arp_init_pkt = \<lparr>hw_type16 = swap16 ARP_HW_ETHER, pro_type16 = swap16 NET_PROTOCOL_IP, hw_len = 6,
     pro_len = 4, opcode16 = 0, sender_mac = NET_IF_MAC, sender_ip = NET_IF_IP,
     target_mac = (0, 0, 0, 0, 0, 0), target_ip = (0, 0, 0, 0)\<rparr>"

subsection \<open>Printing the table\<close>

text \<open>The state of the traversal is the list of lines logged.\<close>

definition arp_entry_print ::
  "(ip_addr, mac_addr) entry \<Rightarrow> string list \<Rightarrow>
   (ip_addr, mac_addr) entry \<times> string list" where
  "arp_entry_print e ls =
     (e, ls @ [iptos (ent_key e) @ '' | '' @ mactos (ent_val e) @ '' | '' @ timetos (ent_time e)])"

definition arp_print :: "net \<Rightarrow> net \<times> string list" where
  "arp_print s =
     (case map_foreach (arp_table s) (clock s) arp_entry_print [''===ARP TABLE BEGIN===''] of
        (t, ls) \<Rightarrow> (s\<lparr>arp_table := t\<rparr>, ls @ [''===ARP TABLE  END ===='']))"

subsection \<open>Requests and replies\<close>

definition arp_req :: "net \<Rightarrow> ip_addr \<Rightarrow> net res" where
  "arp_req s tip =
     ebind (buf_do (\<lambda>b. buf_init b (28 + ARP_PADDING_SIZE)) s Txbuf) (\<lambda>s1.
     ebind (get_buf s1 Txbuf) (\<lambda>b.
     ebind (mem_write s1 Txbuf (buf_data b + 28) (replicate ARP_PADDING_SIZE 0)) (\<lambda>s2.
     ebind (mem_write s2 Txbuf (buf_data b)
              (arp_enc (arp_init_pkt\<lparr>target_ip := tip, opcode16 := swap16 ARP_REQUEST\<rparr>))) (\<lambda>s3.
     ethernet_out s3 Txbuf net_broadcast_mac NET_PROTOCOL_ARP))))"

definition arp_resp :: "net \<Rightarrow> ip_addr \<Rightarrow> mac_addr \<Rightarrow> net res" where
  "arp_resp s tip tmac =
     ebind (buf_do (\<lambda>b. buf_init b (28 + ARP_PADDING_SIZE)) s Txbuf) (\<lambda>s1.
     ebind (get_buf s1 Txbuf) (\<lambda>b.
     ebind (mem_write s1 Txbuf (buf_data b + 28) (replicate ARP_PADDING_SIZE 0)) (\<lambda>s2.
     ebind (mem_write s2 Txbuf (buf_data b)
              (arp_enc (arp_init_pkt\<lparr>target_ip := tip, target_mac := tmac, sender_ip := net_if_ip,
                 sender_mac := net_if_mac, opcode16 := swap16 ARP_REPLY\<rparr>))) (\<lambda>s3.
     ethernet_out s3 Txbuf tmac NET_PROTOCOL_ARP))))"

subsection \<open>Receiving\<close>

text \<open>
  The loop that re-sends the pending packets pops the queue in slot \<open>i\<close> of \<open>arp_buf\<close> through the
  pointer \<open>map_get\<close> returned. Its fuel is the number of addresses the heap has handed out plus
  one, more than any well-formed queue holds. A popped buffer is not freed.
\<close>

fun arp_flush :: "nat \<Rightarrow> net \<Rightarrow> nat \<Rightarrow> mac_addr \<Rightarrow> net res" where
  "arp_flush 0 s i mac = Inl OutOfFuel"
| "arp_flush (Suc fuel) s i mac =
     ebind (queue_pop (mheap s) (Some (map_val (arp_buf s) i))) (\<lambda>(h, q, item).
     let s1 = s\<lparr>mheap := h, arp_buf := map_poke (arp_buf s) i q\<rparr> in
     case item of
       None \<Rightarrow> Inr s1
     | Some a \<Rightarrow>
         ebind (ethernet_out s1 (Heapbuf a) mac NET_PROTOCOL_IP) (\<lambda>s2. arp_flush fuel s2 i mac))"

definition arp_in :: "net \<Rightarrow> bufref \<Rightarrow> u8 list \<Rightarrow> net res" where
  "arp_in s r src_mac =
     ebind (get_buf s r) (\<lambda>b.
     if buf_len b < 28 then Inr s
     else
       ebind (mem_read s r (buf_data b) 28) (\<lambda>bs.
       let p = arp_dec bs in
       if pro_type16 p = swap16 NET_PROTOCOL_IP \<and> hw_len p = 6 \<and> pro_len p = 4 then
         (if opcode16 p = swap16 ARP_REPLY \<and> target_ip p = net_if_ip \<and> target_mac p = net_if_mac then
            let s1 = s\<lparr>arp_table := fst (map_set (arp_table s) (clock s) (sender_ip p) (sender_mac p))\<rparr> in
            (case map_get (arp_buf s1) (clock s1) (Some (sender_ip p)) of
               None \<Rightarrow> Inr s1
             | Some i \<Rightarrow>
                 ebind (arp_flush (Suc (h_next (mheap s1))) s1 i (sender_mac p)) (\<lambda>s2.
                 let s3 = s2\<lparr>arp_buf := map_delete (arp_buf s2) (clock s2) (sender_ip p)\<rparr> in
                 ebind (queue_free_data (mheap s3) (Some (map_val (arp_buf s3) i)) True) (\<lambda>h.
                 Inr (s3\<lparr>mheap := h\<rparr>))))
          else if opcode16 p = swap16 ARP_REQUEST \<and> target_ip p = net_if_ip then
            let s1 = s\<lparr>arp_table := fst (map_set (arp_table s) (clock s) (sender_ip p) (sender_mac p))\<rparr> in
            arp_resp s1 (sender_ip p) (sender_mac p)
          else Inr s)
       else Inr s))"

subsection \<open>Sending\<close>

text \<open>
  \<open>fresh_buf\<close> stands for the uninitialised memory \<^verbatim>\<open>malloc\<close> returns; \<open>buf_copy\<close> overwrites all of it.
\<close>

definition fresh_buf :: buf_t where
  "fresh_buf = \<lparr>buf_len = 0, buf_data = 0, buf_payload = (\<lambda>_. 0)\<rparr>"

definition arp_out :: "net \<Rightarrow> bufref \<Rightarrow> ip_addr \<Rightarrow> net res" where
  "arp_out s r ip =
     (case map_get (arp_table s) (clock s) (Some ip) of
        None \<Rightarrow>
          (case map_get (arp_buf s) (clock s) (Some ip) of
             Some i \<Rightarrow>
               ebind (get_buf s r) (\<lambda>b.
               ebind (buf_copy fresh_buf b) (\<lambda>copy.
               case malloc_buf (mheap s) copy of (h1, a) \<Rightarrow>
               ebind (queue_push h1 (Some (map_val (arp_buf s) i)) (Some a)) (\<lambda>(h2, q).
               Inr (s\<lparr>mheap := h2, arp_buf := map_poke (arp_buf s) i q\<rparr>))))
           | None \<Rightarrow>
               ebind (get_buf s r) (\<lambda>b.
               ebind (buf_copy fresh_buf b) (\<lambda>copy.
               case malloc_buf (mheap s) copy of (h1, a) \<Rightarrow>
               case queue_new h1 (Some a) of (h2, qa) \<Rightarrow>
               ebind (deref (h_queues h2 qa) UseAfterFree) (\<lambda>q.
               arp_req (s\<lparr>mheap := h2\<lparr>h_queues := (h_queues h2)(qa := None)\<rparr>,
                          arp_buf := fst (map_set (arp_buf s) (clock s) ip q)\<rparr>) ip))))
      | Some i \<Rightarrow> ethernet_out s r (map_val (arp_table s) i) NET_PROTOCOL_IP)"

definition arp_init :: "net \<Rightarrow> net res" where
  "arp_init s =
     (let s1 = s\<lparr>arp_table := map_init \<lparr>ent_key = (0, 0, 0, 0), ent_val = (0, 0, 0, 0, 0, 0), ent_time = 0\<rparr>
                  4 6 0 ARP_TIMEOUT_SEC None,
                arp_buf := map_init \<lparr>ent_key = (0, 0, 0, 0), ent_val = \<lparr>q_head = None, q_tail = None\<rparr>,
                  ent_time = 0\<rparr> 4 16 0 0 (Some queue_copy)\<rparr>;
          s2 = net_add_protocol s1 NET_PROTOCOL_ARP H_arp_in
      in arp_req s2 net_if_ip)"

subsection \<open>What requests and replies put on the wire\<close>

definition arp_body :: "arp_pkt \<Rightarrow> u8 list" where
  "arp_body p = arp_enc p @ replicate 18 0"

definition arp_request_pkt :: "ip_addr \<Rightarrow> arp_pkt" where
  "arp_request_pkt tip = \<lparr>hw_type16 = swap16 1, pro_type16 = swap16 0x0800, hw_len = 6, pro_len = 4,
     opcode16 = swap16 1, sender_mac = net_if_mac, sender_ip = net_if_ip,
     target_mac = (0, 0, 0, 0, 0, 0), target_ip = tip\<rparr>"

definition arp_reply_pkt :: "ip_addr \<Rightarrow> mac_addr \<Rightarrow> arp_pkt" where
  "arp_reply_pkt tip tmac = \<lparr>hw_type16 = swap16 1, pro_type16 = swap16 0x0800, hw_len = 6,
     pro_len = 4, opcode16 = swap16 2, sender_mac = net_if_mac, sender_ip = net_if_ip,
     target_mac = tmac, target_ip = tip\<rparr>"

text \<open>The transmit buffer after an ARP packet has been sent.\<close>

definition arp_txbuf :: "net \<Rightarrow> arp_pkt \<Rightarrow> buf_t" where
  "arp_txbuf s p = \<lparr>buf_len = 46, buf_data = BUF_MAX_LEN div 2 - 46,
     buf_payload = store (buf_payload (txbuf s)) (BUF_MAX_LEN div 2 - 46) (arp_body p)\<rparr>"

lemma length_arp_body [simp]: "length (arp_body p) = 46"
  by (simp add: arp_body_def)

lemma contents_arp_txbuf [simp]: "contents (arp_txbuf s p) = arp_body p"
  by (simp add: contents_def arp_txbuf_def mem_simps)

lemma frame_room_arp_txbuf [simp]: "frame_room (arp_txbuf s p)"
  by (simp add: frame_room_def arp_txbuf_def BUF_MAX_LEN_def)

lemma buf_init_46: "buf_init b 46 = (b\<lparr>buf_len := 46, buf_data := BUF_MAX_LEN div 2 - 46\<rparr>, 0)"
  by (simp add: buf_init_def BUF_MAX_LEN_def)

lemma arp_write:
  "ebind (buf_do (\<lambda>b. buf_init b 46) s Txbuf) (\<lambda>s1.
     ebind (mem_write s1 Txbuf (buf_data (txbuf s1) + 28) (replicate 18 0)) (\<lambda>s2.
     ebind (mem_write s2 Txbuf (buf_data (txbuf s1)) (arp_enc p)) f)) =
   f (s\<lparr>txbuf := arp_txbuf s p\<rparr>)"
proof -
  have "store (store m 65644 (replicate 18 0)) 65616 (arp_enc p) = store m 65616 (arp_body p)" for m
    using store_commute [of 65644 "replicate 18 0" 65616 "arp_enc p" m]
      store_append [of m 65616 "arp_enc p" "replicate 18 0"]
    by (simp add: arp_body_def)
  then show ?thesis
    by (cases "txbuf s")
      (simp add: buf_do_get buf_init_46 mem_write_def buf_write_def arp_txbuf_def BUF_MAX_LEN_def)
qed

lemma arp_req_spec:
  "arp_req s tip = Inr (s\<lparr>txbuf := frame_buf (arp_txbuf s (arp_request_pkt tip)) net_broadcast_mac NET_PROTOCOL_ARP,
     sent := sent s @ [ether_frame net_broadcast_mac NET_PROTOCOL_ARP (arp_body (arp_request_pkt tip))]\<rparr>)"
proof -
  have "arp_init_pkt\<lparr>target_ip := tip, opcode16 := swap16 ARP_REQUEST\<rparr> = arp_request_pkt tip"
    by (simp add: arp_init_pkt_def arp_request_pkt_def ARP_REQUEST_def NET_PROTOCOL_IP_def
        net_if_mac_def net_if_ip_def)
  then show ?thesis
    by (simp add: arp_req_def arp_write
        ethernet_out_spec [where r = Txbuf and b = "arp_txbuf s (arp_request_pkt tip)"])
qed

lemma arp_resp_spec:
  "arp_resp s tip tmac = Inr (s\<lparr>txbuf := frame_buf (arp_txbuf s (arp_reply_pkt tip tmac)) tmac NET_PROTOCOL_ARP,
     sent := sent s @ [ether_frame tmac NET_PROTOCOL_ARP (arp_body (arp_reply_pkt tip tmac))]\<rparr>)"
proof -
  have "arp_init_pkt\<lparr>target_ip := tip, target_mac := tmac, sender_ip := net_if_ip,
      sender_mac := net_if_mac, opcode16 := swap16 ARP_REPLY\<rparr> = arp_reply_pkt tip tmac"
    by (simp add: arp_init_pkt_def arp_reply_pkt_def ARP_REPLY_def NET_PROTOCOL_IP_def)
  then show ?thesis
    by (simp add: arp_resp_def arp_write
        ethernet_out_spec [where r = Txbuf and b = "arp_txbuf s (arp_reply_pkt tip tmac)"])
qed

subsection \<open>Pending packets\<close>

text \<open>
  \<open>slot_queue h q as ps\<close>: the queue \<open>q\<close> has the nodes \<open>as\<close> and holds the buffers \<open>ps\<close>, pairs of an
  address and the buffer stored there, all distinct and ready to be framed.
\<close>

definition slot_queue :: "heap \<Rightarrow> queue_t \<Rightarrow> nat list \<Rightarrow> (nat \<times> buf_t) list \<Rightarrow> bool" where
  "slot_queue h q as ps \<longleftrightarrow>
     queue_at h q as \<and> queue_items h as = map (\<lambda>p. Some (fst p)) ps \<and> distinct (map fst ps) \<and>
     (\<forall>p \<in> set ps. h_bufs h (fst p) = Some (snd p) \<and> frame_room (snd p))"

definition heap_bounded :: "heap \<Rightarrow> bool" where
  "heap_bounded h \<longleftrightarrow> (\<forall>a \<ge> h_next h. h_nodes h a = None \<and> h_bufs h a = None)"

lemma slot_queue_length: "slot_queue h q as ps \<Longrightarrow> length as = length ps"
  unfolding slot_queue_def queue_items_def by (metis length_map)

lemma slot_queue_Nil: "slot_queue h q [] ps \<longleftrightarrow> ps = [] \<and> queue_at h q []"
  by (auto simp: slot_queue_def queue_items_def)

lemma slot_queue_frame:
  assumes "slot_queue h q as ps" and "\<And>a. a \<in> set as \<Longrightarrow> h_nodes h' a = h_nodes h a"
    and "h_next h \<le> h_next h'" and "\<And>a. a \<in> fst ` set ps \<Longrightarrow> h_bufs h' a = h_bufs h a"
  shows "slot_queue h' q as ps"
  using assms queue_at_frame [of h q as h'] by (auto simp: slot_queue_def)

lemma slot_queue_buf_less:
  "slot_queue h q as ps \<Longrightarrow> heap_bounded h \<Longrightarrow> a \<in> fst ` set ps \<Longrightarrow> a < h_next h"
  by (fastforce simp: slot_queue_def heap_bounded_def not_less [symmetric])

lemma slot_queue_node_less: "slot_queue h q as ps \<Longrightarrow> a \<in> set as \<Longrightarrow> a < h_next h"
  by (simp add: slot_queue_def queue_at_def)

lemma slot_queue_push:
  assumes sq: "slot_queue h q as ps" and ne: "ps \<noteq> []" and hb: "heap_bounded h"
    and room: "frame_room b" and alloc: "malloc_buf h b = (h1, a)"
  obtains h2 q' n where "queue_push h1 (Some q) (Some a) = Inr (h2, q')"
    and "slot_queue h2 q' (as @ [n]) (ps @ [(a, b)])" and "heap_bounded h2"
    and "h_next h \<le> h_next h2" and "h_next h \<le> n" and "a = h_next h"
    and "\<And>x. x < h_next h \<Longrightarrow> h_bufs h2 x = h_bufs h x"
    and "\<And>x. x < h_next h \<Longrightarrow> x \<notin> set as \<Longrightarrow> h_nodes h2 x = h_nodes h x"
proof -
  have h1: "a = h_next h" "h_next h1 = Suc (h_next h)" "h_nodes h1 = h_nodes h"
    "h_bufs h1 = (h_bufs h)(h_next h \<mapsto> b)"
    using alloc by (auto simp: malloc_buf_def)
  have less: "\<And>x. x \<in> fst ` set ps \<Longrightarrow> x < h_next h" "\<And>x. x \<in> set as \<Longrightarrow> x < h_next h"
    using slot_queue_buf_less [OF sq hb] slot_queue_node_less [OF sq] by auto
  have "slot_queue h1 q as ps"
  proof (rule slot_queue_frame [OF sq])
    show "h_bufs h1 x = h_bufs h x" if "x \<in> fst ` set ps" for x
      using less(1) [OF that] by (simp add: h1)
  qed (simp_all add: h1)
  then have at: "queue_at h1 q as" and items: "queue_items h1 as = map (\<lambda>p. Some (fst p)) ps"
    by (simp_all add: slot_queue_def)
  have "as \<noteq> []" using ne slot_queue_length [OF sq] by auto
  then obtain h2 q' where push: "queue_push h1 (Some q) (Some a) = Inr (h2, q')"
    and at2: "queue_at h2 q' (as @ [h_next h1])"
    and items2: "queue_items h2 (as @ [h_next h1]) = queue_items h1 as @ [Some a]"
    and h2: "h_next h2 = Suc (h_next h1)" "h_bufs h2 = h_bufs h1"
    and nodes2: "\<And>x. x \<notin> set as \<Longrightarrow> x \<noteq> h_next h1 \<Longrightarrow> h_nodes h2 x = h_nodes h1 x"
    using queue_push_at [OF at, of "Some a"] by metis
  have "\<forall>p \<in> set ps. fst p \<noteq> h_next h" using less(1) by force
  then have "slot_queue h2 q' (as @ [h_next h1]) (ps @ [(a, b)])"
    using at2 items2 items sq room by (auto simp: slot_queue_def h2 h1)
  moreover have "heap_bounded h2"
    unfolding heap_bounded_def
  proof (intro allI impI)
    fix x
    assume x: "h_next h2 \<le> x"
    then have "x \<notin> set as" using less(2) [of x] by (auto simp: h2 h1)
    with x nodes2 [of x] hb show "h_nodes h2 x = None \<and> h_bufs h2 x = None"
      by (simp add: heap_bounded_def h2 h1)
  qed
  moreover have "h_nodes h2 x = h_nodes h x" if "x < h_next h" "x \<notin> set as" for x
    using nodes2 [of x] that by (simp add: h1)
  ultimately show thesis
    by (intro that [OF push]) (auto simp: h2 h1)
qed

lemma slot_queue_new:
  assumes "malloc_buf h b = (h1, a)" and "queue_new h1 (Some a) = (h2, qa)"
    and hb: "heap_bounded h" and room: "frame_room b"
  obtains q n where "h_queues h2 qa = Some q" and "slot_queue h2 q [n] [(a, b)]"
    and "heap_bounded h2" and "h_next h \<le> h_next h2" and "h_next h \<le> n" and "a = h_next h"
    and "\<And>x. x < h_next h \<Longrightarrow> h_bufs h2 x = h_bufs h x \<and> h_nodes h2 x = h_nodes h x"
proof -
  let ?q = "\<lparr>q_head = Some (Suc (h_next h1)), q_tail = Some (Suc (h_next h1))\<rparr>"
  have h1: "a = h_next h" "h_next h1 = Suc (h_next h)" "h_nodes h1 = h_nodes h"
    "h_bufs h1 = (h_bufs h)(h_next h \<mapsto> b)"
    using assms(1) by (auto simp: malloc_buf_def)
  note new = queue_new_at [OF assms(2)]
  have "slot_queue h2 ?q [Suc (h_next h1)] [(a, b)]"
    using room by (simp add: slot_queue_def queue_at_def queue_items_def new h1)
  moreover have "heap_bounded h2"
    using hb by (simp add: heap_bounded_def new h1)
  ultimately show thesis
    by (rule that [rotated]) (simp_all add: new h1)
qed

lemma slot_queue_pop:
  assumes sq: "slot_queue h q as (p # ps)"
  obtains n as' h' q' where "as = n # as'" and "queue_pop h (Some q) = Inr (h', q', Some (fst p))"
    and "slot_queue h' q' as' ps" and "h_bufs h' = h_bufs h" and "h_next h' = h_next h"
    and "\<And>x. x \<noteq> n \<Longrightarrow> h_nodes h' x = h_nodes h x" and "h_nodes h' n = None"
proof -
  obtain n as' where as: "as = n # as'" using slot_queue_length [OF sq] by (cases as) auto
  have "queue_at h q (n # as')" using sq by (simp add: slot_queue_def as)
  then obtain h' q' where "queue_pop h (Some q) = Inr (h', q', hd (queue_items h (n # as')))"
    "queue_at h' q' as'" "queue_items h' as' = queue_items h as'" "h_next h' = h_next h"
    "h_bufs h' = h_bufs h" "h_queues h' = h_queues h"
    "\<And>b. b \<noteq> n \<Longrightarrow> h_nodes h' b = h_nodes h b" "h_nodes h' n = None"
    by (rule queue_pop_at) blast
  moreover have "queue_items h as' = map (\<lambda>p. Some (fst p)) ps"
    "hd (queue_items h (n # as')) = Some (fst p)"
    using sq by (simp_all add: slot_queue_def as queue_items_def)
  ultimately show thesis
    using sq by (intro that [OF as]) (auto simp: slot_queue_def as)
qed

text \<open>The flush loop sends the waiting packets in order and leaves their buffers allocated.\<close>

lemma arp_flush_spec:
  "slot_queue (mheap s) (map_val (arp_buf s) i) as ps \<Longrightarrow> length ps < fuel \<Longrightarrow>
   \<exists>s' q. arp_flush fuel s i mac = Inr s' \<and>
      s' = s\<lparr>mheap := mheap s', arp_buf := map_poke (arp_buf s) i q,
        sent := sent s @ map (\<lambda>p. ether_frame mac NET_PROTOCOL_IP (contents (snd p))) ps\<rparr> \<and>
      slot_queue (mheap s') q [] [] \<and> h_next (mheap s') = h_next (mheap s) \<and>
      (\<forall>a. a \<notin> set as \<longrightarrow> h_nodes (mheap s') a = h_nodes (mheap s) a) \<and>
      (\<forall>a \<in> set as. h_nodes (mheap s') a = None) \<and>
      (\<forall>a. a \<notin> fst ` set ps \<longrightarrow> h_bufs (mheap s') a = h_bufs (mheap s) a) \<and>
      (\<forall>a. h_bufs (mheap s') a = None \<longleftrightarrow> h_bufs (mheap s) a = None)"
proof (induction ps arbitrary: s as fuel)
  case Nil
  then obtain fuel' where fuel: "fuel = Suc fuel'" by (cases fuel) auto
  have "as = []" using slot_queue_length [OF Nil.prems(1)] by simp
  with Nil.prems(1) have "queue_at (mheap s) (map_val (arp_buf s) i) []"
    by (simp add: slot_queue_Nil)
  with Nil.prems(1) \<open>as = []\<close> show ?case
    by (auto simp: fuel queue_pop_Nil Let_def)
next
  case (Cons p ps)
  then obtain fuel' where fuel: "fuel = Suc fuel'" "length ps < fuel'" by (cases fuel) auto
  obtain n as' h1 q1 where as: "as = n # as'"
    and pop: "queue_pop (mheap s) (Some (map_val (arp_buf s) i)) = Inr (h1, q1, Some (fst p))"
    and sq1: "slot_queue h1 q1 as' ps" and h1: "h_bufs h1 = h_bufs (mheap s)"
      "h_next h1 = h_next (mheap s)" "\<And>x. x \<noteq> n \<Longrightarrow> h_nodes h1 x = h_nodes (mheap s) x"
      "h_nodes h1 n = None"
    by (rule slot_queue_pop [OF Cons.prems(1)]) blast
  let ?s1 = "s\<lparr>mheap := h1, arp_buf := map_poke (arp_buf s) i q1\<rparr>"
  let ?f = "ether_frame mac NET_PROTOCOL_IP (contents (snd p))"
  have p: "h_bufs (mheap s) (fst p) = Some (snd p)" "frame_room (snd p)" "fst p \<notin> fst ` set ps"
    using Cons.prems(1) by (auto simp: slot_queue_def)
  then have "get_buf ?s1 (Heapbuf (fst p)) = Inr (snd p)" by (simp add: h1)
  note out = ethernet_out_spec [OF this p(2), of mac NET_PROTOCOL_IP]
  let ?h2 = "h1\<lparr>h_bufs := (h_bufs h1)(fst p \<mapsto> frame_buf (snd p) mac NET_PROTOCOL_IP)\<rparr>"
  let ?s2 = "?s1\<lparr>mheap := ?h2, sent := sent s @ [?f]\<rparr>"
  have out: "ethernet_out ?s1 (Heapbuf (fst p)) mac NET_PROTOCOL_IP = Inr ?s2"
    using out by (simp add: put_buf_def)
  have dist: "n \<notin> set as'" using Cons.prems(1) by (simp add: slot_queue_def queue_at_def as)
  have "slot_queue ?h2 q1 as' ps"
  proof (rule slot_queue_frame [OF sq1])
    show "h_bufs ?h2 a = h_bufs h1 a" if "a \<in> fst ` set ps" for a
      using p(3) that by (cases "a = fst p") auto
  qed simp_all
  then have "slot_queue (mheap ?s2) (map_val (arp_buf ?s2) i) as' ps" by simp
  from Cons.IH [OF this fuel(2)] obtain s' q where IH: "arp_flush fuel' ?s2 i mac = Inr s'"
    "s' = ?s2\<lparr>mheap := mheap s', arp_buf := map_poke (arp_buf ?s2) i q,
        sent := sent ?s2 @ map (\<lambda>p. ether_frame mac NET_PROTOCOL_IP (contents (snd p))) ps\<rparr>"
    "slot_queue (mheap s') q [] []" "h_next (mheap s') = h_next (mheap s)"
    "\<forall>a. a \<notin> set as' \<longrightarrow> h_nodes (mheap s') a = h_nodes h1 a"
    "\<forall>a \<in> set as'. h_nodes (mheap s') a = None"
    "\<forall>a. a \<notin> fst ` set ps \<longrightarrow> h_bufs (mheap s') a = h_bufs ?h2 a"
    "\<forall>a. h_bufs (mheap s') a = None \<longleftrightarrow> h_bufs ?h2 a = None"
    by (auto simp: h1)
  have "arp_flush fuel s i mac = Inr s'"
    using IH(1) out by (simp add: fuel(1) pop Let_def)
  moreover have "s' = s\<lparr>mheap := mheap s', arp_buf := map_poke (arp_buf s) i q,
        sent := sent s @ map (\<lambda>p. ether_frame mac NET_PROTOCOL_IP (contents (snd p))) (p # ps)\<rparr>"
    by (subst IH(2)) simp
  moreover have "(\<forall>a. a \<notin> set as \<longrightarrow> h_nodes (mheap s') a = h_nodes (mheap s) a) \<and>
      (\<forall>a \<in> set as. h_nodes (mheap s') a = None)"
    using IH(5,6) h1(3,4) dist by (auto simp: as)
  moreover have "(\<forall>a. a \<notin> fst ` set (p # ps) \<longrightarrow> h_bufs (mheap s') a = h_bufs (mheap s) a) \<and>
      (\<forall>a. h_bufs (mheap s') a = None \<longleftrightarrow> h_bufs (mheap s) a = None)"
    using IH(7,8) p(1) by (auto simp: h1)
  ultimately show ?case
    using IH(3,4) by blast
qed

subsection \<open>The invariant\<close>

text \<open>
  \<open>pend m now h N P\<close>: every live slot \<open>i\<close> of the pending table holds a non-empty queue with the
  nodes \<open>N i\<close> and the buffers \<open>P i\<close>, and no node or buffer belongs to two slots.
\<close>

definition pend ::
  "(ip_addr, queue_t) map_t \<Rightarrow> int \<Rightarrow> heap \<Rightarrow> (nat \<Rightarrow> nat list) \<Rightarrow> (nat \<Rightarrow> (nat \<times> buf_t) list) \<Rightarrow> bool"
  where
  "pend m now h N P \<longleftrightarrow>
     (\<forall>i. map_live m now i \<longrightarrow> slot_queue h (map_val m i) (N i) (P i) \<and> P i \<noteq> []) \<and>
     (\<forall>i j. map_live m now i \<longrightarrow> map_live m now j \<longrightarrow> i \<noteq> j \<longrightarrow>
        set (N i) \<inter> set (N j) = {} \<and> fst ` set (P i) \<inter> fst ` set (P j) = {})"

definition arp_inv :: "net \<Rightarrow> bool" where
  "arp_inv s \<longleftrightarrow>
     map_inv (clock s) (arp_table s) \<and> map_inv (clock s) (arp_buf s) \<and> m_timeout (arp_buf s) = 0 \<and>
     heap_bounded (mheap s) \<and> (\<exists>N P. pend (arp_buf s) (clock s) (mheap s) N P)"

text \<open>\<open>arp_pending s ip bs\<close>: the packets waiting for \<open>ip\<close> are \<open>bs\<close>, oldest first.\<close>

definition arp_pending :: "net \<Rightarrow> ip_addr \<Rightarrow> buf_t list \<Rightarrow> bool" where
  "arp_pending s ip bs \<longleftrightarrow>
     (\<exists>N P. pend (arp_buf s) (clock s) (mheap s) N P \<and>
        bs = (case map_get (arp_buf s) (clock s) (Some ip) of None \<Rightarrow> [] | Some i \<Rightarrow> map snd (P i)))"

lemma pend_upd:
  assumes pend: "pend m now h N P" and hb: "heap_bounded h" and mono: "h_next h \<le> h_next h'"
    and live: "\<And>j. map_live m' now j \<longleftrightarrow> j = i \<or> map_live m now j"
    and val: "map_val m' i = q" "\<And>j. j \<noteq> i \<Longrightarrow> map_val m' j = map_val m j"
    and sq: "slot_queue h' q ns ps" "ps \<noteq> []"
    and bufs: "\<And>x. x < h_next h \<Longrightarrow> h_bufs h' x = h_bufs h x"
    and nodes: "\<And>x. x < h_next h \<Longrightarrow> \<not> (map_live m now i \<and> x \<in> set (N i)) \<Longrightarrow> h_nodes h' x = h_nodes h x"
    and ns: "\<And>x. x \<in> set ns \<Longrightarrow> h_next h \<le> x \<or> map_live m now i \<and> x \<in> set (N i)"
    and ps: "\<And>x. x \<in> fst ` set ps \<Longrightarrow> h_next h \<le> x \<or> map_live m now i \<and> x \<in> fst ` set (P i)"
  shows "pend m' now h' (N(i := ns)) (P(i := ps))"
proof -
  have old: "slot_queue h (map_val m j) (N j) (P j)" "P j \<noteq> []" if "map_live m now j" for j
    using pend that by (auto simp: pend_def)
  have disj: "set (N j) \<inter> set (N k) = {}" "fst ` set (P j) \<inter> fst ` set (P k) = {}"
    if "map_live m now j" "map_live m now k" "j \<noteq> k" for j k
    using pend that by (auto simp: pend_def)
  have less: "x < h_next h" if "map_live m now j" "x \<in> set (N j) \<or> x \<in> fst ` set (P j)" for j x
    using slot_queue_node_less [OF old(1) [OF that(1)]] slot_queue_buf_less [OF old(1) [OF that(1)] hb]
      that(2) by blast
  have "slot_queue h' (map_val m' j) (N j) (P j)" if j: "map_live m now j" "j \<noteq> i" for j
    unfolding val(2) [OF j(2)]
  proof (rule slot_queue_frame [OF old(1) [OF j(1)]])
    show "h_nodes h' x = h_nodes h x" if "x \<in> set (N j)" for x
      using disj(1) [OF j(1) _ j(2)] less [OF j(1)] that by (intro nodes) blast+
    show "h_bufs h' x = h_bufs h x" if "x \<in> fst ` set (P j)" for x
      using less [OF j(1)] that by (intro bufs) blast
  qed (rule mono)
  moreover have "set ns \<inter> set (N j) = {}" "fst ` set ps \<inter> fst ` set (P j) = {}"
    if j: "map_live m now j" "j \<noteq> i" for j
    using ns ps disj [OF j(1) _ j(2)] less [OF j(1)] by (meson disjoint_iff not_le)+
  ultimately show ?thesis
    using old(2) disj sq val(1) unfolding pend_def live by (auto simp: Int_commute)
qed

lemma pend_delete:
  assumes pend: "pend m now h N P" and mono: "h_next h \<le> h_next h'"
    and live: "\<And>j. map_live m' now j \<longleftrightarrow> j \<noteq> i \<and> map_live m now j" and i: "map_live m now i"
    and val: "\<And>j. j \<noteq> i \<Longrightarrow> map_val m' j = map_val m j"
    and bufs: "\<And>x. x \<notin> fst ` set (P i) \<Longrightarrow> h_bufs h' x = h_bufs h x"
    and nodes: "\<And>x. x \<notin> set (N i) \<Longrightarrow> h_nodes h' x = h_nodes h x"
  shows "pend m' now h' N P"
proof -
  have "slot_queue h' (map_val m' j) (N j) (P j)" if j: "map_live m now j" "j \<noteq> i" for j
    unfolding val [OF j(2)]
  proof (rule slot_queue_frame [where h = h])
    have "set (N j) \<inter> set (N i) = {}" "fst ` set (P j) \<inter> fst ` set (P i) = {}"
      using pend i j by (auto simp: pend_def)
    then show "x \<in> set (N j) \<Longrightarrow> h_nodes h' x = h_nodes h x"
      and "x \<in> fst ` set (P j) \<Longrightarrow> h_bufs h' x = h_bufs h x" for x
      using bufs nodes by (meson disjoint_iff)+
    show "slot_queue h (map_val m j) (N j) (P j)"
      using pend j by (auto simp: pend_def)
  qed (rule mono)
  with pend show ?thesis
    unfolding pend_def live by blast
qed

lemma buf_copy_id: "frame_room b \<Longrightarrow> buf_copy fresh_buf b = Inr b"
  by (cases b) (auto simp: buf_copy_def frame_room_def fresh_buf_def guard_else_def)

lemma arp_out_known:
  assumes "map_lookup (clock s) (arp_table s) ip = Some mac"
  shows "arp_out s r ip = ethernet_out s r mac NET_PROTOCOL_IP"
  using assms by (auto simp: arp_out_def map_lookup_def map_val_def)

definition arp_request_frame :: "ip_addr \<Rightarrow> u8 list" where
  "arp_request_frame ip =
     ether_frame net_broadcast_mac NET_PROTOCOL_ARP (arp_body (arp_request_pkt ip))"

text \<open>A packet for an address already under resolution joins the queue and nothing is sent.\<close>

lemma arp_out_again:
  assumes inv: "arp_inv s" and get: "get_buf s r = Inr b" and room: "frame_room b"
    and miss: "map_lookup (clock s) (arp_table s) ip = None"
    and pend: "pend (arp_buf s) (clock s) (mheap s) N P"
    and i: "map_get (arp_buf s) (clock s) (Some ip) = Some i"
  obtains s' ns where "arp_out s r ip = Inr s'"
    and "s' = s\<lparr>mheap := mheap s', arp_buf := arp_buf s'\<rparr>" and "arp_inv s'"
    and "pend (arp_buf s') (clock s) (mheap s') (N(i := ns)) (P(i := P i @ [(h_next (mheap s), b)]))"
    and "map_get (arp_buf s') (clock s) (Some ip) = Some i"
    and "m_size (arp_buf s') = m_size (arp_buf s)"
proof -
  have hb: "heap_bounded (mheap s)" and mi: "map_inv (clock s) (arp_buf s)"
    using inv by (simp_all add: arp_inv_def)
  have live: "map_live (arp_buf s) (clock s) i" using i by (rule map_get_live)
  then have sq: "slot_queue (mheap s) (map_val (arp_buf s) i) (N i) (P i)" and ne: "P i \<noteq> []"
    using pend by (auto simp: pend_def)
  obtain h1 a where alloc: "malloc_buf (mheap s) b = (h1, a)" by force
  obtain h2 q' n where push: "queue_push h1 (Some (map_val (arp_buf s) i)) (Some a) = Inr (h2, q')"
    and sq': "slot_queue h2 q' (N i @ [n]) (P i @ [(a, b)])" and hb': "heap_bounded h2"
    and le: "h_next (mheap s) \<le> h_next h2" and n: "h_next (mheap s) \<le> n" and a: "a = h_next (mheap s)"
    and bufs: "\<And>x. x < h_next (mheap s) \<Longrightarrow> h_bufs h2 x = h_bufs (mheap s) x"
    and nodes: "\<And>x. x < h_next (mheap s) \<Longrightarrow> x \<notin> set (N i) \<Longrightarrow> h_nodes h2 x = h_nodes (mheap s) x"
    using slot_queue_push [OF sq ne hb room alloc] by metis
  let ?s = "s\<lparr>mheap := h2, arp_buf := map_poke (arp_buf s) i q'\<rparr>"
  have out: "arp_out s r ip = Inr ?s"
    using miss i get by (simp add: arp_out_def map_lookup_None_iff buf_copy_id room alloc push)
  have "pend (map_poke (arp_buf s) i q') (clock s) h2
      (N(i := N i @ [n])) (P(i := P i @ [(a, b)]))"
    by (rule pend_upd [OF pend hb le _ _ _ sq']) (use live n bufs nodes in \<open>auto simp: a\<close>)
  moreover from this have "arp_inv ?s"
    using inv mi hb' by (auto simp: arp_inv_def)
  ultimately show thesis
    using i by (intro that [OF out]) (simp_all add: a)
qed

text \<open>The first packet for an unknown address opens a queue and sends the request.\<close>

lemma arp_out_first:
  assumes inv: "arp_inv s" and get: "get_buf s r = Inr b" and room: "frame_room b"
    and miss: "map_lookup (clock s) (arp_table s) ip = None"
    and pend: "pend (arp_buf s) (clock s) (mheap s) N P"
    and none: "map_get (arp_buf s) (clock s) (Some ip) = None"
    and size: "m_size (arp_buf s) < m_max_size (arp_buf s)"
  obtains s' i ns where "arp_out s r ip = Inr s'"
    and "s' = s\<lparr>mheap := mheap s', arp_buf := arp_buf s', txbuf := txbuf s',
           sent := sent s @ [arp_request_frame ip]\<rparr>" and "arp_inv s'"
    and "pend (arp_buf s') (clock s) (mheap s') (N(i := ns)) (P(i := [(h_next (mheap s), b)]))"
    and "map_get (arp_buf s') (clock s) (Some ip) = Some i"
    and "m_size (arp_buf s') = Suc (m_size (arp_buf s))"
proof -
  have hb: "heap_bounded (mheap s)" and mi: "map_inv (clock s) (arp_buf s)"
    using inv by (simp_all add: arp_inv_def)
  obtain h1 a where alloc: "malloc_buf (mheap s) b = (h1, a)" by force
  obtain h2 qa where new: "queue_new h1 (Some a) = (h2, qa)" by force
  obtain q n where q: "h_queues h2 qa = Some q" and sq: "slot_queue h2 q [n] [(a, b)]"
    and hb': "heap_bounded h2" and le: "h_next (mheap s) \<le> h_next h2"
    and n: "h_next (mheap s) \<le> n" and a: "a = h_next (mheap s)"
    and frame: "\<And>x. x < h_next (mheap s) \<Longrightarrow>
      h_bufs h2 x = h_bufs (mheap s) x \<and> h_nodes h2 x = h_nodes (mheap s) x"
    using slot_queue_new [OF alloc new hb room] by metis
  let ?h = "h2\<lparr>h_queues := (h_queues h2)(qa := None)\<rparr>"
  let ?m = "fst (map_set (arp_buf s) (clock s) ip q)"
  have sq': "slot_queue ?h q [n] [(a, b)]" and hb'': "heap_bounded ?h"
    using sq hb' by (simp_all add: slot_queue_def queue_at_def queue_items_def heap_bounded_def)
  from mi obtain i where i: "i < m_max_size (arp_buf s)" "\<not> map_live (arp_buf s) (clock s) i"
    and set: "map_set (arp_buf s) (clock s) ip q = ((arp_buf s)\<lparr>m_data := (m_data (arp_buf s))(i :=
        \<lparr>ent_key = ip, ent_val = q, ent_time = clock s\<rparr>), m_size := m_size (arp_buf s) + 1\<rparr>, 0)"
  proof (cases rule: map_set_cases [where k = ip and v = q])
    case (hit j)
    with none show ?thesis by simp
  next
    case (miss j)
    then show ?thesis by (intro that [of j])
  next
    case full
    with size show ?thesis by simp
  qed
  have valid: "map_entry_valid (arp_buf s) (clock s) \<lparr>ent_key = ip, ent_val = q, ent_time = clock s\<rparr>"
    by (rule map_entry_valid_now [OF mi])
  have live: "map_live ?m (clock s) j \<longleftrightarrow> j = i \<or> map_live (arp_buf s) (clock s) j" for j
    using i(1) valid by (simp add: set map_live_upd)
  have val: "map_val ?m j = (if j = i then q else map_val (arp_buf s) j)" for j
    by (simp add: set map_val_def)
  have mi': "map_inv (clock s) ?m" by (rule map_inv_set [OF mi])
  have pend': "pend ?m (clock s) ?h (N(i := [n])) (P(i := [(a, b)]))"
    by (rule pend_upd [OF pend hb _ live _ _ sq']) (use le n frame i(2) in \<open>auto simp: val a\<close>)
  have get_i: "map_get ?m (clock s) (Some ip) = Some i"
    using mi' live by (simp add: map_get_inv_iff) (simp add: set)
  let ?s = "s\<lparr>mheap := ?h, arp_buf := ?m\<rparr>"
  have "arp_out s r ip = arp_req ?s ip"
    using miss none get by (simp add: arp_out_def map_lookup_None_iff buf_copy_id room alloc new q)
  then have out: "arp_out s r ip = Inr (?s\<lparr>txbuf := frame_buf (arp_txbuf ?s (arp_request_pkt ip))
      net_broadcast_mac NET_PROTOCOL_ARP, sent := sent s @ [arp_request_frame ip]\<rparr>)"
    by (simp add: arp_req_spec arp_request_frame_def)
  show thesis
    using inv mi' hb'' pend' get_i by (intro that [OF out, of i "[n]"]) (auto simp: arp_inv_def a set)
qed

text \<open>A reply for this host, as \<open>arp_in\<close> recognises it.\<close>

definition arp_is_reply :: "arp_pkt \<Rightarrow> bool" where
  "arp_is_reply p \<longleftrightarrow> pro_type16 p = swap16 NET_PROTOCOL_IP \<and> hw_len p = 6 \<and> pro_len p = 4 \<and>
     opcode16 p = swap16 ARP_REPLY \<and> target_ip p = net_if_ip \<and> target_mac p = net_if_mac"

definition arp_is_request :: "arp_pkt \<Rightarrow> bool" where
  "arp_is_request p \<longleftrightarrow> pro_type16 p = swap16 NET_PROTOCOL_IP \<and> hw_len p = 6 \<and> pro_len p = 4 \<and>
     opcode16 p = swap16 ARP_REQUEST \<and> target_ip p = net_if_ip"

lemma swap16_inject [simp]: "swap16 x = swap16 y \<longleftrightarrow> x = y"
  by (metis swap16_swap16)

lemma arp_reply_not_request: "arp_is_reply p \<Longrightarrow> \<not> arp_is_request p"
  by (simp add: arp_is_reply_def arp_is_request_def ARP_REPLY_def ARP_REQUEST_def)

definition arp_learn :: "net \<Rightarrow> arp_pkt \<Rightarrow> net" where
  "arp_learn s p =
     s\<lparr>arp_table := fst (map_set (arp_table s) (clock s) (sender_ip p) (sender_mac p))\<rparr>"

text \<open>The four outcomes of \<open>arp_in\<close>.\<close>

lemma arp_in_cases:
  assumes "get_buf s r = Inr b" and "buf_ok b"
  shows "arp_in s r src =
    (let p = arp_dec (take 28 (contents b)) in
     if buf_len b < 28 then Inr s
     else if arp_is_reply p then
       (case map_get (arp_buf s) (clock s) (Some (sender_ip p)) of
          None \<Rightarrow> Inr (arp_learn s p)
        | Some i \<Rightarrow>
            ebind (arp_flush (Suc (h_next (mheap s))) (arp_learn s p) i (sender_mac p)) (\<lambda>s2.
            let s3 = s2\<lparr>arp_buf := map_delete (arp_buf s2) (clock s2) (sender_ip p)\<rparr> in
            ebind (queue_free_data (mheap s3) (Some (map_val (arp_buf s3) i)) True) (\<lambda>h.
            Inr (s3\<lparr>mheap := h\<rparr>))))
     else if arp_is_request p then arp_resp (arp_learn s p) (sender_ip p) (sender_mac p)
     else Inr s)"
proof (cases "buf_len b < 28")
  case False
  then have "mem_read s r (buf_data b) 28 = Inr (take 28 (contents b))"
    using assms by (simp add: mem_read_get buf_read_contents)
  with False assms(1) show ?thesis
    by (auto simp: arp_in_def Let_def arp_is_reply_def arp_is_request_def arp_learn_def
        intro: arg_cong split: option.split)
qed (simp add: arp_in_def assms(1))

text \<open>A reply for an address with waiting packets sends them and closes the queue.\<close>

lemma arp_in_flush:
  assumes inv: "arp_inv s" and get: "get_buf s r = Inr b" and ok: "buf_ok b" and len: "28 \<le> buf_len b"
    and p: "arp_dec (take 28 (contents b)) = p" and reply: "arp_is_reply p"
    and pend: "pend (arp_buf s) (clock s) (mheap s) N P"
    and i: "map_get (arp_buf s) (clock s) (Some (sender_ip p)) = Some i"
  obtains s' where "arp_in s r src = Inr s'" and "arp_inv s'"
    and "s' = s\<lparr>mheap := mheap s', arp_buf := arp_buf s', arp_table := arp_table (arp_learn s p),
           sent := sent s @ map (\<lambda>b. ether_frame (sender_mac p) NET_PROTOCOL_IP (contents b)) (map snd (P i))\<rparr>"
    and "map_get (arp_buf s') (clock s) (Some (sender_ip p)) = None"
    and "pend (arp_buf s') (clock s) (mheap s') N P"
    and "\<forall>a. h_bufs (mheap s') a = None \<longleftrightarrow> h_bufs (mheap s) a = None"
    and "\<forall>a \<in> set (N i). h_nodes (mheap s') a = None"
proof -
  let ?s1 = "arp_learn s p" and ?now = "clock s"
  have hb: "heap_bounded (mheap s)" and mi: "map_inv ?now (arp_buf s)"
    using inv by (simp_all add: arp_inv_def)
  have live: "map_live (arp_buf s) ?now i" using i by (rule map_get_live)
  then have sq: "slot_queue (mheap s) (map_val (arp_buf s) i) (N i) (P i)"
    using pend by (auto simp: pend_def)
  have "length (N i) = card (set (N i))"
    using sq by (simp add: slot_queue_def queue_at_def distinct_card)
  also have "\<dots> \<le> card {..< h_next (mheap s)}"
    using slot_queue_node_less [OF sq] by (intro card_mono) auto
  finally have len': "length (P i) < Suc (h_next (mheap s))"
    using slot_queue_length [OF sq] by simp
  have "slot_queue (mheap ?s1) (map_val (arp_buf ?s1) i) (N i) (P i)"
    using sq by (simp add: arp_learn_def)
  from arp_flush_spec [OF this len', of "sender_mac p"] obtain s2 q where
    flush: "arp_flush (Suc (h_next (mheap s))) ?s1 i (sender_mac p) = Inr s2"
    and s2: "s2 = ?s1\<lparr>mheap := mheap s2, arp_buf := map_poke (arp_buf ?s1) i q,
      sent := sent ?s1 @ map (\<lambda>x. ether_frame (sender_mac p) NET_PROTOCOL_IP (contents (snd x))) (P i)\<rparr>"
    and empty: "slot_queue (mheap s2) q [] []" and next2: "h_next (mheap s2) = h_next (mheap s)"
    and nodes2: "\<forall>a. a \<notin> set (N i) \<longrightarrow> h_nodes (mheap s2) a = h_nodes (mheap s) a"
      "\<forall>a \<in> set (N i). h_nodes (mheap s2) a = None"
    and bufs2: "\<forall>a. a \<notin> fst ` set (P i) \<longrightarrow> h_bufs (mheap s2) a = h_bufs (mheap s) a"
      "\<forall>a. h_bufs (mheap s2) a = None \<longleftrightarrow> h_bufs (mheap s) a = None"
    by (auto simp: arp_learn_def)
  have s2_fields: "arp_buf s2 = map_poke (arp_buf s) i q" "clock s2 = ?now"
    by (subst s2, simp add: arp_learn_def)+
  let ?m = "map_delete (arp_buf s2) ?now (sender_ip p)"
  have mi2: "map_inv ?now (arp_buf s2)" and i2: "map_get (arp_buf s2) ?now (Some (sender_ip p)) = Some i"
    using mi i by (simp_all add: s2_fields)
  note del = map_live_delete [OF mi2 i2]
  have q: "map_val ?m i = q" using del(2) by (simp add: s2_fields)
  have "queue_at (mheap s2) q []" using empty by (simp add: slot_queue_Nil)
  from queue_free_data_nothing [OF this]
  have free: "queue_free_data (mheap s2) (Some q) True = Inr (mheap s2)" .
  let ?s3 = "s2\<lparr>arp_buf := ?m\<rparr>"
  have "arp_in s r src = ebind (queue_free_data (mheap s2) (Some (map_val ?m i)) True)
      (\<lambda>h. Inr (?s3\<lparr>mheap := h\<rparr>))"
    using arp_in_cases [OF get ok] len reply i flush by (simp add: p Let_def s2_fields(2))
  then have out: "arp_in s r src = Inr ?s3"
    by (simp add: q free)
  have "pend ?m ?now (mheap s2) N P"
  proof (rule pend_delete [OF pend])
    show "map_live ?m ?now j \<longleftrightarrow> j \<noteq> i \<and> map_live (arp_buf s) ?now j" for j
      using del(1) [of j] by (simp add: s2_fields)
    show "map_val ?m j = map_val (arp_buf s) j" if "j \<noteq> i" for j
      using del(2) [of j] that by (simp add: s2_fields)
  qed (use live next2 nodes2 bufs2 in auto)
  moreover have "map_inv ?now ?m" "m_timeout ?m = 0"
    using map_inv_delete [OF mi2] inv by (simp_all add: arp_inv_def s2_fields map_delete_def split: option.splits)
  moreover have "map_inv ?now (arp_table ?s1)"
    using inv by (simp add: arp_inv_def arp_learn_def map_inv_set)
  moreover have "heap_bounded (mheap s2)"
    using hb nodes2 bufs2 next2 unfolding heap_bounded_def by metis
  moreover have "arp_table s2 = arp_table ?s1" by (subst s2) simp
  moreover have "map_get ?m ?now (Some (sender_ip p)) = None"
    using map_lookup_delete [OF mi2, of "sender_ip p"] by (simp add: map_lookup_None_iff [symmetric])
  ultimately show thesis
    using nodes2 bufs2
    by (intro that [OF out]) (auto simp: arp_inv_def s2_fields, subst s2, simp add: arp_learn_def)
qed

lemma arp_pending_iff:
  "pend (arp_buf s) (clock s) (mheap s) N P \<Longrightarrow>
    arp_pending s ip bs \<Longrightarrow>
    (case map_get (arp_buf s) (clock s) (Some ip) of None \<Rightarrow> bs = [] | Some i \<Rightarrow> bs \<noteq> [])"
  by (force simp: arp_pending_def pend_def split: option.splits dest: map_get_live)

text \<open>Both cases of a packet for an unknown address in one.\<close>

lemma arp_out_pending:
  assumes inv: "arp_inv s" and get: "get_buf s r = Inr b" and room: "frame_room b"
    and miss: "map_lookup (clock s) (arp_table s) ip = None"
    and pending: "arp_pending s ip bs" and size: "bs = [] \<Longrightarrow> m_size (arp_buf s) < m_max_size (arp_buf s)"
  shows "\<exists>s'. arp_out s r ip = Inr s' \<and> arp_inv s' \<and> arp_pending s' ip (bs @ [b]) \<and>
    sent s' = sent s @ (if bs = [] then [arp_request_frame ip] else []) \<and>
    arp_table s' = arp_table s \<and> clock s' = clock s"
proof -
  obtain N P where pend: "pend (arp_buf s) (clock s) (mheap s) N P"
    and bs: "bs = (case map_get (arp_buf s) (clock s) (Some ip) of None \<Rightarrow> [] | Some i \<Rightarrow> map snd (P i))"
    using pending by (auto simp: arp_pending_def)
  show ?thesis
  proof (cases "map_get (arp_buf s) (clock s) (Some ip)")
    case None
    with bs have Nil: "bs = []" by simp
    from arp_out_first [OF inv get room miss pend None size [OF Nil]]
    obtain s' i ns where s': "arp_out s r ip = Inr s'"
      "s' = s\<lparr>mheap := mheap s', arp_buf := arp_buf s', txbuf := txbuf s',
         sent := sent s @ [arp_request_frame ip]\<rparr>" "arp_inv s'"
      "pend (arp_buf s') (clock s) (mheap s') (N(i := ns)) (P(i := [(h_next (mheap s), b)]))"
      "map_get (arp_buf s') (clock s) (Some ip) = Some i"
      by metis
    have f: "clock s' = clock s" "arp_table s' = arp_table s" "sent s' = sent s @ [arp_request_frame ip]"
      by (subst s'(2), simp)+
    have "arp_pending s' ip [b]"
      unfolding arp_pending_def f(1) using s'(4,5)
      by (intro exI [of _ "N(i := ns)"] exI [of _ "P(i := [(h_next (mheap s), b)])"]) simp
    with s'(1,3) f Nil show ?thesis by simp
  next
    case (Some i)
    from arp_out_again [OF inv get room miss pend Some]
    obtain s' ns where s': "arp_out s r ip = Inr s'"
      "s' = s\<lparr>mheap := mheap s', arp_buf := arp_buf s'\<rparr>" "arp_inv s'"
      "pend (arp_buf s') (clock s) (mheap s') (N(i := ns)) (P(i := P i @ [(h_next (mheap s), b)]))"
      "map_get (arp_buf s') (clock s) (Some ip) = Some i"
      by metis
    have f: "clock s' = clock s" "arp_table s' = arp_table s" "sent s' = sent s"
      by (subst s'(2), simp)+
    have "bs \<noteq> []" using arp_pending_iff [OF pend pending] Some by simp
    moreover have "arp_pending s' ip (bs @ [b])"
      unfolding arp_pending_def f(1) using s'(4,5) bs Some
      by (intro exI [of _ "N(i := ns)"] exI [of _ "P(i := P i @ [(h_next (mheap s), b)])"]) simp
    ultimately show ?thesis using s'(1,3) f by simp
  qed
qed

text \<open>Both cases of a reply in one.\<close>

lemma arp_in_reply:
  assumes inv: "arp_inv s" and get: "get_buf s r = Inr b" and ok: "buf_ok b" and len: "28 \<le> buf_len b"
    and p: "arp_dec (take 28 (contents b)) = p" and reply: "arp_is_reply p"
    and pending: "arp_pending s (sender_ip p) bs"
  shows "\<exists>s'. arp_in s r src = Inr s' \<and> arp_inv s' \<and> arp_pending s' (sender_ip p) [] \<and>
    sent s' = sent s @ map (\<lambda>b. ether_frame (sender_mac p) NET_PROTOCOL_IP (contents b)) bs \<and>
    arp_table s' = arp_table (arp_learn s p) \<and>
    (\<forall>a. h_bufs (mheap s') a = None \<longleftrightarrow> h_bufs (mheap s) a = None)"
proof -
  obtain N P where pend: "pend (arp_buf s) (clock s) (mheap s) N P"
    and bs: "bs = (case map_get (arp_buf s) (clock s) (Some (sender_ip p)) of
        None \<Rightarrow> [] | Some i \<Rightarrow> map snd (P i))"
    using pending by (auto simp: arp_pending_def)
  show ?thesis
  proof (cases "map_get (arp_buf s) (clock s) (Some (sender_ip p))")
    case None
    have f: "arp_buf (arp_learn s p) = arp_buf s" "clock (arp_learn s p) = clock s"
      "mheap (arp_learn s p) = mheap s" "sent (arp_learn s p) = sent s"
      by (simp_all add: arp_learn_def)
    have "arp_in s r src = Inr (arp_learn s p)"
      using arp_in_cases [OF get ok] len reply None by (simp add: p Let_def)
    moreover have "arp_inv (arp_learn s p)"
      using inv by (simp add: arp_inv_def f) (simp add: arp_learn_def map_inv_set)
    moreover have "arp_pending (arp_learn s p) (sender_ip p) []"
      unfolding arp_pending_def f using pend None by auto
    ultimately show ?thesis using bs None by (simp add: f)
  next
    case (Some i)
    from arp_in_flush [OF inv get ok len p reply pend Some, of src]
    obtain s' where s': "arp_in s r src = Inr s'" "arp_inv s'"
      "s' = s\<lparr>mheap := mheap s', arp_buf := arp_buf s', arp_table := arp_table (arp_learn s p),
         sent := sent s @ map (\<lambda>b. ether_frame (sender_mac p) NET_PROTOCOL_IP (contents b)) (map snd (P i))\<rparr>"
      "map_get (arp_buf s') (clock s) (Some (sender_ip p)) = None"
      "pend (arp_buf s') (clock s) (mheap s') N P"
      "\<forall>a. h_bufs (mheap s') a = None \<longleftrightarrow> h_bufs (mheap s) a = None"
      by metis
    have f: "clock s' = clock s" "arp_table s' = arp_table (arp_learn s p)"
      "sent s' = sent s @ map (\<lambda>b. ether_frame (sender_mac p) NET_PROTOCOL_IP (contents b)) (map snd (P i))"
      by (subst s'(3), simp)+
    have "arp_pending s' (sender_ip p) []"
      unfolding arp_pending_def f(1) using s'(4,5) by auto
    with s' f bs Some show ?thesis by simp
  qed
qed

lemma arp_learn_lookup:
  assumes "arp_inv s"
  shows "map_lookup (clock s) (arp_table (arp_learn s p)) (sender_ip p) = Some (sender_mac p) \<or>
    m_size (arp_table s) = m_max_size (arp_table s)"
proof -
  have "map_inv (clock s) (arp_table s)" using assms by (simp add: arp_inv_def)
  from nm.set_status [OF this, of "sender_ip p" "sender_mac p"]
    nm.lookup_set [OF this, of "sender_ip p" "sender_mac p"]
  show ?thesis by (simp add: arp_learn_def split: if_splits)
qed

lemma arp_inv_bufs [simp]:
  "arp_inv (s\<lparr>rxbuf := b\<rparr>) = arp_inv s" "arp_inv (s\<lparr>txbuf := b\<rparr>) = arp_inv s"
  "arp_pending (s\<lparr>rxbuf := b\<rparr>) ip bs = arp_pending s ip bs"
  "arp_pending (s\<lparr>txbuf := b\<rparr>) ip bs = arp_pending s ip bs"
  by (simp_all add: arp_inv_def arp_pending_def)

lemma arp_inv_demo: "arp_inv demo_state"
proof -
  have "arp_buf demo_state = map_init \<lparr>ent_key = (0, 0, 0, 0), ent_val = \<lparr>q_head = None, q_tail = None\<rparr>,
      ent_time = 0\<rparr> 4 16 0 0 None"
    by (simp add: demo_state_def map_init_def queue_copy_def fun_eq_iff)
  then have "map_inv 1 (arp_buf demo_state)" "\<And>i. \<not> map_live (arp_buf demo_state) 1 i"
    "m_timeout (arp_buf demo_state) = 0"
    by (simp_all add: map_inv_init)
  moreover have "map_inv 1 (arp_table demo_state)" "clock demo_state = 1" "mheap demo_state = heap_empty"
    by (simp_all add: demo_state_def map_inv_init ARP_TIMEOUT_SEC_def)
  ultimately show ?thesis
    by (auto simp: arp_inv_def pend_def heap_bounded_def heap_empty_def)
qed

lemma arp_tables_demo:
  "map_lookup (clock demo_state) (arp_table demo_state) ip = None"
  "arp_pending demo_state ip []"
  "m_size (arp_buf demo_state) < m_max_size (arp_buf demo_state)"
proof -
  have "map_get (arp_buf demo_state) (clock demo_state) (Some ip) = None"
    by (simp add: demo_state_def map_get_None_iff)
  then show "arp_pending demo_state ip []"
    using arp_inv_demo by (auto simp: arp_inv_def arp_pending_def)
qed (simp_all add: demo_state_def map_init_def MAP_MAX_LEN_def map_lookup_None_iff map_get_None_iff
      map_live_def map_entry_valid_def)

lemma wire_bytes:
  "u16_bytes (swap16 NET_PROTOCOL_ARP) = [8, 6]" "u16_bytes (swap16 0x0800) = [8, 0]"
  "u16_bytes (swap16 1) = [0, 1]" "u16_bytes (swap16 2) = [0, 2]"
  unfolding swap16_bytes by (simp_all add: u16_bytes_def NET_PROTOCOL_ARP_def)

lemma mac_zero: "mac_bytes (0, 0, 0, 0, 0, 0) = replicate 6 0"
  by (simp add: numeral_eq_Suc)

lemmas arp_wire_simps = ether_frame_def ether_enc_def arp_body_def arp_enc_def wire_bytes
  arp_request_pkt_def arp_reply_pkt_def mac_zero

subsection \<open>Properties of address resolution\<close>

text \<open>A request is one broadcast Ethernet frame of 60 bytes asking for the given address with
  this host's addresses as the sender, byte for byte; it is sent whatever the state, and apart
  from the transmit buffer nothing changes.\<close>

lemma arp_req_wire:
  "\<exists>s'. arp_req s ip = Inr s' \<and> s' = s\<lparr>txbuf := txbuf s', sent := sent s'\<rparr> \<and>
    sent s' = sent s @ [[0xff, 0xff, 0xff, 0xff, 0xff, 0xff] @ mac_bytes net_if_mac @ [0x08, 0x06] @
      [0, 1, 8, 0, 6, 4, 0, 1] @ mac_bytes net_if_mac @ ip_bytes net_if_ip @ replicate 6 0 @
      ip_bytes ip @ replicate 18 0]"
  by (simp add: arp_req_spec arp_wire_simps del: mac_bytes.simps) (simp add: net_broadcast_mac_def)

text \<open>C13. A request for this host's address is answered: the sender is learnt, and exactly one
  frame goes out, a reply to the sender's hardware address that gives this host's.\<close>

theorem arp_request_answered:
  assumes "arp_inv s" and "get_buf s r = Inr b" and "buf_ok b" and "28 \<le> buf_len b"
    and "arp_dec (take 28 (contents b)) = p" and "arp_is_request p"
  shows "\<exists>s'. arp_in s r src = Inr s' \<and>
    sent s' = sent s @ [mac_bytes (sender_mac p) @ mac_bytes net_if_mac @ [0x08, 0x06] @
      [0, 1, 8, 0, 6, 4, 0, 2] @ mac_bytes net_if_mac @ ip_bytes net_if_ip @
      mac_bytes (sender_mac p) @ ip_bytes (sender_ip p) @ replicate 18 0] \<and>
    (map_lookup (clock s) (arp_table s') (sender_ip p) = Some (sender_mac p) \<or>
     m_size (arp_table s) = m_max_size (arp_table s)) \<and> arp_inv s'"
proof -
  have "\<not> arp_is_reply p" using assms(6) arp_reply_not_request by blast
  then have in_eq: "arp_in s r src = arp_resp (arp_learn s p) (sender_ip p) (sender_mac p)"
    using arp_in_cases [OF assms(2,3)] assms(4-6) by (simp add: Let_def)
  have frame: "ether_frame (sender_mac p) NET_PROTOCOL_ARP (arp_body (arp_reply_pkt (sender_ip p) (sender_mac p)))
      = mac_bytes (sender_mac p) @ mac_bytes net_if_mac @ [0x08, 0x06] @
      [0, 1, 8, 0, 6, 4, 0, 2] @ mac_bytes net_if_mac @ ip_bytes net_if_ip @
      mac_bytes (sender_mac p) @ ip_bytes (sender_ip p) @ replicate 18 0"
    by (simp add: arp_wire_simps)
  have "arp_inv (arp_learn s p)"
    using assms(1) by (simp add: arp_inv_def arp_learn_def map_inv_set)
  then show ?thesis
    using arp_learn_lookup [OF assms(1), of p]
    by (simp add: in_eq arp_resp_spec frame arp_inv_def arp_learn_def)
qed

definition demo_arp :: "u16 \<Rightarrow> arp_pkt" where
  "demo_arp op = \<lparr>hw_type16 = swap16 1, pro_type16 = swap16 0x0800, hw_len = 6, pro_len = 4,
     opcode16 = swap16 op, sender_mac = (2, 0, 0, 0, 0, 9), sender_ip = (10, 0, 0, 9),
     target_mac = net_if_mac, target_ip = net_if_ip\<rparr>"

lemma demo_arp_dec: "arp_dec (take 28 (contents (demo_buf (arp_enc p)))) = p"
  by (simp add: arp.dec_enc)

lemma demo_arp_kind [simp]: "arp_is_request (demo_arp 1)" "arp_is_reply (demo_arp 2)"
  by (simp_all add: arp_is_request_def arp_is_reply_def demo_arp_def NET_PROTOCOL_IP_def
      ARP_REQUEST_def ARP_REPLY_def)

lemma demo_table_room: "m_size (arp_table demo_state) \<noteq> m_max_size (arp_table demo_state)"
  by (simp add: demo_state_def map_init_def MAP_MAX_LEN_def)

theorem arp_request_answered_witness:
  "\<exists>s'. arp_in (demo_state\<lparr>rxbuf := demo_buf (arp_enc (demo_arp 1))\<rparr>) Rxbuf [] = Inr s' \<and>
    map_lookup (clock demo_state) (arp_table s') (sender_ip (demo_arp 1)) = Some (sender_mac (demo_arp 1))"
  using arp_request_answered [of "demo_state\<lparr>rxbuf := demo_buf (arp_enc (demo_arp 1))\<rparr>" Rxbuf
      "demo_buf (arp_enc (demo_arp 1))" "demo_arp 1" "[]"]
    arp_inv_demo demo_arp_dec [of "demo_arp 1"] buf_ok_demo_buf [of "arp_enc (demo_arp 1)"]
    demo_table_room buf_len_demo_buf
  by auto

text \<open>Everything else is ignored: a packet that is too short, not ARP for IPv4 over Ethernet,
  not meant for this host, or neither a request nor a reply leaves the state as it is.\<close>

lemma arp_in_ignores:
  assumes "get_buf s r = Inr b" and "buf_ok b"
    and "buf_len b < 28 \<or> (\<not> arp_is_request (arp_dec (take 28 (contents b))) \<and>
           \<not> arp_is_reply (arp_dec (take 28 (contents b))))"
  shows "arp_in s r src = Inr s"
  using arp_in_cases [OF assms(1,2)] assms(3) by (auto simp: Let_def)

lemma arp_in_ignores_example:
  "arp_in (demo_state\<lparr>rxbuf := demo_buf (arp_enc (demo_arp 3))\<rparr>) Rxbuf [] =
    Inr (demo_state\<lparr>rxbuf := demo_buf (arp_enc (demo_arp 3))\<rparr>)"
proof -
  have "\<not> arp_is_request (demo_arp 3)" "\<not> arp_is_reply (demo_arp 3)"
    by (simp_all add: arp_is_request_def arp_is_reply_def demo_arp_def ARP_REQUEST_def ARP_REPLY_def)
  then show ?thesis
    using arp_in_ignores [of "demo_state\<lparr>rxbuf := demo_buf (arp_enc (demo_arp 3))\<rparr>" Rxbuf
        "demo_buf (arp_enc (demo_arp 3))" "[]"]
      demo_arp_dec [of "demo_arp 3"] buf_ok_demo_buf [of "arp_enc (demo_arp 3)"]
    by simp
qed

text \<open>C12. A packet whose destination is in the table leaves at once, framed for that address;
  a packet whose destination is unknown waits: a copy of it joins the pending packets of that
  address, and a request is broadcast exactly when it is the first of them.\<close>

theorem arp_out_sends_or_waits:
  assumes "arp_inv s" and "get_buf s r = Inr b" and "frame_room b" and "arp_pending s ip bs"
    and "bs = [] \<Longrightarrow> m_size (arp_buf s) < m_max_size (arp_buf s)"
  shows "\<exists>s'. arp_out s r ip = Inr s' \<and>
    (case map_lookup (clock s) (arp_table s) ip of
       Some mac \<Rightarrow> sent s' = sent s @ [ether_frame mac NET_PROTOCOL_IP (contents b)]
     | None \<Rightarrow> arp_inv s' \<and> arp_pending s' ip (bs @ [b]) \<and>
         sent s' = sent s @ (if bs = [] then [arp_request_frame ip] else []))"
proof (cases "map_lookup (clock s) (arp_table s) ip")
  case None
  from arp_out_pending [OF assms(1-3) None assms(4,5)] None show ?thesis by auto
next
  case (Some mac)
  then show ?thesis
    using arp_out_known [OF Some] ethernet_out_spec [OF assms(2,3)] by simp
qed

theorem arp_out_sends_or_waits_witness:
  "\<exists>s'. arp_out (demo_state\<lparr>txbuf := demo_buf [1, 2]\<rparr>) Txbuf (10, 0, 0, 9) = Inr s' \<and>
    arp_pending s' (10, 0, 0, 9) [demo_buf [1, 2]] \<and> length (sent s') = 1"
  using arp_out_sends_or_waits [of "demo_state\<lparr>txbuf := demo_buf [1, 2]\<rparr>" Txbuf "demo_buf [1, 2]"
      "(10, 0, 0, 9)" "[]"]
    arp_inv_demo arp_tables_demo frame_room_demo_buf [of "[1, 2]"]
  by (auto simp: demo_state_def [THEN arg_cong [where f = sent]])

text \<open>Packets handed to \<open>arp_out\<close> one after the other.\<close>

fun arp_out_all :: "net \<Rightarrow> ip_addr \<Rightarrow> buf_t list \<Rightarrow> net res" where
  "arp_out_all s ip [] = Inr s"
| "arp_out_all s ip (b # bs) =
     ebind (arp_out (s\<lparr>txbuf := b\<rparr>) Txbuf ip) (\<lambda>s'. arp_out_all s' ip bs)"

lemma arp_out_all_pending:
  "arp_inv s \<Longrightarrow> map_lookup (clock s) (arp_table s) ip = None \<Longrightarrow> arp_pending s ip (c # cs) \<Longrightarrow>
   (\<forall>b \<in> set bs. frame_room b) \<Longrightarrow>
   \<exists>s'. arp_out_all s ip bs = Inr s' \<and> arp_inv s' \<and> arp_pending s' ip (c # cs @ bs) \<and> sent s' = sent s"
proof (induction bs arbitrary: s cs)
  case (Cons b bs)
  have "arp_inv (s\<lparr>txbuf := b\<rparr>)" "arp_pending (s\<lparr>txbuf := b\<rparr>) ip (c # cs)"
    using Cons.prems by simp_all
  from arp_out_pending [OF this(1) _ _ _ this(2), of Txbuf b] Cons.prems
  obtain s1 where s1: "arp_out (s\<lparr>txbuf := b\<rparr>) Txbuf ip = Inr s1" "arp_inv s1"
    "arp_pending s1 ip (c # cs @ [b])" "sent s1 = sent s" "arp_table s1 = arp_table s" "clock s1 = clock s"
    by auto
  with Cons.IH [OF s1(2) _ s1(3)] Cons.prems show ?case by auto
qed auto

text \<open>C11. Resolution delivers. Any number of packets sent to an unresolved address put one request
  on the wire; when a reply for that address arrives, all of them leave in the order in which
  they were sent, each framed for the address learnt, and none is left waiting.\<close>

theorem arp_resolution_delivers:
  assumes inv: "arp_inv s" and miss: "map_lookup (clock s) (arp_table s) ip = None"
    and none: "arp_pending s ip []" and size: "m_size (arp_buf s) < m_max_size (arp_buf s)"
    and ne: "bs \<noteq> []" and room: "\<forall>b \<in> set bs. frame_room b"
    and reply: "buf_ok rb" "28 \<le> buf_len rb" "arp_is_reply (arp_dec (take 28 (contents rb)))"
      "sender_ip (arp_dec (take 28 (contents rb))) = ip"
      "sender_mac (arp_dec (take 28 (contents rb))) = mac"
  shows "\<exists>s1 s2. arp_out_all s ip bs = Inr s1 \<and> sent s1 = sent s @ [arp_request_frame ip] \<and>
    arp_in (s1\<lparr>rxbuf := rb\<rparr>) Rxbuf src = Inr s2 \<and>
    sent s2 = sent s1 @ map (\<lambda>b. ether_frame mac NET_PROTOCOL_IP (contents b)) bs \<and>
    arp_pending s2 ip []"
proof -
  obtain b bs' where bs: "bs = b # bs'" using ne by (cases bs) auto
  have "arp_inv (s\<lparr>txbuf := b\<rparr>)" "arp_pending (s\<lparr>txbuf := b\<rparr>) ip []"
    using inv none by simp_all
  from arp_out_pending [OF this(1) _ _ _ this(2), of Txbuf b] size miss room
  obtain s0 where s0: "arp_out (s\<lparr>txbuf := b\<rparr>) Txbuf ip = Inr s0" "arp_inv s0" "arp_pending s0 ip [b]"
    "sent s0 = sent s @ [arp_request_frame ip]" "arp_table s0 = arp_table s" "clock s0 = clock s"
    by (auto simp: bs)
  obtain s1 where s1: "arp_out_all s ip bs = Inr s1" "arp_inv s1" "arp_pending s1 ip bs"
    "sent s1 = sent s @ [arp_request_frame ip]"
    using arp_out_all_pending [OF s0(2) _ s0(3), of bs'] s0 miss room by (auto simp: bs)
  have "arp_inv (s1\<lparr>rxbuf := rb\<rparr>)" "arp_pending (s1\<lparr>rxbuf := rb\<rparr>) ip bs"
    using s1 by simp_all
  from arp_in_reply [OF this(1) _ reply(1,2) refl reply(3), of Rxbuf bs src] this(2)
  show ?thesis using s1 reply(4,5) by auto
qed

theorem arp_resolution_delivers_witness:
  "\<exists>s1 s2. arp_out_all demo_state (10, 0, 0, 9) [demo_buf [1], demo_buf [2]] = Inr s1 \<and>
    sent s1 = sent demo_state @ [arp_request_frame (10, 0, 0, 9)] \<and>
    arp_in (s1\<lparr>rxbuf := demo_buf (arp_enc (demo_arp 2))\<rparr>) Rxbuf [] = Inr s2 \<and>
    sent s2 = sent s1 @ [ether_frame (2, 0, 0, 0, 0, 9) NET_PROTOCOL_IP [1],
      ether_frame (2, 0, 0, 0, 0, 9) NET_PROTOCOL_IP [2]]"
proof -
  have "sender_ip (demo_arp 2) = (10, 0, 0, 9)" "sender_mac (demo_arp 2) = (2, 0, 0, 0, 0, 9)"
    by (simp_all add: demo_arp_def)
  then show ?thesis
    using arp_resolution_delivers [of demo_state "(10, 0, 0, 9)" "[demo_buf [1], demo_buf [2]]"
        "demo_buf (arp_enc (demo_arp 2))" "(2, 0, 0, 0, 0, 9)" "[]"]
      arp_inv_demo arp_tables_demo demo_arp_dec [of "demo_arp 2"]
      buf_ok_demo_buf [of "arp_enc (demo_arp 2)"] buf_len_demo_buf frame_room_demo_buf
    by auto
qed

text \<open>C38. Buffers leak: \<open>arp_in\<close> never gives a buffer back to the heap, not even those of the
  queue it has just flushed. The copies \<open>arp_out\<close> made stay allocated for ever.\<close>

theorem arp_in_frees_no_buffer:
  assumes "arp_inv s" and "get_buf s Rxbuf = Inr b" and "buf_ok b"
  shows "\<exists>s'. arp_in s Rxbuf src = Inr s' \<and>
    (\<forall>a. h_bufs (mheap s') a = None \<longleftrightarrow> h_bufs (mheap s) a = None)"
proof (cases "28 \<le> buf_len b \<and> arp_is_reply (arp_dec (take 28 (contents b)))")
  case True
  obtain N P where "pend (arp_buf s) (clock s) (mheap s) N P"
    using assms(1) by (auto simp: arp_inv_def)
  then obtain bs where "arp_pending s (sender_ip (arp_dec (take 28 (contents b)))) bs"
    by (auto simp: arp_pending_def)
  with True arp_in_reply [OF assms(1-3) _ refl, of bs src] show ?thesis by auto
next
  case False
  then show ?thesis
    using arp_in_cases [OF assms(2,3), of src]
    by (auto simp: Let_def arp_resp_spec arp_learn_def)
qed

theorem arp_in_frees_no_buffer_witness:
  "\<exists>s'. arp_in (demo_state\<lparr>rxbuf := demo_buf (arp_enc (demo_arp 2))\<rparr>) Rxbuf [] = Inr s'"
  using arp_in_frees_no_buffer [of "demo_state\<lparr>rxbuf := demo_buf (arp_enc (demo_arp 2))\<rparr>"
      "demo_buf (arp_enc (demo_arp 2))" "[]"] arp_inv_demo buf_ok_demo_buf [of "arp_enc (demo_arp 2)"]
  by auto

end
