(* ===== verification/Ip.thy ===== *)
theory Ip
  imports Arp
begin

text \<open>
  Sending IP packets (\<^verbatim>\<open>ip_out\<close> and \<^verbatim>\<open>ip_fragment_out\<close> of \<^verbatim>\<open>src/ip.c\<close>); receiving is in \<open>IpIn\<close>, since it
  needs ICMP. A packet of more than 1480 bytes is cut into fragments in place: the loop moves the
  window of the buffer through the payload and lets the lower layers write their headers over
  what has been sent already. \<open>ip_fragments\<close> is the specification, \<open>ip_out_known_spec\<close> the proof
  that the loop implements it when the destination is resolved.
\<close>

subsection \<open>The IP header\<close>

record ip_hdr =
  ih_hdr_len :: "4 word"
  ih_version :: "4 word"
  ih_tos :: u8
  ih_total_len16 :: u16
  ih_id16 :: u16
  ih_flags_fragment16 :: u16
  ih_ttl :: u8
  ih_protocol :: u8
  ih_hdr_checksum16 :: u16
  ih_src_ip :: ip_addr
  ih_dst_ip :: ip_addr

text \<open>Two bit-fields of four bits share a byte, the first one declared in the low half.\<close>

definition nibbles :: "4 word \<Rightarrow> 4 word \<Rightarrow> u8" where
  "nibbles lo hi = ucast lo OR push_bit 4 (ucast hi)"

definition lo_nibble :: "u8 \<Rightarrow> 4 word" where
  "lo_nibble b = ucast b"

definition hi_nibble :: "u8 \<Rightarrow> 4 word" where
  "hi_nibble b = ucast (drop_bit 4 b)"

lemma bit_4_word_high [simp]: "\<not> bit (w :: 4 word) (4 + n)"
  using bit_imp_le_length [of w "4 + n"] by auto

lemma nibbles_simps [simp, codec_simps]:
  "lo_nibble (nibbles lo hi) = lo" "hi_nibble (nibbles lo hi) = hi"
  by (rule bit_word_eqI; auto simp: nibbles_def lo_nibble_def hi_nibble_def bit_simps)+

lemma nibbles_id [simp, codec_simps]: "nibbles (lo_nibble b) (hi_nibble b) = b"
  by (rule bit_word_eqI) (auto simp: nibbles_def lo_nibble_def hi_nibble_def bit_simps)

definition ip_enc :: "ip_hdr \<Rightarrow> u8 list" where
  "ip_enc h =
     [nibbles (ih_hdr_len h) (ih_version h), ih_tos h] @ u16_bytes (ih_total_len16 h) @
     u16_bytes (ih_id16 h) @ u16_bytes (ih_flags_fragment16 h) @ [ih_ttl h, ih_protocol h] @
     u16_bytes (ih_hdr_checksum16 h) @ ip_bytes (ih_src_ip h) @ ip_bytes (ih_dst_ip h)"

definition ip_dec :: "u8 list \<Rightarrow> ip_hdr" where
  "ip_dec bs = \<lparr>ih_hdr_len = lo_nibble (bs ! 0), ih_version = hi_nibble (bs ! 0), ih_tos = bs ! 1,
     ih_total_len16 = le16 (bs ! 2) (bs ! 3), ih_id16 = le16 (bs ! 4) (bs ! 5),
     ih_flags_fragment16 = le16 (bs ! 6) (bs ! 7), ih_ttl = bs ! 8, ih_protocol = bs ! 9,
     ih_hdr_checksum16 = le16 (bs ! 10) (bs ! 11), ih_src_ip = ip_of (drop 12 bs),
     ih_dst_ip = ip_of (drop 16 bs)\<rparr>"

interpretation iph: fixed_codec ip_enc ip_dec 20
proof unfold_locales
  fix h
  show "length (ip_enc h) = 20" by (simp add: ip_enc_def)
  show "ip_dec (ip_enc h) = h"
    by (simp add: ip_enc_def ip_dec_def nth_append u16_bytes_def codec_simps)
next
  fix bs :: "u8 list"
  assume len: "length bs = 20"
  have split: "take k (drop n bs) @ drop (n + k) bs = drop n bs" for n k
    by (metis append_take_drop_id drop_drop add.commute)
  have two: "take 2 (drop n bs) = [bs ! n, bs ! Suc n]" if "n + 2 \<le> 20" for n
    using take_2_nth [of n bs] that len by simp
  have "bs = take 2 (drop 0 bs) @ take 2 (drop 2 bs) @ take 2 (drop 4 bs) @ take 2 (drop 6 bs) @
      take 2 (drop 8 bs) @ take 2 (drop 10 bs) @ take 4 (drop 12 bs) @ take 4 (drop 16 bs)"
    using split [of 2 0] split [of 2 2] split [of 2 4] split [of 2 6] split [of 2 8] split [of 2 10]
      split [of 4 12] split [of 4 16] len by simp
  then show "ip_enc (ip_dec bs) = bs"
    using len two [of 0] two [of 2] two [of 4] two [of 6] two [of 8] two [of 10]
    by (simp add: ip_enc_def ip_dec_def ip_bytes_ip_of u16_bytes_le16)
qed

lemma length_ip_enc [simp]: "length (ip_enc h) = 20"
  by (rule iph.length_enc)

subsection \<open>Sending\<close>

definition IP_MORE_FRAGMENT :: u16 where "IP_MORE_FRAGMENT = push_bit 13 1"
definition IP_DEFALUT_TTL :: u8 where "IP_DEFALUT_TTL = 64"
definition IP_OUT_TTL :: u8 where "IP_OUT_TTL = IP_DEFALUT_TTL"
definition IP_VERSION_4 :: "4 word" where "IP_VERSION_4 = 4"

lemma IP_VERSION_4_eq [simp]: "IP_VERSION_4 = 4"
  by (simp add: IP_VERSION_4_def)

text \<open>The header fields as assigned, before the checksum is filled in.\<close>

definition ip_hdr_init :: "ip_addr \<Rightarrow> u16 \<Rightarrow> u16 \<Rightarrow> u16 \<Rightarrow> bool \<Rightarrow> nat \<Rightarrow> ip_hdr" where
  "ip_hdr_init ip protocol pid offset mf len =
     \<lparr>ih_hdr_len = 5, ih_version = IP_VERSION_4, ih_tos = 0, ih_total_len16 = swap16 (of_nat len),
      ih_id16 = swap16 pid,
      ih_flags_fragment16 = swap16 ((if mf then IP_MORE_FRAGMENT else 0) OR drop_bit 3 offset),
      ih_ttl = IP_OUT_TTL, ih_protocol = ucast protocol, ih_hdr_checksum16 = 0,
      ih_src_ip = net_if_ip, ih_dst_ip = ip\<rparr>"

definition ip_fragment_out ::
  "net \<Rightarrow> bufref \<Rightarrow> ip_addr \<Rightarrow> u16 \<Rightarrow> u16 \<Rightarrow> u16 \<Rightarrow> bool \<Rightarrow> net res" where
  "ip_fragment_out s r ip protocol pid offset mf =
     ebind (buf_do (\<lambda>b. buf_add_header b 20) s r) (\<lambda>s1.
     ebind (get_buf s1 r) (\<lambda>b.
     let p = ip_hdr_init ip protocol pid offset mf (buf_len b) in
     ebind (mem_write s1 r (buf_data b) (ip_enc p)) (\<lambda>s2.
     ebind (mem_read s2 r (buf_data b) 20) (\<lambda>bs.
     ebind (mem_write s2 r (buf_data b) (ip_enc (p\<lparr>ih_hdr_checksum16 := checksum16 bs\<rparr>))) (\<lambda>s3.
     arp_out s3 r ip)))))"

text \<open>\<open>set_window\<close> is the assignment to \<^verbatim>\<open>buf->data\<close> and \<^verbatim>\<open>buf->len\<close>.\<close>

definition set_window :: "nat \<Rightarrow> nat \<Rightarrow> buf_t \<Rightarrow> buf_t \<times> int" where
  "set_window d n b = (b\<lparr>buf_data := d, buf_len := n\<rparr>, 0)"

definition set_len :: "nat \<Rightarrow> buf_t \<Rightarrow> buf_t \<times> int" where
  "set_len n b = (b\<lparr>buf_len := n\<rparr>, 0)"

abbreviation ip_max_length :: nat where "ip_max_length \<equiv> 1480"

function ip_out_loop :: "net \<Rightarrow> bufref \<Rightarrow> ip_addr \<Rightarrow> u16 \<Rightarrow> nat \<Rightarrow> nat \<Rightarrow> net res" where
  "ip_out_loop s r ip protocol original_len offset =
     (if offset + ip_max_length \<le> original_len then
        ebind (get_buf s r) (\<lambda>b.
        let data_now = buf_data b in
        ebind (mem_read s r data_now 20) (\<lambda>backup.
        ebind (ip_fragment_out s r ip protocol (ip_id s) (of_nat offset) True) (\<lambda>s1.
        ebind (mem_write s1 r data_now backup) (\<lambda>s2.
        ebind (buf_do (set_window (data_now + ip_max_length) ip_max_length) s2 r) (\<lambda>s3.
        ip_out_loop s3 r ip protocol original_len (offset + ip_max_length))))))
      else
        ebind (buf_do (set_len (original_len - offset)) s r) (\<lambda>s1.
        if original_len - offset \<noteq> 0 then
          ip_fragment_out (s1\<lparr>ip_id := ip_id s1 + 1\<rparr>) r ip protocol (ip_id s1) (of_nat offset) False
        else Inr s1))"
  by pat_completeness auto
termination
  by (relation "measure (\<lambda>(s, r, ip, protocol, original_len, offset). original_len - offset)") auto

declare ip_out_loop.simps [simp del]

definition ip_out :: "net \<Rightarrow> bufref \<Rightarrow> ip_addr \<Rightarrow> u16 \<Rightarrow> net res" where
  "ip_out s r ip protocol =
     ebind (get_buf s r) (\<lambda>b.
     if buf_len b > ip_max_length then
       ebind (buf_do (set_len ip_max_length) s r) (\<lambda>s1.
       ebind (ip_out_loop s1 r ip protocol (buf_len b) 0) (\<lambda>s2.
       buf_do (set_window (buf_data b) (buf_len b)) s2 r))
     else
       ip_fragment_out (s\<lparr>ip_id := ip_id s + 1\<rparr>) r ip protocol (ip_id s) 0 False)"

subsection \<open>Packets and fragments\<close>

definition ip_header :: "ip_addr \<Rightarrow> u16 \<Rightarrow> u16 \<Rightarrow> u16 \<Rightarrow> bool \<Rightarrow> nat \<Rightarrow> ip_hdr" where
  "ip_header ip protocol pid offset mf len =
     (let p = ip_hdr_init ip protocol pid offset mf len
      in p\<lparr>ih_hdr_checksum16 := checksum16 (ip_enc p)\<rparr>)"

definition ip_packet :: "ip_addr \<Rightarrow> u16 \<Rightarrow> u16 \<Rightarrow> u16 \<Rightarrow> bool \<Rightarrow> u8 list \<Rightarrow> u8 list" where
  "ip_packet ip protocol pid offset mf body =
     ip_enc (ip_header ip protocol pid offset mf (20 + length body)) @ body"

text \<open>The packets that carry \<open>body\<close>, whose first byte is at \<open>offset\<close> of the datagram.\<close>

function ip_fragments :: "ip_addr \<Rightarrow> u16 \<Rightarrow> u16 \<Rightarrow> nat \<Rightarrow> u8 list \<Rightarrow> u8 list list" where
  "ip_fragments ip protocol pid offset body =
     (if ip_max_length \<le> length body then
        ip_packet ip protocol pid (of_nat offset) True (take ip_max_length body) #
          ip_fragments ip protocol pid (offset + ip_max_length) (drop ip_max_length body)
      else if body = [] then []
      else [ip_packet ip protocol pid (of_nat offset) False body])"
  by pat_completeness auto
termination
  by (relation "measure (\<lambda>(ip, protocol, pid, offset, body). length body)") auto

declare ip_fragments.simps [simp del]

text \<open>The state after packets have been sent from the buffer \<open>r\<close>.\<close>

definition after_send :: "net \<Rightarrow> bufref \<Rightarrow> buf_t \<Rightarrow> u16 \<Rightarrow> u8 list list \<Rightarrow> net" where
  "after_send s r b n out = (put_buf s r b)\<lparr>ip_id := n, sent := out\<rparr>"

lemma get_buf_ip_id [simp]: "get_buf (s\<lparr>ip_id := n\<rparr>) r = get_buf s r"
  by (cases r) simp_all

lemma put_buf_ip_id: "put_buf (s\<lparr>ip_id := n\<rparr>) r b = (put_buf s r b)\<lparr>ip_id := n\<rparr>"
  by (cases r) (simp_all add: put_buf_def)

lemma after_send_simps [simp]:
  "get_buf (after_send s r b n out) r = Inr b"
  "put_buf (after_send s r b n out) r b' = after_send s r b' n out"
  "ip_id (after_send s r b n out) = n" "sent (after_send s r b n out) = out"
  "arp_table (after_send s r b n out) = arp_table s" "clock (after_send s r b n out) = clock s"
  "after_send (after_send s r b n out) r b' n' out' = after_send s r b' n' out'"
  "(after_send s r b n out)\<lparr>ip_id := n'\<rparr> = after_send s r b n' out"
  "(after_send s r b n out)\<lparr>sent := out'\<rparr> = after_send s r b n out'"
  "(put_buf s r b)\<lparr>sent := out\<rparr> = after_send s r b (ip_id s) out"
  by (simp_all add: after_send_def put_buf_sent put_buf_ip_id)

lemma after_send_ip_id [simp]: "after_send (s\<lparr>ip_id := n'\<rparr>) r b n out = after_send s r b n out"
  by (simp add: after_send_def put_buf_ip_id)

lemma after_send_put [simp]: "after_send (put_buf s r b') r b n out = after_send s r b n out"
  by (simp only: after_send_def put_put_same)

lemma put_buf_after_send: "put_buf s r b = after_send s r b (ip_id s) (sent s)"
proof -
  have "(put_buf s r b)\<lparr>ip_id := ip_id (put_buf s r b), sent := sent (put_buf s r b)\<rparr> = put_buf s r b"
    by (cases "put_buf s r b") simp
  then show ?thesis by (simp only: after_send_def put_buf_frame)
qed

definition ip_push :: "buf_t \<Rightarrow> ip_addr \<Rightarrow> u16 \<Rightarrow> u16 \<Rightarrow> u16 \<Rightarrow> bool \<Rightarrow> buf_t" where
  "ip_push b ip protocol pid offset mf =
     buf_push b (ip_enc (ip_header ip protocol pid offset mf (20 + buf_len b)))"

lemma ip_push_fields:
  "20 \<le> buf_data b \<Longrightarrow> buf_ok b \<Longrightarrow>
    buf_data (ip_push b ip p i off mf) = buf_data b - 20 \<and>
    buf_len (ip_push b ip p i off mf) = buf_len b + 20 \<and>
    contents (ip_push b ip p i off mf) = ip_packet ip p i off mf (contents b)"
  using bh.bytes_push [of b "ip_enc h" for h]
  by (simp add: ip_push_def ip_packet_def) (simp add: buf_push_def buf_add_header_def)

text \<open>Whatever the lower layers do, a fragment is the header in front of the window's bytes.\<close>

lemma ip_fragment_out_spec:
  assumes "get_buf s r = Inr b" and "20 \<le> buf_data b" and "buf_ok b"
  shows "ip_fragment_out s r ip protocol pid offset mf =
    arp_out (put_buf s r (ip_push b ip protocol pid offset mf)) r ip"
proof -
  let ?c = "b\<lparr>buf_len := buf_len b + 20, buf_data := buf_data b - 20\<rparr>"
  have "fst (buf_add_header b 20) = ?c"
    using assms(2) by (simp add: buf_add_header_def)
  then have add: "buf_do (\<lambda>b. buf_add_header b 20) s r = Inr (put_buf s r ?c)"
    using assms(1) by (simp add: buf_do_get)
  have ok: "buf_data b - 20 + 20 \<le> BUF_MAX_LEN"
    using assms(2,3) by (simp add: buf_ok_def)
  let ?p = "ip_header ip protocol pid offset mf (20 + buf_len b)"
  have push: "ip_push b ip protocol pid offset mf =
      ?c\<lparr>buf_payload := store (buf_payload b) (buf_data b - 20) (ip_enc ?p)\<rparr>"
    using assms(2) by (simp add: ip_push_def buf_push_def buf_add_header_def)
  show ?thesis
    unfolding ip_fragment_out_def add push
    using ok by (simp add: Let_def mem_write_get mem_read_get buf_read_def mem_simps store_store_same
        ip_header_def add.commute [of "buf_len b"])
qed

text \<open>Sending to a resolved address. Nothing from the start of the window on is overwritten unless
  Ethernet pads the frame.\<close>

lemma ip_fragment_known:
  assumes known: "map_lookup (clock s) (arp_table s) ip = Some mac"
    and get: "get_buf s r = Inr b" and room: "34 \<le> buf_data b" "buf_data b + buf_len b + 46 < BUF_MAX_LEN"
  obtains c where "ip_fragment_out s r ip protocol pid offset mf =
      Inr (after_send s r c (ip_id s)
        (sent s @ [ether_frame mac NET_PROTOCOL_IP (ip_packet ip protocol pid offset mf (contents b))]))"
    and "\<And>i. 26 \<le> buf_len b \<Longrightarrow> buf_data b \<le> i \<Longrightarrow> buf_payload c i = buf_payload b i"
    and "buf_ok c"
proof -
  let ?b = "ip_push b ip protocol pid offset mf"
  have ok: "buf_ok b" using room(2) by (simp add: buf_ok_def)
  have f: "buf_data ?b = buf_data b - 20" "buf_len ?b = buf_len b + 20"
    "contents ?b = ip_packet ip protocol pid offset mf (contents b)"
    using ip_push_fields [OF _ ok] room(1) by auto
  have fr: "frame_room ?b" using room unfolding frame_room_def f by linarith
  let ?c = "frame_buf ?b mac NET_PROTOCOL_IP"
  have "ip_fragment_out s r ip protocol pid offset mf =
      ethernet_out (put_buf s r ?b) r mac NET_PROTOCOL_IP"
    using ip_fragment_out_spec [OF get _ ok] room(1) known
    by (simp add: arp_out_known [where mac = mac])
  also have "\<dots> = Inr (after_send s r ?c (ip_id s)
        (sent s @ [ether_frame mac NET_PROTOCOL_IP (ip_packet ip protocol pid offset mf (contents b))]))"
    using ethernet_out_spec [of "put_buf s r ?b" r ?b mac NET_PROTOCOL_IP] fr f(3)
    by (cases r) (simp_all add: after_send_def put_buf_def)
  finally have eq: "ip_fragment_out s r ip protocol pid offset mf = \<dots>" .
  show thesis
  proof (rule that [OF eq])
    fix i
    assume long: "26 \<le> buf_len b" and i: "buf_data b \<le> i"
    let ?frame = "ether_frame mac NET_PROTOCOL_IP (contents ?b)"
    have len: "length ?frame = 34 + buf_len b" "?frame = take 34 ?frame @ contents b"
      using long by (simp_all add: length_ether_frame f ether_frame_def ip_packet_def)
    have le: "buf_data b - 34 \<le> i" using i by linarith
    have idx: "i - (buf_data b - 34) = (i - buf_data b) + 34" using i room(1) by linarith
    have old: "buf_payload ?b i = buf_payload b i"
      using room(1) i by (simp add: ip_push_def buf_push_def buf_add_header_def store_def)
    show "buf_payload ?c i = buf_payload b i"
    proof (cases "i < buf_data b + buf_len b")
      case True
      then have "buf_payload ?c i = ?frame ! (i - (buf_data b - 34))"
        using room(1) i len(1) le by (simp add: frame_buf_def f store_def)
      also have "\<dots> = contents b ! (i - buf_data b)"
        unfolding idx by (subst len(2)) (simp add: nth_append len(1))
      also have "\<dots> = buf_payload b i"
        using True i by (simp add: contents_def nth_load)
      finally show ?thesis .
    next
      case False
      then show ?thesis
        using old room(1) len(1) by (simp add: frame_buf_def f store_def)
    qed
  next
    show "buf_ok ?c" by (rule frame_buf_ok [OF fr])
  qed
qed

text \<open>The loop implements \<open>ip_fragments\<close> on the part of the payload not yet sent.\<close>

lemma ip_out_loop_known:
  assumes "map_lookup (clock s) (arp_table s) ip = Some mac"
    and "get_buf s r = Inr b" and "34 \<le> buf_data b"
    and "buf_data b + length body + 46 < BUF_MAX_LEN"
    and "offset + length body = n" and "ip_max_length \<le> length body \<Longrightarrow> buf_len b = ip_max_length"
    and "load (buf_payload b) (buf_data b) (length body) = body"
  shows "\<exists>c. ip_out_loop s r ip protocol n offset = Inr (after_send s r c
      (if length body mod ip_max_length = 0 then ip_id s else ip_id s + 1)
      (sent s @ map (ether_frame mac NET_PROTOCOL_IP) (ip_fragments ip protocol (ip_id s) offset body)))"
  using assms
proof (induction "length body" arbitrary: s b body offset rule: less_induct)
  case less
  note loop = ip_out_loop.simps [of s r ip protocol n offset]
  note frags = ip_fragments.simps [of ip protocol "ip_id s" offset body]
  show ?case
  proof (cases "ip_max_length \<le> length body")
    case True
    let ?chunk = "take ip_max_length body" and ?rest = "drop ip_max_length body"
    have len: "buf_len b = ip_max_length" and big: "offset + ip_max_length \<le> n"
      using less.prems(5,6) True by auto
    have room: "buf_data b + buf_len b + 46 < BUF_MAX_LEN" and long: "26 \<le> buf_len b"
      using less.prems(4) True len by simp_all
    have chunk: "contents b = ?chunk"
      using arg_cong [OF less.prems(7), of "take ip_max_length"] True len
      by (simp add: contents_def mem_simps min_def)
    have ld: "mem_read s r (buf_data b) 20 = Inr (load (buf_payload b) (buf_data b) 20)"
      using less.prems(2,4) True by (simp add: mem_read_get buf_read_def)
    obtain c where out: "ip_fragment_out s r ip protocol (ip_id s) (of_nat offset) True =
        Inr (after_send s r c (ip_id s) (sent s @
          [ether_frame mac NET_PROTOCOL_IP (ip_packet ip protocol (ip_id s) (of_nat offset) True ?chunk)]))"
      and pay: "\<And>i. buf_data b \<le> i \<Longrightarrow> buf_payload c i = buf_payload b i"
      using ip_fragment_known [OF less.prems(1-3) room, of protocol "ip_id s" "of_nat offset" True]
        len chunk by (metis long)
    let ?c = "c\<lparr>buf_payload := store (buf_payload c) (buf_data b) (load (buf_payload b) (buf_data b) 20),
      buf_data := buf_data b + ip_max_length, buf_len := ip_max_length\<rparr>"
    have pay': "buf_payload ?c i = buf_payload b i" if "buf_data b \<le> i" for i
      using pay [OF that] that by (simp add: store_def nth_load)
    let ?s = "after_send s r ?c (ip_id s) (sent s @
      [ether_frame mac NET_PROTOCOL_IP (ip_packet ip protocol (ip_id s) (of_nat offset) True ?chunk)])"
    have step: "ip_out_loop s r ip protocol n offset =
        ip_out_loop ?s r ip protocol n (offset + ip_max_length)"
      using less.prems(2,4) True big
      by (simp add: loop Let_def ld out mem_write_get buf_do_get set_window_def)
    have "load (buf_payload ?c) (buf_data ?c) (length ?rest) =
        load (buf_payload b) (buf_data b + ip_max_length) (length ?rest)"
    proof (rule load_eqI)
      show "buf_payload ?c (buf_data ?c + i) = buf_payload b (buf_data b + ip_max_length + i)" for i
        using pay' [of "buf_data b + ip_max_length + i"] by simp
    qed
    also have "\<dots> = drop ip_max_length (load (buf_payload b) (buf_data b) (length body))"
      by (simp add: mem_simps)
    also have "\<dots> = ?rest" using less.prems(7) by simp
    finally have "load (buf_payload ?c) (buf_data ?c) (length ?rest) = ?rest" .
    then have "\<exists>c'. ip_out_loop ?s r ip protocol n (offset + ip_max_length) = Inr (after_send ?s r c'
        (if length ?rest mod ip_max_length = 0 then ip_id ?s else ip_id ?s + 1)
        (sent ?s @ map (ether_frame mac NET_PROTOCOL_IP)
          (ip_fragments ip protocol (ip_id ?s) (offset + ip_max_length) ?rest)))"
    proof (rule less.hyps [rotated -1])
      show "buf_data ?c + length ?rest + 46 < BUF_MAX_LEN" "34 \<le> buf_data ?c"
        using less.prems(3,4) True by simp_all
    qed (use less.prems(1,5) True in simp_all)
    moreover have "length ?rest mod ip_max_length = length body mod ip_max_length"
      using True by (simp add: le_mod_geq)
    ultimately show ?thesis
      unfolding step frags by (simp add: True cong: if_cong)
  next
    case False
    then have last: "\<not> offset + ip_max_length \<le> n" "n - offset = length body"
      using less.prems(5) by auto
    let ?b = "b\<lparr>buf_len := length body\<rparr>"
    have set: "buf_do (set_len (n - offset)) s r = Inr (put_buf s r ?b)"
      using less.prems(2) last(2) by (simp add: buf_do_get set_len_def)
    show ?thesis
    proof (cases "body = []")
      case True
      then have "ip_fragments ip protocol (ip_id s) offset body = []" by (subst frags) simp
      moreover have "ip_out_loop s r ip protocol n offset = Inr (after_send s r ?b (ip_id s) (sent s))"
        using last set True by (subst loop) (simp add: put_buf_after_send)
      ultimately show ?thesis using True by auto
    next
      case ne: False
      let ?s = "(put_buf s r ?b)\<lparr>ip_id := ip_id s + 1\<rparr>"
      have "contents ?b = body" using less.prems(7) by (simp add: contents_def)
      then obtain c where "ip_fragment_out ?s r ip protocol (ip_id s) (of_nat offset) False =
          Inr (after_send ?s r c (ip_id s + 1) (sent s @
            [ether_frame mac NET_PROTOCOL_IP (ip_packet ip protocol (ip_id s) (of_nat offset) False body)]))"
        using ip_fragment_known [of ?s ip mac r ?b protocol "ip_id s" "of_nat offset" False]
          less.prems(1,3,4)
        by auto
      moreover have "after_send ?s r c n' out = after_send s r c n' out" for c n' out
        by simp
      moreover have "length body mod ip_max_length \<noteq> 0" using ne False by (simp add: not_le)
      ultimately show ?thesis
        using last set ne False by (simp add: loop frags) blast
    qed
  qed
qed

definition ip_datagram :: "ip_addr \<Rightarrow> u16 \<Rightarrow> u16 \<Rightarrow> u8 list \<Rightarrow> u8 list list" where
  "ip_datagram ip protocol pid body =
     (if length body > ip_max_length then ip_fragments ip protocol pid 0 body
      else [ip_packet ip protocol pid 0 False body])"

lemma ip_out_known:
  assumes known: "map_lookup (clock s) (arp_table s) ip = Some mac"
    and get: "get_buf s r = Inr b" and room: "34 \<le> buf_data b" "buf_data b + buf_len b + 46 < BUF_MAX_LEN"
  shows "\<exists>c. ip_out s r ip protocol = Inr (after_send s r c
      (if buf_len b > ip_max_length \<and> buf_len b mod ip_max_length = 0 then ip_id s else ip_id s + 1)
      (sent s @ map (ether_frame mac NET_PROTOCOL_IP) (ip_datagram ip protocol (ip_id s) (contents b))))"
proof (cases "buf_len b > ip_max_length")
  case True
  let ?b = "b\<lparr>buf_len := ip_max_length\<rparr>"
  let ?s = "put_buf s r ?b"
  have set: "buf_do (set_len ip_max_length) s r = Inr ?s"
    using get by (simp add: buf_do_get set_len_def)
  have "\<exists>c. ip_out_loop ?s r ip protocol (buf_len b) 0 = Inr (after_send ?s r c
      (if length (contents b) mod ip_max_length = 0 then ip_id ?s else ip_id ?s + 1)
      (sent ?s @ map (ether_frame mac NET_PROTOCOL_IP) (ip_fragments ip protocol (ip_id ?s) 0 (contents b))))"
    by (rule ip_out_loop_known [of ?s ip mac r ?b]) (use known room in \<open>simp_all add: contents_def\<close>)
  then show ?thesis
    unfolding ip_out_def get
    using True by (auto simp: set buf_do_get set_window_def ip_datagram_def cong: if_cong)
next
  case False
  let ?s = "s\<lparr>ip_id := ip_id s + 1\<rparr>"
  have "get_buf ?s r = Inr b" "map_lookup (clock ?s) (arp_table ?s) ip = Some mac"
    using get known by simp_all
  from ip_fragment_known [OF this(2,1) room, of protocol "ip_id s" 0 False]
  obtain c where "ip_fragment_out ?s r ip protocol (ip_id s) 0 False =
      Inr (after_send ?s r c (ip_id s + 1) (sent s @
        [ether_frame mac NET_PROTOCOL_IP (ip_packet ip protocol (ip_id s) 0 False (contents b))]))"
    by auto
  then show ?thesis
    using False get by (auto simp: ip_out_def ip_datagram_def)
qed

subsection \<open>Reassembly, as a receiver would do it\<close>

fun reassemble :: "nat \<Rightarrow> u8 list list \<Rightarrow> u8 list option" where
  "reassemble offset [] = None"
| "reassemble offset (p # ps) =
     (let f = swap16 (ih_flags_fragment16 (ip_dec (take 20 p))); body = drop 20 p in
      if 8 * unat (take_bit 13 f) \<noteq> offset then None
      else if bit f 13 then map_option (\<lambda>rest. body @ rest) (reassemble (offset + length body) ps)
      else if ps = [] then Some body else None)"

lemma bit_IP_MORE_FRAGMENT [simp]: "bit IP_MORE_FRAGMENT n \<longleftrightarrow> n = 13"
  by (auto simp only: IP_MORE_FRAGMENT_def bit_push_bit_iff bit_1_iff possible_bit_word) simp_all

lemma ip_flags_field:
  "take_bit 13 ((if mf then IP_MORE_FRAGMENT else 0) OR drop_bit 3 (w :: u16)) = drop_bit 3 w"
  "bit ((if mf then IP_MORE_FRAGMENT else 0) OR drop_bit 3 (w :: u16)) 13 \<longleftrightarrow> mf"
proof -
  have high: "\<not> bit w (n + 3)" if "13 \<le> n" for n
    using bit_imp_le_length [of w "n + 3"] that by auto
  show "take_bit 13 ((if mf then IP_MORE_FRAGMENT else 0) OR drop_bit 3 w) = drop_bit 3 w"
    using high by (intro bit_word_eqI) (auto simp: bit_simps add.commute not_less [symmetric])
  show "bit ((if mf then IP_MORE_FRAGMENT else 0) OR drop_bit 3 w) 13 \<longleftrightarrow> mf"
    using high [of 13] by (auto simp: bit_simps)
qed

lemma offset_field:
  assumes "n < 65536" and "8 dvd n"
  shows "8 * unat (drop_bit 3 (of_nat n :: u16)) = n"
  using assms by (simp add: drop_bit_eq_div unat_div_distrib unat_of_nat)

lemma ip_packet_fields:
  "take_bit 13 (swap16 (ih_flags_fragment16 (ip_dec (take 20 (ip_packet ip p i off mf body))))) =
     drop_bit 3 off"
  "bit (swap16 (ih_flags_fragment16 (ip_dec (take 20 (ip_packet ip p i off mf body))))) 13 \<longleftrightarrow> mf"
  "drop 20 (ip_packet ip p i off mf body) = body"
  using ip_flags_field [of mf off]
  by (simp_all add: ip_packet_def iph.dec_enc ip_header_def Let_def)
    (simp_all add: ip_hdr_init_def)

lemma reassemble_fragments:
  "offset + length body < 65536 \<Longrightarrow> 8 dvd offset \<Longrightarrow>
    reassemble offset (ip_fragments ip protocol pid offset body) =
      (if ip_max_length dvd length body then None else Some body)"
proof (induction "length body" arbitrary: offset body rule: less_induct)
  case less
  have field: "8 * unat (drop_bit 3 (of_nat offset :: u16)) = offset"
    using less.prems by (intro offset_field) simp_all
  note frags = ip_fragments.simps [of ip protocol pid offset body]
  show ?case
  proof (cases "ip_max_length \<le> length body")
    case True
    let ?rest = "drop ip_max_length body"
    have "reassemble (offset + ip_max_length) (ip_fragments ip protocol pid (offset + ip_max_length) ?rest) =
        (if ip_max_length dvd length ?rest then None else Some ?rest)"
      using True less.prems by (intro less.hyps) simp_all
    moreover have "ip_max_length dvd length ?rest \<longleftrightarrow> ip_max_length dvd length body"
      using True by (simp add: dvd_minus_self)
    moreover have "take ip_max_length body @ ?rest = body" by simp
    ultimately show ?thesis
      using True by (subst frags) (simp add: Let_def ip_packet_fields field)
  next
    case False
    then show ?thesis
      by (subst frags) (auto simp: Let_def ip_packet_fields field dest: dvd_imp_le)
  qed
qed

lemma ip_fragments_length: "p \<in> set (ip_fragments ip protocol pid offset body) \<Longrightarrow> length p \<le> 1500"
proof (induction ip protocol pid offset body rule: ip_fragments.induct)
  case (1 ip protocol pid offset body)
  from 1(2) show ?case
    by (subst (asm) ip_fragments.simps) (auto simp: ip_packet_def split: if_splits dest: 1(1))
qed

subsection \<open>Properties of sending\<close>

text \<open>C10. To a resolved address, every packet leaves as one datagram that a receiver can put
  together again: all frames carry at most 1500 bytes of IP, the fragments are contiguous and
  marked so that reassembly gives back exactly the payload. The exception is a payload of more
  than 1480 bytes whose length is a multiple of 1480: its last fragment still announces another
  one, so reassembly never finishes, and the identifier is not advanced for the next datagram.
  (To an address that is not resolved the fragments wait, and a datagram of several fragments is
  damaged meanwhile: \<open>ip_out_unresolved_overwrites\<close> below.)\<close>

theorem ip_out_reassembles:
  assumes "map_lookup (clock s) (arp_table s) ip = Some mac" and "get_buf s r = Inr b"
    and "34 \<le> buf_data b" and "buf_data b + buf_len b + 46 < BUF_MAX_LEN" and "buf_len b < 65536"
  shows "\<exists>s' pkts. ip_out s r ip protocol = Inr s' \<and>
    sent s' = sent s @ map (ether_frame mac NET_PROTOCOL_IP) pkts \<and>
    (\<forall>p \<in> set pkts. length p \<le> 1500) \<and>
    (if buf_len b > ip_max_length \<and> ip_max_length dvd buf_len b
     then reassemble 0 pkts = None \<and> ip_id s' = ip_id s
     else reassemble 0 pkts = Some (contents b) \<and> ip_id s' = ip_id s + 1)"
proof -
  let ?pkts = "ip_datagram ip protocol (ip_id s) (contents b)"
  have "reassemble 0 ?pkts = (if buf_len b > ip_max_length \<and> ip_max_length dvd buf_len b
      then None else Some (contents b))"
  proof (cases "buf_len b > ip_max_length")
    case True
    then show ?thesis using assms(5) by (simp add: ip_datagram_def reassemble_fragments)
  next
    case False
    then show ?thesis
      using ip_packet_fields [of ip protocol "ip_id s" 0 False "contents b"]
      by (simp add: ip_datagram_def Let_def)
  qed
  moreover have "length p \<le> 1500" if "p \<in> set ?pkts" for p
    using that ip_fragments_length [of p]
    by (auto simp: ip_datagram_def ip_packet_def split: if_splits)
  moreover obtain s' where "ip_out s r ip protocol = Inr s'"
    "sent s' = sent s @ map (ether_frame mac NET_PROTOCOL_IP) ?pkts"
    "ip_id s' = (if buf_len b > ip_max_length \<and> ip_max_length dvd buf_len b then ip_id s else ip_id s + 1)"
    using ip_out_known [OF assms(1-4), of protocol] unfolding mod_eq_0_iff_dvd by force
  ultimately show ?thesis
    by (intro exI [of _ s'] exI [of _ ?pkts]) simp
qed

definition demo_peer :: net where
  "demo_peer = demo_state\<lparr>arp_table :=
     fst (map_set (arp_table demo_state) (clock demo_state) (10, 0, 0, 9) (2, 0, 0, 0, 0, 9))\<rparr>"

lemma demo_peer_fields [simp]:
  "clock demo_peer = 1" "sent demo_peer = []" "ip_id demo_peer = 0"
  "map_lookup 1 (arp_table demo_peer) (10, 0, 0, 9) = Some (2, 0, 0, 0, 0, 9)"
proof -
  show c: "clock demo_peer = 1" "sent demo_peer = []" "ip_id demo_peer = 0"
    by (simp_all add: demo_peer_def demo_state_def)
  have "map_inv (clock demo_state) (arp_table demo_state)"
    using arp_inv_demo by (simp add: arp_inv_def)
  from nm.lookup_set [OF this, of "(10, 0, 0, 9)" "(2, 0, 0, 0, 0, 9)"]
    nm.set_status [OF this, of "(10, 0, 0, 9)" "(2, 0, 0, 0, 0, 9)"] arp_tables_demo(1) demo_table_room
  show "map_lookup 1 (arp_table demo_peer) (10, 0, 0, 9) = Some (2, 0, 0, 0, 0, 9)"
    by (simp add: demo_peer_def) (simp add: demo_state_def)
qed

theorem ip_out_reassembles_witness:
  "\<exists>s' pkts. ip_out (demo_peer\<lparr>txbuf := demo_buf (replicate 2000 7)\<rparr>) Txbuf (10, 0, 0, 9) 17 = Inr s' \<and>
    sent s' = map (ether_frame (2, 0, 0, 0, 0, 9) NET_PROTOCOL_IP) pkts \<and>
    reassemble 0 pkts = Some (replicate 2000 7)"
proof -
  have "\<not> ip_max_length dvd (2000 :: nat)" by (simp add: dvd_def) presburger
  then show ?thesis
    using ip_out_reassembles [of "demo_peer\<lparr>txbuf := demo_buf (replicate 2000 7)\<rparr>" "(10, 0, 0, 9)"
        "(2, 0, 0, 0, 0, 9)" Txbuf "demo_buf (replicate 2000 7)" 17]
    by (auto simp: demo_buf_def [of "replicate 2000 7", THEN arg_cong [where f = buf_data]] BUF_MAX_LEN_def)
qed

subsection \<open>Fragments to an address that is not resolved\<close>

lemma arp_out_first_txbuf:
  assumes "arp_out s Txbuf ip = Inr s'" and "map_lookup (clock s) (arp_table s) ip = None" and "arp_pending s ip []"
  shows "ip_id s' = ip_id s" and "load (buf_payload (txbuf s')) 65644 18 = replicate 18 0"
proof -
  obtain N P where "pend (arp_buf s) (clock s) (mheap s) N P" using assms(3) by (auto simp: arp_pending_def)
  from arp_pending_iff [OF this assms(3)] have none: "map_get (arp_buf s) (clock s) (Some ip) = None"
    by (auto split: option.splits)
  have "map_get (arp_table s) (clock s) (Some ip) = None"
    using assms(2) by (auto simp: map_lookup_def split: option.splits)
  then obtain h a where s': "s' = s\<lparr>mheap := h, arp_buf := a,
      txbuf := frame_buf (arp_txbuf s (arp_request_pkt ip)) net_broadcast_mac NET_PROTOCOL_ARP,
      sent := sent s @ [ether_frame net_broadcast_mac NET_PROTOCOL_ARP (arp_body (arp_request_pkt ip))]\<rparr>"
    using assms(1) none by (auto simp: arp_out_def arp_req_spec arp_txbuf_def split: prod.splits)
  then show "ip_id s' = ip_id s" by simp
  let ?fr = "ether_frame net_broadcast_mac NET_PROTOCOL_ARP (arp_body (arp_request_pkt ip))"
  have "buf_payload (txbuf s') = store (buf_payload (arp_txbuf s (arp_request_pkt ip))) 65602 ?fr"
    by (simp add: s' frame_buf_def) (simp add: arp_txbuf_def)
  then have "load (buf_payload (txbuf s')) 65602 60 = ?fr"
    using load_store_same [where bs = ?fr and off = 65602 and n = 60]
    by (simp add: length_ether_frame)
  then have "drop 42 (load (buf_payload (txbuf s')) 65602 60) = drop 42 ?fr" by simp
  then show "load (buf_payload (txbuf s')) 65644 18 = replicate 18 0"
    by (simp add: drop_load ether_frame_def arp_body_def)
qed

text \<open>To an address that is not resolved, a datagram of two fragments does not survive: the request that
  \<open>arp_out\<close> sends for the first fragment is built in \<^verbatim>\<open>txbuf\<close>, over the last 60 bytes of the payload that
  \<open>ip_out\<close> is cutting into fragments, so the second fragment waits with the padding of the request for
  its last 18 bytes.\<close>

lemma ip_out_unresolved_overwrites:
  assumes inv: "arp_inv s" and miss: "map_lookup (clock s) (arp_table s) ip = None" and none: "arp_pending s ip []"
    and size: "m_size (arp_buf s) < m_max_size (arp_buf s)"
    and b: "buf_data (txbuf s) + buf_len (txbuf s) = 65662" "1498 \<le> buf_len (txbuf s)" "buf_len (txbuf s) < 2960"
  obtains s' c1 c2 where "ip_out s Txbuf ip protocol = Inr s'" and "arp_pending s' ip [c1, c2]"
    and "contents c1 = ip_packet ip protocol (ip_id s) 0 True (take 1480 (contents (txbuf s)))"
    and "buf_len c2 = buf_len (txbuf s) - 1460"
    and "drop (buf_len c2 - 18) (contents c2) = replicate 18 0"
proof -
  let ?d = "buf_data (txbuf s)" and ?n = "buf_len (txbuf s)"
  let ?b1 = "(txbuf s)\<lparr>buf_len := ip_max_length\<rparr>"
  let ?s1 = "s\<lparr>txbuf := ?b1\<rparr>"
  let ?c1 = "ip_push ?b1 ip protocol (ip_id s) 0 True"
  have ok1: "20 \<le> buf_data ?b1" "buf_ok ?b1" using b by (simp_all add: buf_ok_def)
  note c1 = ip_push_fields [OF ok1, of ip protocol "ip_id s" 0 True]
  have room1: "frame_room ?c1" using c1 b by (simp add: frame_room_def)
  have "arp_inv (?s1\<lparr>txbuf := ?c1\<rparr>)" "arp_pending (?s1\<lparr>txbuf := ?c1\<rparr>) ip []" using inv none by simp_all
  from arp_out_pending [OF this(1) _ room1 _ this(2), of Txbuf] miss size
  obtain s2 where s2: "arp_out (?s1\<lparr>txbuf := ?c1\<rparr>) Txbuf ip = Inr s2" "arp_inv s2" "arp_pending s2 ip [?c1]"
    "arp_table s2 = arp_table s" "clock s2 = clock s" by auto
  note z = arp_out_first_txbuf [OF s2(1)]
  have id2: "ip_id s2 = ip_id s" and zeros: "load (buf_payload (txbuf s2)) 65644 18 = replicate 18 0"
    using z miss none by simp_all
  have frag1: "ip_fragment_out ?s1 Txbuf ip protocol (ip_id ?s1) 0 True = Inr s2"
    using ip_fragment_out_spec [of ?s1 Txbuf ?b1 ip protocol "ip_id s" 0 True] ok1 s2(1) by simp
  let ?bk = "load (buf_payload (txbuf s)) ?d 20"
  let ?t = "(txbuf s2)\<lparr>buf_payload := store (buf_payload (txbuf s2)) ?d ?bk\<rparr>"
  let ?b3 = "?t\<lparr>buf_data := ?d + ip_max_length, buf_len := ?n - ip_max_length\<rparr>"
  let ?c2 = "ip_push ?b3 ip protocol (ip_id s) (of_nat ip_max_length) False"
  have ok3: "20 \<le> buf_data ?b3" "buf_ok ?b3" using b by (simp_all add: buf_ok_def)
  note c2 = ip_push_fields [OF ok3, of ip protocol "ip_id s" "of_nat ip_max_length" False]
  have room2: "frame_room ?c2" using c2 b by (simp add: frame_room_def)
  let ?s3 = "s2\<lparr>ip_id := ip_id s2 + 1, txbuf := ?c2\<rparr>"
  have "arp_inv ?s3" "arp_pending ?s3 ip [?c1]" using s2(2,3) by (simp_all add: arp_inv_def arp_pending_def)
  from arp_out_pending [OF this(1) _ room2 _ this(2), of Txbuf] miss s2(4,5)
  obtain s4 where s4: "arp_out ?s3 Txbuf ip = Inr s4" "arp_pending s4 ip [?c1, ?c2]" by auto
  have loop2: "ip_out_loop (s2\<lparr>txbuf := ?t\<lparr>buf_data := ?d + ip_max_length, buf_len := ip_max_length\<rparr>\<rparr>) Txbuf ip protocol ?n ip_max_length = Inr s4"
  proof -
    have "ip_fragment_out (s2\<lparr>txbuf := ?b3, ip_id := ip_id s2 + 1\<rparr>) Txbuf ip protocol (ip_id s2) (of_nat ip_max_length) False = Inr s4"
      using ip_fragment_out_spec [of "s2\<lparr>txbuf := ?b3, ip_id := ip_id s2 + 1\<rparr>" Txbuf ?b3 ip protocol "ip_id s2" "of_nat ip_max_length" False]
        ok3 s4(1) id2 by simp
    then show ?thesis
      using b by (subst ip_out_loop.simps) (simp add: buf_do_get set_len_def)
  qed
  have "?d + 20 \<le> BUF_MAX_LEN" using b by simp
  then have loop1: "ip_out_loop ?s1 Txbuf ip protocol ?n 0 = Inr s4"
    using b frag1 loop2
    by (subst ip_out_loop.simps) (simp add: buf_do_get set_window_def mem_read_get buf_read_def mem_write_get)
  have out: "ip_out s Txbuf ip protocol = Inr (s4\<lparr>txbuf := (txbuf s4)\<lparr>buf_data := ?d, buf_len := ?n\<rparr>\<rparr>)"
    using b loop1 by (simp add: ip_out_def buf_do_get set_len_def set_window_def)
  have "load (store (buf_payload (txbuf s2)) ?d ?bk) 65644 18 = replicate 18 0"
    using zeros b by (simp add: load_store_disjoint)
  then have "drop (?n - 1480 - 18) (contents ?b3) = replicate 18 0"
    using b by (simp add: contents_def drop_load)
  then have "drop (?n - 1460 - 18) (contents ?c2) = replicate 18 0"
    using c2 b by (simp add: ip_packet_def)
  moreover have "contents ?b1 = take 1480 (contents (txbuf s))" using b by (simp add: contents_def take_load min_def)
  ultimately show thesis
    using that [OF out, of ?c1 ?c2] s4(2) c1 c2 b by (simp add: arp_pending_def)
qed

lemma ip_out_unresolved_overwrites_example:
  "\<exists>s' c1 c2. ip_out (demo_state\<lparr>txbuf := \<lparr>buf_len = 2000, buf_data = 63662, buf_payload = \<lambda>_. 7\<rparr>\<rparr>) Txbuf
      (10, 0, 0, 9) 17 = Inr s' \<and> arp_pending s' (10, 0, 0, 9) [c1, c2] \<and> drop 522 (contents c2) = replicate 18 0"
proof -
  let ?s = "demo_state\<lparr>txbuf := \<lparr>buf_len = 2000, buf_data = 63662, buf_payload = \<lambda>_. 7\<rparr>\<rparr>"
  have "arp_inv ?s" "map_lookup (clock ?s) (arp_table ?s) (10, 0, 0, 9) = None" "arp_pending ?s (10, 0, 0, 9) []"
    "m_size (arp_buf ?s) < m_max_size (arp_buf ?s)"
    using arp_inv_demo arp_tables_demo by simp_all
  from ip_out_unresolved_overwrites [OF this, of 17] show ?thesis by fastforce
qed

end
