(* ===== verification/Icmp.thy ===== *)
theory Icmp
  imports Ip
begin

text \<open>
  ICMP (\<^verbatim>\<open>src/icmp.c\<close>): the echo responder, and the unreachable messages that IP sends for
  packets it cannot deliver. Both build their message in \<^verbatim>\<open>txbuf\<close> and hand it to \<open>ip_out\<close>.
\<close>

record icmp_hdr =
  icmp_type :: u8
  icmp_code :: u8
  icmp_checksum16 :: u16
  icmp_id16 :: u16
  icmp_seq16 :: u16

definition icmp_enc :: "icmp_hdr \<Rightarrow> u8 list" where
  "icmp_enc h = [icmp_type h, icmp_code h] @ u16_bytes (icmp_checksum16 h) @
     u16_bytes (icmp_id16 h) @ u16_bytes (icmp_seq16 h)"

definition icmp_dec :: "u8 list \<Rightarrow> icmp_hdr" where
  "icmp_dec bs = \<lparr>icmp_type = bs ! 0, icmp_code = bs ! 1, icmp_checksum16 = le16 (bs ! 2) (bs ! 3),
     icmp_id16 = le16 (bs ! 4) (bs ! 5), icmp_seq16 = le16 (bs ! 6) (bs ! 7)\<rparr>"

lemma list_of_8: "length xs = 8 \<Longrightarrow> \<exists>a b c d e f g h. xs = [a, b, c, d, e, f, g, h]"
  by (auto simp: numeral_eq_Suc length_Suc_conv)

interpretation icmph: fixed_codec icmp_enc icmp_dec 8
proof unfold_locales
  fix h
  show "length (icmp_enc h) = 8" by (simp add: icmp_enc_def)
  show "icmp_dec (icmp_enc h) = h"
    by (simp add: icmp_enc_def icmp_dec_def u16_bytes_def codec_simps)
next
  fix bs :: "u8 list"
  assume "length bs = 8"
  then show "icmp_enc (icmp_dec bs) = bs"
    using list_of_8 [of bs] by (auto simp: icmp_enc_def icmp_dec_def u16_bytes_le16)
qed

definition ICMP_TYPE_ECHO_REQUEST :: u8 where "ICMP_TYPE_ECHO_REQUEST = 8"
definition ICMP_TYPE_ECHO_REPLY :: u8 where "ICMP_TYPE_ECHO_REPLY = 0"
definition ICMP_TYPE_UNREACH :: u8 where "ICMP_TYPE_UNREACH = 3"
definition ICMP_CODE_PROTOCOL_UNREACH :: u8 where "ICMP_CODE_PROTOCOL_UNREACH = 2"
definition ICMP_CODE_PORT_UNREACH :: u8 where "ICMP_CODE_PORT_UNREACH = 3"

text \<open>The request is copied whole into \<^verbatim>\<open>txbuf\<close>; only type, code and checksum change.\<close>

definition icmp_resp :: "net \<Rightarrow> bufref \<Rightarrow> ip_addr \<Rightarrow> net res" where
  "icmp_resp s req src_ip =
     ebind (get_buf s req) (\<lambda>b.
     ebind (buf_copy (txbuf s) b) (\<lambda>t.
     let s1 = s\<lparr>txbuf := t\<rparr>; p = buf_data t in
     ebind (mem_write s1 Txbuf p [ICMP_TYPE_ECHO_REPLY, 0]) (\<lambda>s2.
     ebind (mem_write s2 Txbuf (p + 2) (u16_bytes 0)) (\<lambda>s3.
     ebind (mem_read s3 Txbuf p (buf_len t)) (\<lambda>bs.
     ebind (mem_write s3 Txbuf (p + 2) (u16_bytes (checksum16 bs))) (\<lambda>s4.
     ip_out s4 Txbuf src_ip NET_PROTOCOL_ICMP))))))"

definition icmp_in :: "net \<Rightarrow> bufref \<Rightarrow> u8 list \<Rightarrow> net res" where
  "icmp_in s r src_ip =
     ebind (get_buf s r) (\<lambda>b.
     if buf_len b < 8 then Inr s
     else
       ebind (mem_read s r (buf_data b) 8) (\<lambda>bs.
       if icmp_type (icmp_dec bs) = ICMP_TYPE_ECHO_REQUEST then icmp_resp s r (ip_of src_ip)
       else Inr s))"

definition icmp_unreachable :: "net \<Rightarrow> bufref \<Rightarrow> ip_addr \<Rightarrow> u8 \<Rightarrow> net res" where
  "icmp_unreachable s recv src_ip code =
     ebind (buf_do (\<lambda>b. buf_init b (8 + 20 + 8)) s Txbuf) (\<lambda>s1.
     ebind (get_buf s1 Txbuf) (\<lambda>t.
     let h = \<lparr>icmp_type = ICMP_TYPE_UNREACH, icmp_code = code, icmp_checksum16 = 0,
              icmp_id16 = 0, icmp_seq16 = 0\<rparr> in
     ebind (mem_write s1 Txbuf (buf_data t) (icmp_enc h)) (\<lambda>s2.
     ebind (get_buf s2 recv) (\<lambda>rb.
     ebind (mem_read s2 recv (buf_data rb) (20 + 8)) (\<lambda>orig.
     ebind (mem_write s2 Txbuf (buf_data t + 8) orig) (\<lambda>s3.
     ebind (mem_read s3 Txbuf (buf_data t) (buf_len t)) (\<lambda>bs.
     ebind (mem_write s3 Txbuf (buf_data t) (icmp_enc (h\<lparr>icmp_checksum16 := checksum16 bs\<rparr>))) (\<lambda>s4.
     ip_out s4 Txbuf src_ip NET_PROTOCOL_ICMP))))))))"

definition icmp_init :: "net \<Rightarrow> net" where
  "icmp_init s = net_add_protocol s NET_PROTOCOL_ICMP H_icmp_in"

subsection \<open>What is sent\<close>

text \<open>The reply: the request with type and code zero and the checksum that belongs to it.\<close>

definition echo_reply :: "u8 list \<Rightarrow> u8 list" where
  "echo_reply req = [0, 0] @ u16_bytes (checksum16 ([0, 0] @ [0, 0] @ drop 4 req)) @ drop 4 req"

lemma echo_reply_verifies: "length req \<le> 131072 \<Longrightarrow> checksum16 (echo_reply req) = 0"
  using checksum16_fill [of "[0, 0]" "drop 4 req"] by (simp add: echo_reply_def)

lemma load_patch:
  assumes "length xs \<le> n"
  shows "load (store m d xs) d n = xs @ drop (length xs) (load m d n)"
proof -
  have "load (store m d xs) d n = xs @ load m (d + length xs) (n - length xs)"
    using load_store_split [of m d xs "n - length xs"] assms by simp
  then show ?thesis by (simp add: mem_simps)
qed

lemma icmp_resp_spec:
  assumes get: "get_buf s r = Inr b" and ok: "buf_ok b" and len: "8 \<le> buf_len b"
  obtains t where "icmp_resp s r ip = ip_out (s\<lparr>txbuf := t\<rparr>) Txbuf ip NET_PROTOCOL_ICMP"
    and "contents t = echo_reply (contents b)" and "buf_data t = buf_data b" and "buf_len t = buf_len b"
proof -
  let ?d = "buf_data b" and ?m = "buf_payload b" and ?n = "buf_len b"
  let ?t = "(txbuf s)\<lparr>buf_len := ?n, buf_data := ?d, buf_payload := ?m\<rparr>"
  have le: "?d + ?n \<le> BUF_MAX_LEN" "?d + 4 \<le> BUF_MAX_LEN" using ok len by (simp_all add: buf_ok_def)
  have copy: "buf_copy (txbuf s) b = Inr ?t"
    using ok by (simp add: buf_copy_def buf_ok_def guard_else_def)
  have z: "store (store ?m ?d [ICMP_TYPE_ECHO_REPLY, 0]) (?d + 2) (u16_bytes 0) = store ?m ?d [0, 0, 0, 0]"
    using store_append [of ?m ?d "[ICMP_TYPE_ECHO_REPLY, 0]" "u16_bytes 0"]
    by (simp add: ICMP_TYPE_ECHO_REPLY_def u16_bytes_def)
  have load0: "load (store ?m ?d [0, 0, 0, 0]) ?d ?n = [0, 0] @ [0, 0] @ drop 4 (contents b)"
    using load_patch [of "[0, 0, 0, 0]" ?n ?m ?d] len by (simp add: contents_def numeral_eq_Suc)
  let ?c = "checksum16 ([0, 0] @ [0, 0] @ drop 4 (contents b))"
  have c: "store (store ?m ?d [0, 0, 0, 0]) (?d + 2) (u16_bytes ?c) = store ?m ?d ([0, 0] @ u16_bytes ?c)"
    using store_append [of "store ?m ?d [0, 0, 0, 0]" ?d "[0, 0]" "u16_bytes ?c"]
    by (simp add: store_def fun_eq_iff numeral_eq_Suc u16_bytes_def nth_Cons' less_Suc_eq_le)
  let ?t' = "?t\<lparr>buf_payload := store ?m ?d ([0, 0] @ u16_bytes ?c)\<rparr>"
  have "icmp_resp s r ip = ip_out (s\<lparr>txbuf := ?t'\<rparr>) Txbuf ip NET_PROTOCOL_ICMP"
    unfolding icmp_resp_def get ebind_Inr copy
    using le z load0 c by (simp add: Let_def mem_write_def buf_write_def mem_read_def buf_read_def)
  moreover have "contents ?t' = echo_reply (contents b)"
    using load_patch [of "[0, 0] @ u16_bytes ?c" ?n ?m ?d] len
    by (simp add: contents_def echo_reply_def)
  ultimately show thesis by (rule that) simp_all
qed

text \<open>The unreachable message quotes the 28 bytes at the start of the received packet.\<close>

definition unreach_msg :: "u8 \<Rightarrow> u8 list \<Rightarrow> u8 list" where
  "unreach_msg code quoted = [3, code] @ u16_bytes (checksum16 ([3, code] @ [0, 0] @ [0, 0, 0, 0] @ quoted)) @
     [0, 0, 0, 0] @ quoted"

lemma unreach_msg_verifies: "length quoted = 28 \<Longrightarrow> checksum16 (unreach_msg code quoted) = 0"
  using checksum16_fill [of "[3, code]" "[0, 0, 0, 0] @ quoted"] by (simp add: unreach_msg_def)

lemma u16_bytes_0 [simp]: "u16_bytes 0 = [0, 0]"
  by (simp add: u16_bytes_def)

lemma buf_init_36: "buf_init b 36 = (b\<lparr>buf_len := 36, buf_data := 65626\<rparr>, 0)"
  by (simp add: buf_init_def BUF_MAX_LEN_def)

lemma store_prefix:
  "length xs = length ys \<Longrightarrow> store (store m d (xs @ zs)) d ys = store m d (ys @ zs)"
  by (rule ext) (auto simp: store_def nth_append)

lemma icmp_unreachable_spec:
  assumes rb: "get_buf s recv = Inr rb" and other: "recv \<noteq> Txbuf" and room: "buf_data rb + 28 \<le> BUF_MAX_LEN"
  obtains t where "icmp_unreachable s recv ip code = ip_out (s\<lparr>txbuf := t\<rparr>) Txbuf ip NET_PROTOCOL_ICMP"
    and "contents t = unreach_msg code (load (buf_payload rb) (buf_data rb) 28)"
    and "buf_len t = 36" and "buf_data t = 65626"
proof -
  let ?q = "load (buf_payload rb) (buf_data rb) 28" and ?m = "buf_payload (txbuf s)"
  let ?h = "\<lparr>icmp_type = ICMP_TYPE_UNREACH, icmp_code = code, icmp_checksum16 = 0, icmp_id16 = 0, icmp_seq16 = 0\<rparr>"
  let ?b0 = "\<lparr>buf_len = 36, buf_data = 65626, buf_payload = ?m\<rparr>"
  have init: "buf_do (\<lambda>b. buf_init b 36) s Txbuf = Inr (s\<lparr>txbuf := ?b0\<rparr>)"
    by (cases "txbuf s") (simp add: buf_do_get buf_init_36)
  have other': "get_buf (s\<lparr>txbuf := x\<rparr>) recv = Inr rb" for x
    using rb other get_put_other [of recv Txbuf s x] by simp
  let ?z = "icmp_enc ?h @ ?q"
  have z: "store (store ?m 65626 (icmp_enc ?h)) 65634 ?q = store ?m 65626 ?z"
    using store_append [of ?m 65626 "icmp_enc ?h" ?q] by (simp add: icmph.length_enc)
  have load0: "load (store ?m 65626 ?z) 65626 36 = ?z"
    by (rule load_store_same) (simp add: icmph.length_enc)
  let ?h' = "?h\<lparr>icmp_checksum16 := checksum16 ?z\<rparr>"
  let ?t = "\<lparr>buf_len = 36, buf_data = 65626, buf_payload = store ?m 65626 (icmp_enc ?h' @ ?q)\<rparr>"
  have "icmp_unreachable s recv ip code = ip_out (s\<lparr>txbuf := ?t\<rparr>) Txbuf ip NET_PROTOCOL_ICMP"
    unfolding icmp_unreachable_def
    using room by (simp add: init other' Let_def mem_write_def buf_write_def mem_read_def buf_read_def
        icmph.length_enc BUF_MAX_LEN_def z load0 store_prefix)
  moreover have "icmp_enc ?h' @ ?q = unreach_msg code ?q"
    by (simp add: icmp_enc_def unreach_msg_def ICMP_TYPE_UNREACH_def)
  then have "contents ?t = unreach_msg code ?q"
    by (simp add: contents_def load_store_same unreach_msg_def)
  ultimately show thesis by (rule that) simp_all
qed

subsection \<open>Properties of ICMP\<close>

text \<open>C16. An echo request is answered: the reply carries the request's bytes with type and code
  zero and a checksum that verifies, in one datagram to the sender. The request's own checksum is
  not looked at. Messages of any other type, and those shorter than eight bytes, are ignored.\<close>

theorem icmp_in_echo:
  assumes "map_lookup (clock s) (arp_table s) src = Some mac" and "get_buf s r = Inr b" and "buf_ok b"
    and "34 \<le> buf_data b" and "buf_data b + buf_len b + 46 < BUF_MAX_LEN" and "buf_len b < 65536"
  shows "(8 \<le> buf_len b \<and> contents b ! 0 = 8 \<longrightarrow>
      (\<exists>s'. icmp_in s r (ip_bytes src) = Inr s' \<and>
         sent s' = sent s @ map (ether_frame mac NET_PROTOCOL_IP)
           (ip_datagram src NET_PROTOCOL_ICMP (ip_id s) (echo_reply (contents b))) \<and>
         checksum16 (echo_reply (contents b)) = 0)) \<and>
    (buf_len b < 8 \<or> contents b ! 0 \<noteq> 8 \<longrightarrow> icmp_in s r (ip_bytes src) = Inr s)"
proof (cases "8 \<le> buf_len b")
  case True
  then have read: "mem_read s r (buf_data b) 8 = Inr (take 8 (contents b))"
    using assms(2,3) by (simp add: mem_read_get buf_read_contents)
  have type: "icmp_type (icmp_dec (take 8 (contents b))) = contents b ! 0"
    by (simp add: icmp_dec_def)
  obtain t where t: "icmp_resp s r src = ip_out (s\<lparr>txbuf := t\<rparr>) Txbuf src NET_PROTOCOL_ICMP"
    "contents t = echo_reply (contents b)" "buf_data t = buf_data b" "buf_len t = buf_len b"
    by (rule icmp_resp_spec [OF assms(2,3) True])
  have "ip_of (ip_bytes src) = src"
    using ip_of_append [of src "[]"] by simp
  then have in_eq: "icmp_in s r (ip_bytes src) =
      (if contents b ! 0 = 8 then ip_out (s\<lparr>txbuf := t\<rparr>) Txbuf src NET_PROTOCOL_ICMP else Inr s)"
    using True assms(2) by (simp add: icmp_in_def read type t(1) ICMP_TYPE_ECHO_REQUEST_def)
  have "checksum16 (echo_reply (contents b)) = 0"
    using assms(6) by (intro echo_reply_verifies) simp
  moreover have "\<exists>c. ip_out (s\<lparr>txbuf := t\<rparr>) Txbuf src NET_PROTOCOL_ICMP = Inr c \<and>
      sent c = sent s @ map (ether_frame mac NET_PROTOCOL_IP)
        (ip_datagram src NET_PROTOCOL_ICMP (ip_id s) (echo_reply (contents b)))"
    using ip_out_known [of "s\<lparr>txbuf := t\<rparr>" src mac Txbuf t NET_PROTOCOL_ICMP] assms(1,4,5) t by force
  ultimately show ?thesis using True in_eq by auto
next
  case False
  then show ?thesis using assms(2) by (simp add: icmp_in_def)
qed

theorem icmp_in_echo_witness:
  "\<exists>s'. icmp_in (demo_peer\<lparr>rxbuf := demo_buf [8, 0, 1, 2, 3, 4, 5, 6, 7]\<rparr>) Rxbuf (ip_bytes (10, 0, 0, 9)) = Inr s' \<and>
    length (sent s') = 1"
proof -
  let ?b = "demo_buf [8, 0, 1, 2, 3, 4, 5, 6, 7]"
  have "buf_data ?b = 1000" "buf_ok ?b" by (simp_all add: demo_buf_def buf_ok_def BUF_MAX_LEN_def)
  then show ?thesis
    using icmp_in_echo [of "demo_peer\<lparr>rxbuf := ?b\<rparr>" "(10, 0, 0, 9)" "(2, 0, 0, 0, 0, 9)" Rxbuf ?b]
    by (auto simp: BUF_MAX_LEN_def ip_datagram_def echo_reply_def)
qed

text \<open>An unreachable message for a received packet is one datagram to its sender: type 3, the
  given code, a checksum that verifies, and the 28 bytes found at the start of the packet, which
  are its header and the first eight bytes of its payload when it is that long.\<close>

lemma icmp_unreachable_message:
  assumes "map_lookup (clock s) (arp_table s) src = Some mac"
    and "get_buf s recv = Inr rb" and "recv \<noteq> Txbuf" and "buf_data rb + 28 \<le> BUF_MAX_LEN"
  shows "\<exists>s' msg. icmp_unreachable s recv src code = Inr s' \<and>
    sent s' = sent s @ [ether_frame mac NET_PROTOCOL_IP
      (ip_packet src NET_PROTOCOL_ICMP (ip_id s) 0 False msg)] \<and>
    take 2 msg = [3, code] \<and> checksum16 msg = 0 \<and> drop 4 msg = [0, 0, 0, 0] @
      load (buf_payload rb) (buf_data rb) 28 \<and> ip_id s' = ip_id s + 1"
proof -
  let ?msg = "unreach_msg code (load (buf_payload rb) (buf_data rb) 28)"
  obtain t where t: "icmp_unreachable s recv src code = ip_out (s\<lparr>txbuf := t\<rparr>) Txbuf src NET_PROTOCOL_ICMP"
    "contents t = ?msg" "buf_len t = 36" "buf_data t = 65626"
    by (rule icmp_unreachable_spec [OF assms(2-4)])
  obtain c where c: "ip_out (s\<lparr>txbuf := t\<rparr>) Txbuf src NET_PROTOCOL_ICMP = Inr c"
      "sent c = sent s @ [ether_frame mac NET_PROTOCOL_IP
        (ip_packet src NET_PROTOCOL_ICMP (ip_id s) 0 False ?msg)]" "ip_id c = ip_id s + 1"
    using ip_out_known [of "s\<lparr>txbuf := t\<rparr>" src mac Txbuf t NET_PROTOCOL_ICMP] assms(1) t
    by (force simp: ip_datagram_def BUF_MAX_LEN_def unreach_msg_def)
  have "take 2 ?msg = [3, code]" "drop 4 ?msg = [0, 0, 0, 0] @ load (buf_payload rb) (buf_data rb) 28"
    by (simp_all add: unreach_msg_def)
  then show ?thesis
    using unreach_msg_verifies [of "load (buf_payload rb) (buf_data rb) 28" code] t(1) c
    by (intro exI [of _ c] exI [of _ ?msg]) simp
qed

lemma icmp_unreachable_message_example:
  "\<exists>s'. icmp_unreachable (demo_peer\<lparr>rxbuf := demo_buf (replicate 28 5)\<rparr>) Rxbuf (10, 0, 0, 9) 2 = Inr s' \<and>
    length (sent s') = 1"
proof -
  let ?b = "demo_buf (replicate 28 5)"
  have "buf_data ?b = 1000" by (simp add: demo_buf_def)
  then show ?thesis
    using icmp_unreachable_message [of "demo_peer\<lparr>rxbuf := ?b\<rparr>" "(10, 0, 0, 9)" "(2, 0, 0, 0, 0, 9)"
        Rxbuf ?b 2]
    by (auto simp: BUF_MAX_LEN_def)
qed

end
