(* ===== verification/IpIn.thy ===== *)
theory IpIn
  imports Icmp
begin

text \<open>
  Receiving IP packets (\<^verbatim>\<open>ip_in\<close> of \<^verbatim>\<open>src/ip.c\<close>). \<open>ip_in\<close> is given the dispatcher \<^verbatim>\<open>net_in\<close>, which the
  theory \<open>Net\<close> defines. The lemmas show which packets pass the checks, what the upper layer is
  handed, and what happens to the others.
\<close>

definition IP_DO_NOT_FRAGMENT_bit :: nat where "IP_DO_NOT_FRAGMENT_bit = 14"

text \<open>
  \<^verbatim>\<open>buf->len - total_len\<close> is a \<^verbatim>\<open>size_t\<close>: it wraps when the header announces more bytes than arrived,
  and \<^verbatim>\<open>buf_remove_padding\<close> then refuses it.
\<close>

definition ip_in ::
  "(net \<Rightarrow> bufref \<Rightarrow> u16 \<Rightarrow> u8 list \<Rightarrow> (net \<times> int) res) \<Rightarrow> net \<Rightarrow> bufref \<Rightarrow> u8 list \<Rightarrow> net res" where
  "ip_in net_in s r src_mac =
     ebind (get_buf s r) (\<lambda>b.
     if buf_len b < 20 then Inr s
     else
       ebind (mem_read s r (buf_data b) 20) (\<lambda>bs.
       let p = ip_dec bs in
       if buf_len b < unat (ih_hdr_len p) * 4 then Inr s
       else if ih_version p \<noteq> IP_VERSION_4 then Inr s
       else if ih_hdr_len p < 5 then Inr s
       else if bit (ih_flags_fragment16 p) IP_DO_NOT_FRAGMENT_bit \<and>
               buf_len b > ETHERNET_MAX_TRANSPORT_UNIT then
         icmp_unreachable s r (ih_src_ip p) ICMP_CODE_PROTOCOL_UNREACH
       else if ih_dst_ip p \<noteq> net_if_ip then Inr s
       else
         ebind (mem_write s r (buf_data b + 10) (u16_bytes 0)) (\<lambda>s1.
         ebind (mem_read s1 r (buf_data b) 20) (\<lambda>bs1.
         if ih_hdr_checksum16 p \<noteq> checksum16 bs1 then Inr s1
         else
           ebind (mem_write s1 r (buf_data b + 10) (u16_bytes (ih_hdr_checksum16 p))) (\<lambda>s2.
           let total_len = swap16 (ih_total_len16 p) in
           ebind (buf_do (\<lambda>b. buf_remove_padding b (size_sub (buf_len b) (unat total_len))) s2 r) (\<lambda>s3.
           ebind (buf_do (\<lambda>b. buf_remove_header b 20) s3 r) (\<lambda>s4.
           ebind (net_in s4 r (ucast (ih_protocol p)) (ip_bytes (ih_src_ip p))) (\<lambda>(s5, st).
           if st < 0 then
             ebind (buf_do (\<lambda>b. buf_add_header b 20) s5 r) (\<lambda>s6.
             icmp_unreachable s6 r (ih_src_ip p) ICMP_CODE_PROTOCOL_UNREACH)
           else Inr s5))))))))"

definition ip_init :: "net \<Rightarrow> net" where
  "ip_init s = net_add_protocol s NET_PROTOCOL_IP H_ip_in"

subsection \<open>The checks\<close>

definition ip_header_ok :: "ip_hdr \<Rightarrow> bool" where
  "ip_header_ok h \<longleftrightarrow> ih_version h = 4 \<and> 5 \<le> ih_hdr_len h \<and>
     checksum16 (ip_enc (h\<lparr>ih_hdr_checksum16 := 0\<rparr>)) = ih_hdr_checksum16 h"

lemma load_update:
  assumes "load m d n = xs @ ys @ zs" and "length ys = length ys'"
  shows "load (store m (d + length xs) ys') d n = xs @ ys' @ zs"
proof (rule nth_equalityI)
  have n: "n = length xs + length ys + length zs"
    using arg_cong [OF assms(1), of length] by simp
  show "length (load (store m (d + length xs) ys') d n) = length (xs @ ys' @ zs)"
    using n assms(2) by simp
  fix i
  assume "i < length (load (store m (d + length xs) ys') d n)"
  then have i: "i < n" by simp
  then have "m (d + i) = (xs @ ys @ zs) ! i"
    using arg_cong [OF assms(1), of "\<lambda>l. l ! i"] by (simp add: nth_load)
  then show "load (store m (d + length xs) ys') d n ! i = (xs @ ys' @ zs) ! i"
    using i assms(2) by (auto simp: nth_load store_def nth_append)
qed

lemma ip_enc_split:
  "ip_enc h = take 10 (ip_enc h) @ u16_bytes (ih_hdr_checksum16 h) @ drop 12 (ip_enc h)"
  "ip_enc (h\<lparr>ih_hdr_checksum16 := c\<rparr>) = take 10 (ip_enc h) @ u16_bytes c @ drop 12 (ip_enc h)"
  by (simp_all add: ip_enc_def u16_bytes_def numeral_eq_Suc)

lemma ip_checksum_zeroed:
  assumes "load m d 20 = ip_enc h"
  shows "load (store m (d + 10) (u16_bytes 0)) d 20 = ip_enc (h\<lparr>ih_hdr_checksum16 := 0\<rparr>)"
proof -
  have "load m d 20 = take 10 (ip_enc h) @ u16_bytes (ih_hdr_checksum16 h) @ drop 12 (ip_enc h)"
    unfolding assms by (rule ip_enc_split)
  from load_update [OF this, of "u16_bytes 0"] show ?thesis
    by (simp add: ip_enc_split(2) [where h = h and c = 0])
qed

lemma ip_checksum_restored:
  assumes "load m d 20 = ip_enc h"
  shows "store (store m (d + 10) (u16_bytes 0)) (d + 10) (u16_bytes (ih_hdr_checksum16 h)) = m"
proof -
  have "take 2 (drop 10 (load m d 20)) = u16_bytes (ih_hdr_checksum16 h)"
    unfolding assms by (subst ip_enc_split) simp
  then have "load m (d + 10) 2 = u16_bytes (ih_hdr_checksum16 h)"
    by (simp add: mem_simps)
  moreover have "store (store m (d + 10) (u16_bytes 0)) (d + 10) (load m (d + 10) 2) = m"
    by (simp add: store_store_same mem_simps)
  ultimately show ?thesis by simp
qed

text \<open>The window \<open>ip_in\<close> passes up: trimmed to the announced length, the header removed.\<close>

definition ip_window :: "buf_t \<Rightarrow> nat \<Rightarrow> buf_t" where
  "ip_window b total_len =
     fst (buf_remove_header (fst (buf_remove_padding b (size_sub (buf_len b) total_len))) 20)"

lemma ip_window_eq:
  assumes "total_len \<le> buf_len b" and "20 \<le> total_len" and "buf_ok b"
  shows "ip_window b total_len = b\<lparr>buf_len := total_len - 20, buf_data := buf_data b + 20\<rparr>"
  using assms size_sub_le [of total_len "buf_len b"]
  by (simp add: ip_window_def buf_remove_padding_def buf_remove_header_def buf_ok_def BUF_MAX_LEN_def)

text \<open>All the ways through \<open>ip_in\<close>.\<close>

lemma ip_in_spec:
  assumes get: "get_buf s r = Inr b" and ok: "buf_ok b" and len: "20 \<le> buf_len b"
    and h: "ip_dec (take 20 (contents b)) = h"
  shows "ip_in ni s r src =
    (if buf_len b < unat (ih_hdr_len h) * 4 \<or> ih_version h \<noteq> 4 \<or> ih_hdr_len h < 5 then Inr s
     else if bit (ih_flags_fragment16 h) 14 \<and> buf_len b > 1500 then
       icmp_unreachable s r (ih_src_ip h) ICMP_CODE_PROTOCOL_UNREACH
     else if ih_dst_ip h \<noteq> net_if_ip then Inr s
     else if \<not> ip_header_ok h then
       Inr (put_buf s r (b\<lparr>buf_payload := store (buf_payload b) (buf_data b + 10) (u16_bytes 0)\<rparr>))
     else ebind (ni (put_buf s r (ip_window b (unat (swap16 (ih_total_len16 h))))) r
                  (ucast (ih_protocol h)) (ip_bytes (ih_src_ip h))) (\<lambda>(s5, st).
       if st < 0 then
         ebind (buf_do (\<lambda>b. buf_add_header b 20) s5 r) (\<lambda>s6.
         icmp_unreachable s6 r (ih_src_ip h) ICMP_CODE_PROTOCOL_UNREACH)
       else Inr s5))"
proof -
  let ?d = "buf_data b" and ?m = "buf_payload b"
  have le: "?d + 20 \<le> BUF_MAX_LEN" "?d + 12 \<le> BUF_MAX_LEN" using ok len by (simp_all add: buf_ok_def)
  have bs: "load ?m ?d 20 = ip_enc h"
    using len h [symmetric] iph.enc_dec [of "take 20 (contents b)"]
    by (simp add: contents_def mem_simps min_def)
  have read: "mem_read s r ?d 20 = Inr (ip_enc h)"
    using get le by (simp add: mem_read_get buf_read_def bs)
  let ?b1 = "b\<lparr>buf_payload := store ?m (?d + 10) (u16_bytes 0)\<rparr>"
  have w1: "mem_write s r (?d + 10) (u16_bytes 0) = Inr (put_buf s r ?b1)"
    using get le by (simp add: mem_write_get del: u16_bytes_0)
  have r1: "mem_read (put_buf s r ?b1) r ?d 20 = Inr (ip_enc (h\<lparr>ih_hdr_checksum16 := 0\<rparr>))"
    using le by (simp add: mem_read_get buf_read_def ip_checksum_zeroed [OF bs] del: u16_bytes_0)
  have w2: "mem_write (put_buf s r ?b1) r (?d + 10) (u16_bytes (ih_hdr_checksum16 h)) = Inr (put_buf s r b)"
    using le by (simp add: mem_write_get ip_checksum_restored [OF bs] del: u16_bytes_0)
  have window: "ebind (buf_do (\<lambda>b. buf_remove_padding b (size_sub (buf_len b) n)) (put_buf s r b) r)
      (\<lambda>s3. ebind (buf_do (\<lambda>b. buf_remove_header b 20) s3 r) k) = k (put_buf s r (ip_window b n))" for n k
    by (simp add: buf_do_get ip_window_def)
  show ?thesis
    unfolding ip_in_def get ebind_Inr read
    using len by (auto simp: Let_def iph.dec_enc w1 r1 w2 window ip_header_ok_def not_less
        IP_DO_NOT_FRAGMENT_bit_def ETHERNET_MAX_TRANSPORT_UNIT_def simp del: u16_bytes_0)
qed

lemma contents_window:
  assumes "buf_ok b" and "20 \<le> n" and "n \<le> buf_len b"
  shows "contents (ip_window b n) = take (n - 20) (drop 20 (contents b))" and "buf_ok (ip_window b n)"
  using assms ip_window_eq [OF assms(3,2,1)]
  by (auto simp: contents_def mem_simps buf_ok_def min_def)

lemma ip_header_ok_sent: "ip_header_ok (ip_header ip p i off mf n)"
  by (simp add: ip_header_ok_def ip_header_def Let_def) (simp add: ip_hdr_init_def)

lemma ip_header_fields [simp]:
  "ih_hdr_len (ip_header ip p i off mf n) = 5" "ih_version (ip_header ip p i off mf n) = 4"
  "ih_src_ip (ip_header ip p i off mf n) = net_if_ip" "ih_dst_ip (ip_header ip p i off mf n) = ip"
  "ih_protocol (ip_header ip p i off mf n) = ucast p"
  "ih_total_len16 (ip_header ip p i off mf n) = swap16 (of_nat n)"
  by (simp_all add: ip_header_def Let_def) (simp_all add: ip_hdr_init_def)

lemma ip_in_delivers_lemma:
  assumes get: "get_buf s r = Inr b" and ok: "buf_ok b" and c: "contents b = ip_enc h @ body @ pad"
    and h: "ip_header_ok h" "ih_hdr_len h = 5" "ih_dst_ip h = net_if_ip"
    and total: "unat (swap16 (ih_total_len16 h)) = 20 + length body"
    and df: "\<not> bit (ih_flags_fragment16 h) 14 \<or> buf_len b \<le> 1500"
  shows "\<exists>b'. contents b' = body \<and> buf_ok b' \<and> ip_in ni s r src =
    ebind (ni (put_buf s r b') r (ucast (ih_protocol h)) (ip_bytes (ih_src_ip h))) (\<lambda>(s5, st).
      if st < 0 then ebind (buf_do (\<lambda>b. buf_add_header b 20) s5 r) (\<lambda>s6.
        icmp_unreachable s6 r (ih_src_ip h) ICMP_CODE_PROTOCOL_UNREACH)
      else Inr s5)"
proof -
  have len: "buf_len b = 20 + length body + length pad"
    using arg_cong [OF c, of length] by simp
  have dec: "ip_dec (take 20 (contents b)) = h" by (simp add: c iph.dec_enc)
  have "contents (ip_window b (20 + length body)) = body" "buf_ok (ip_window b (20 + length body))"
    using contents_window [OF ok, of "20 + length body"] len by (simp_all add: c)
  moreover have pass: "\<not> (buf_len b < unat (ih_hdr_len h) * 4 \<or> ih_version h \<noteq> 4 \<or> ih_hdr_len h < 5)"
    "\<not> (bit (ih_flags_fragment16 h) 14 \<and> buf_len b > 1500)" "\<not> ih_dst_ip h \<noteq> net_if_ip" "\<not> \<not> ip_header_ok h"
    using len h df by (auto simp: ip_header_ok_def)
  moreover have "20 \<le> buf_len b" using len by simp
  note ip_in_spec [OF get ok this dec, of ni src, unfolded if_not_P [OF pass(1)] if_not_P [OF pass(2)]
      if_not_P [OF pass(3)] if_not_P [OF pass(4)] total]
  ultimately show ?thesis by (intro exI [of _ "ip_window b (20 + length body)"]) simp
qed

subsection \<open>Properties of receiving\<close>

text \<open>C15. A well-formed packet for this host reaches the upper layer: version 4, a header of 20 bytes
  with a correct checksum, this host as the destination. The dispatcher is called with the
  protocol and source of the header and a window that holds exactly the announced payload, the
  Ethernet padding removed and the header checksum put back.\<close>

theorem ip_in_delivers:
  assumes "get_buf s r = Inr b" and "buf_ok b" and "contents b = ip_enc h @ body @ pad"
    and "ip_header_ok h" and "ih_hdr_len h = 5" and "ih_dst_ip h = net_if_ip"
    and "unat (swap16 (ih_total_len16 h)) = 20 + length body" and "buf_len b \<le> 1500"
  shows "\<exists>b'. contents b' = body \<and> buf_ok b' \<and> ip_in ni s r src =
    ebind (ni (put_buf s r b') r (ucast (ih_protocol h)) (ip_bytes (ih_src_ip h))) (\<lambda>(s5, st).
      if st < 0 then ebind (buf_do (\<lambda>b. buf_add_header b 20) s5 r) (\<lambda>s6.
        icmp_unreachable s6 r (ih_src_ip h) ICMP_CODE_PROTOCOL_UNREACH)
      else Inr s5)"
  using ip_in_delivers_lemma [OF assms(1-7)] assms(8) by blast

definition demo_ip :: "u8 list \<Rightarrow> u8 list" where
  "demo_ip body = ip_packet net_if_ip 17 7 0 False body"

theorem ip_in_delivers_witness:
  "\<exists>b'. contents b' = [1, 2, 3] \<and>
    ip_in (\<lambda>s r p src. Inr (s, 0)) (demo_state\<lparr>rxbuf := demo_buf (demo_ip [1, 2, 3] @ [0, 0])\<rparr>) Rxbuf [] =
      Inr (demo_state\<lparr>rxbuf := b'\<rparr>)"
proof -
  let ?c = "demo_ip [1, 2, 3] @ [0, 0]"
  have "contents (demo_buf ?c) = ip_enc (ip_header net_if_ip 17 7 0 False 23) @ [1, 2, 3] @ [0, 0]"
    by (simp add: demo_ip_def ip_packet_def)
  then show ?thesis
    using ip_in_delivers [of "demo_state\<lparr>rxbuf := demo_buf ?c\<rparr>" Rxbuf "demo_buf ?c"
        "ip_header net_if_ip 17 7 0 False 23" "[1, 2, 3]" "[0, 0]" "\<lambda>s r p src. Inr (s, 0)" "[]"]
      ip_header_ok_sent [of net_if_ip 17 7 0 False 23] buf_ok_demo_buf [of ?c]
    by (auto simp: demo_ip_def ip_packet_def)
qed

text \<open>What one host sends another accepts: every packet that \<open>ip_out\<close> builds for an address is
  delivered by a host with that address, whole datagram or fragment, with its payload, protocol
  and source intact, whatever padding the frame carries.\<close>

lemma ip_in_accepts_ip_out:
  assumes "get_buf s r = Inr b" and "buf_ok b" and "buf_len b \<le> 1500"
    and "contents b = ip_packet net_if_ip protocol pid offset mf body @ pad"
  shows "\<exists>b'. contents b' = body \<and> buf_ok b' \<and> ip_in ni s r src =
    ebind (ni (put_buf s r b') r (ucast (ucast protocol :: u8)) (ip_bytes net_if_ip)) (\<lambda>(s5, st).
      if st < 0 then ebind (buf_do (\<lambda>b. buf_add_header b 20) s5 r) (\<lambda>s6.
        icmp_unreachable s6 r net_if_ip ICMP_CODE_PROTOCOL_UNREACH)
      else Inr s5)"
proof -
  let ?h = "ip_header net_if_ip protocol pid offset mf (20 + length body)"
  have c: "contents b = ip_enc ?h @ body @ pad" using assms(4) by (simp add: ip_packet_def)
  have "length body \<le> 1480" using arg_cong [OF c, of length] assms(3) by simp
  then have "(20 + length body) mod 65536 = 20 + length body" by simp
  then have "unat (swap16 (ih_total_len16 ?h)) = 20 + length body"
    by (simp add: unat_of_nat take_bit_eq_mod del: of_nat_add of_nat_numeral)
  from ip_in_delivers_lemma [OF assms(1,2) c ip_header_ok_sent _ _ this, of ni src] assms(3)
  show ?thesis unfolding ip_header_fields by simp
qed

lemma ip_in_accepts_ip_out_example:
  "\<exists>b'. contents b' = [9] \<and>
    ip_in (\<lambda>s r p src. Inr (s, 0)) (demo_state\<lparr>rxbuf := demo_buf (demo_ip [9] @ replicate 25 0)\<rparr>) Rxbuf [] =
      Inr (demo_state\<lparr>rxbuf := b'\<rparr>)"
  using ip_in_accepts_ip_out [of "demo_state\<lparr>rxbuf := demo_buf (demo_ip [9] @ replicate 25 0)\<rparr>" Rxbuf
      "demo_buf (demo_ip [9] @ replicate 25 0)" 17 7 0 False "[9]" "replicate 25 0"
      "\<lambda>s r p src. Inr (s, 0)" "[]"]
    buf_ok_demo_buf [of "demo_ip [9] @ replicate 25 0"]
  by (auto simp: demo_ip_def ip_packet_def)

text \<open>Packets that fail a check go no further: too short for a header or for the length the
  header gives itself, not version 4, not for this host, or with a wrong checksum. Nothing is
  sent, the upper layer is not called, and the state is unchanged but for the checksum field
  that stays zeroed in the buffer of a packet with a bad checksum.\<close>

lemma ip_in_drops:
  assumes "get_buf s r = Inr b" and "buf_ok b" and "buf_len b \<le> 1500"
    and "h = ip_dec (take 20 (contents b))"
    and "buf_len b < 20 \<or> buf_len b < unat (ih_hdr_len h) * 4 \<or> ih_hdr_len h < 5 \<or>
      ih_version h \<noteq> 4 \<or> ih_dst_ip h \<noteq> net_if_ip \<or>
      checksum16 (ip_enc (h\<lparr>ih_hdr_checksum16 := 0\<rparr>)) \<noteq> ih_hdr_checksum16 h"
  shows "\<exists>b'. ip_in ni s r src = Inr (put_buf s r b') \<and>
    (b' = b \<or> b' = b\<lparr>buf_payload := store (buf_payload b) (buf_data b + 10) [0, 0]\<rparr>)"
proof (cases "buf_len b < 20")
  case True
  then show ?thesis
    using assms(1) put_get_id [OF assms(1)] by (intro exI [of _ b]) (simp add: ip_in_def)
next
  case False
  then have "20 \<le> buf_len b" by simp
  note spec = ip_in_spec [OF assms(1,2) this assms(4) [symmetric], of ni src]
  let ?bad = "buf_len b < unat (ih_hdr_len h) * 4 \<or> ih_version h \<noteq> 4 \<or> ih_hdr_len h < 5"
  have small: "\<not> (bit (ih_flags_fragment16 h) 14 \<and> buf_len b > 1500)" using assms(3) by simp
  note spec = spec [unfolded if_not_P [OF small]]
  show ?thesis
  proof (cases "?bad \<or> ih_dst_ip h \<noteq> net_if_ip")
    case True
    then have "ip_in ni s r src = Inr s" using spec by (cases ?bad) simp_all
    then show ?thesis using put_get_id [OF assms(1)] by (intro exI [of _ b]) simp
  next
    case ok: False
    then have "\<not> ip_header_ok h" using assms(5) False by (auto simp: ip_header_ok_def)
    then show ?thesis using ok spec by auto
  qed
qed

lemma ip_in_drops_example:
  "\<exists>b'. ip_in (\<lambda>s r p src. Inl AssertFailed) (demo_state\<lparr>rxbuf := demo_buf (replicate 40 0x66)\<rparr>) Rxbuf [] =
    Inr (demo_state\<lparr>rxbuf := b'\<rparr>)"
proof -
  have "ih_version (ip_dec (take 20 (contents (demo_buf (replicate 40 0x66))))) \<noteq> 4"
    by (simp add: ip_dec_def hi_nibble_def)
  then show ?thesis
    using ip_in_drops [of "demo_state\<lparr>rxbuf := demo_buf (replicate 40 0x66)\<rparr>" Rxbuf
        "demo_buf (replicate 40 0x66)" _ "\<lambda>s r p src. Inl AssertFailed" "[]", OF _ _ _ refl]
      buf_ok_demo_buf [of "replicate 40 0x66"]
    by auto
qed

text \<open>C39. A total length below 20 is not refused: the header then cannot be removed, and the upper
  layer is handed the first bytes of the IP header as if they were its message.\<close>

theorem ip_in_short_total_length:
  assumes "get_buf s r = Inr b" and "buf_ok b" and "20 \<le> buf_len b" and "buf_len b \<le> 1500"
    and "h = ip_dec (take 20 (contents b))" and "ip_header_ok h" and "ih_hdr_len h = 5"
    and "ih_dst_ip h = net_if_ip" and "n = unat (swap16 (ih_total_len16 h))" and "n < 20"
  shows "\<exists>b'. contents b' = take n (ip_enc h) \<and> ip_in ni s r src =
    ebind (ni (put_buf s r b') r (ucast (ih_protocol h)) (ip_bytes (ih_src_ip h))) (\<lambda>(s5, st).
      if st < 0 then ebind (buf_do (\<lambda>b. buf_add_header b 20) s5 r) (\<lambda>s6.
        icmp_unreachable s6 r (ih_src_ip h) ICMP_CODE_PROTOCOL_UNREACH)
      else Inr s5)"
proof -
  have "size_sub (buf_len b) n = buf_len b - n"
    using assms(2,3,10) by (intro size_sub_le) (simp_all add: buf_ok_def BUF_MAX_LEN_def)
  then have w: "ip_window b n = b\<lparr>buf_len := n\<rparr>"
    using assms(3,10) by (simp add: ip_window_def buf_remove_padding_def buf_remove_header_def)
  have "take 20 (contents b) = ip_enc h"
    unfolding assms(5) using assms(3) by (simp add: iph.enc_dec)
  then have "take n (contents b) = take n (ip_enc h)"
    using assms(10) by (metis less_imp_le min.absorb1 take_take)
  then have "contents (ip_window b n) = take n (ip_enc h)"
    using assms(3,10) by (simp add: w contents_def mem_simps min_def)
  then show ?thesis
    using ip_in_spec [OF assms(1-3) assms(5) [symmetric], of ni src] assms(3,4,6-9)
    by (intro exI [of _ "ip_window b n"]) (simp add: ip_header_ok_def)
qed

theorem ip_in_short_total_length_witness:
  "\<exists>b'. contents b' = take 8 (ip_enc (ip_header net_if_ip 1 0 0 False 8)) \<and>
    ip_in (\<lambda>s r p src. Inr (s, 0))
      (demo_state\<lparr>rxbuf := demo_buf (ip_enc (ip_header net_if_ip 1 0 0 False 8))\<rparr>) Rxbuf [] =
    Inr (demo_state\<lparr>rxbuf := b'\<rparr>)"
proof -
  let ?h = "ip_header net_if_ip 1 0 0 False 8"
  have "unat (swap16 (ih_total_len16 ?h)) = 8" by simp
  then show ?thesis
    using ip_in_short_total_length [of "demo_state\<lparr>rxbuf := demo_buf (ip_enc ?h)\<rparr>" Rxbuf
        "demo_buf (ip_enc ?h)" ?h 8 "\<lambda>s r p src. Inr (s, 0)" "[]"]
      ip_header_ok_sent [of net_if_ip 1 0 0 False 8] buf_ok_demo_buf [of "ip_enc ?h"]
    by (auto simp: iph.dec_enc)
qed

end
