(* ===== verification/Udp.thy ===== *)
theory Udp
  imports IpIn
begin

text \<open>
  UDP (\<^verbatim>\<open>src/udp.c\<close>). The checksum covers a pseudo header that is written in front of the message
  for the time of the computation; its protocol byte is taken from the memory where the IP header
  of a received packet stands. \<open>udp_in\<close> is given the functions behind the handler pointers.
\<close>

record udp_hdr =
  uh_src_port16 :: u16
  uh_dst_port16 :: u16
  uh_total_len16 :: u16
  uh_checksum16 :: u16

definition udp_enc :: "udp_hdr \<Rightarrow> u8 list" where
  "udp_enc h = u16_bytes (uh_src_port16 h) @ u16_bytes (uh_dst_port16 h) @
     u16_bytes (uh_total_len16 h) @ u16_bytes (uh_checksum16 h)"

definition udp_dec :: "u8 list \<Rightarrow> udp_hdr" where
  "udp_dec bs = \<lparr>uh_src_port16 = le16 (bs ! 0) (bs ! 1), uh_dst_port16 = le16 (bs ! 2) (bs ! 3),
     uh_total_len16 = le16 (bs ! 4) (bs ! 5), uh_checksum16 = le16 (bs ! 6) (bs ! 7)\<rparr>"

interpretation udph: fixed_codec udp_enc udp_dec 8
proof unfold_locales
  fix h
  show "length (udp_enc h) = 8" by (simp add: udp_enc_def)
  show "udp_dec (udp_enc h) = h"
    by (simp add: udp_enc_def udp_dec_def u16_bytes_def codec_simps)
next
  fix bs :: "u8 list"
  assume "length bs = 8"
  then show "udp_enc (udp_dec bs) = bs"
    using list_of_8 [of bs] by (auto simp: udp_enc_def udp_dec_def u16_bytes_le16)
qed

record peso_hdr =
  ps_src_ip :: ip_addr
  ps_dst_ip :: ip_addr
  ps_placeholder :: u8
  ps_protocol :: u8
  ps_total_len16 :: u16

definition peso_enc :: "peso_hdr \<Rightarrow> u8 list" where
  "peso_enc h = ip_bytes (ps_src_ip h) @ ip_bytes (ps_dst_ip h) @ [ps_placeholder h, ps_protocol h] @
     u16_bytes (ps_total_len16 h)"

lemma length_peso_enc [simp]: "length (peso_enc h) = 12"
  by (simp add: peso_enc_def)

text \<open>Reading or writing in front of the payload array, where \<^verbatim>\<open>buf->data - n\<close> underflows, is out of bounds.\<close>

definition before_data :: "buf_t \<Rightarrow> nat \<Rightarrow> nat res" where
  "before_data b n = (if n \<le> buf_data b then Inr (buf_data b - n) else Inl OutOfBounds)"

definition udp_checksum :: "net \<Rightarrow> bufref \<Rightarrow> ip_addr \<Rightarrow> ip_addr \<Rightarrow> (net \<times> u16) res" where
  "udp_checksum s r src_ip dst_ip =
     ebind (get_buf s r) (\<lambda>b.
     ebind (before_data b 20) (\<lambda>ip_pos.
     ebind (mem_read s r ip_pos 20) (\<lambda>backup.
     let udp_length = (of_nat (buf_len b) :: u16) in
     ebind (buf_do (\<lambda>b. buf_add_header b 12) s r) (\<lambda>s1.
     ebind (get_buf s1 r) (\<lambda>b1.
     ebind (mem_write s1 r (buf_data b1)
       (peso_enc \<lparr>ps_src_ip = src_ip, ps_dst_ip = dst_ip, ps_placeholder = 0,
          ps_protocol = ih_protocol (ip_dec backup), ps_total_len16 = swap16 udp_length\<rparr>)) (\<lambda>s2.
     let has_one_padding = odd (buf_len b1) in
     ebind (if has_one_padding
            then ebind (buf_op (\<lambda>b. buf_add_padding b 1) s2 r) (\<lambda>(s3, st).
                 ebind (guard_else (st = 0) AssertFailed) (\<lambda>_. Inr s3))
            else Inr s2) (\<lambda>s3.
     ebind (get_buf s3 r) (\<lambda>b3.
     ebind (mem_read s3 r (buf_data b3) (buf_len b3)) (\<lambda>bs.
     let checksum = checksum16 bs in
     ebind (if has_one_padding then buf_do (\<lambda>b. buf_remove_padding b 1) s3 r else Inr s3) (\<lambda>s4.
     ebind (buf_do (\<lambda>b. buf_remove_header b 12) s4 r) (\<lambda>s5.
     ebind (get_buf s5 r) (\<lambda>b5.
     ebind (before_data b5 20) (\<lambda>ip_pos5.
     ebind (mem_write s5 r ip_pos5 backup) (\<lambda>s6.
     Inr (s6, checksum)))))))))))))))"

definition udp_in ::
  "(udp_handler_t \<Rightarrow> net \<Rightarrow> u8 list \<Rightarrow> ip_addr \<Rightarrow> u16 \<Rightarrow> net res) \<Rightarrow> net \<Rightarrow> bufref \<Rightarrow> u8 list \<Rightarrow> net res" where
  "udp_in call s r src =
     ebind (get_buf s r) (\<lambda>b.
     if buf_len b < 8 then Inr s
     else
       let src_ip_copy = ip_of src in
       ebind (mem_read s r (buf_data b) 8) (\<lambda>bs.
       let p = udp_dec bs; total_len = swap16 (uh_total_len16 p) in
       if buf_len b < unat total_len then Inr s
       else
         let dst_port = swap16 (uh_dst_port16 p) in
         if dst_port \<noteq> 60000 then Inr s
         else
           let checksum_expected = uh_checksum16 p in
           ebind (if checksum_expected = 0 then Inr (s, True)
                  else
                    ebind (mem_write s r (buf_data b + 6) (u16_bytes 0)) (\<lambda>s1.
                    ebind (udp_checksum s1 r src_ip_copy net_if_ip) (\<lambda>(s2, checksum_actual).
                    if checksum_expected \<noteq> checksum_actual then Inr (s2, False)
                    else ebind (mem_write s2 r (buf_data b + 6) (u16_bytes checksum_expected)) (\<lambda>s3.
                         Inr (s3, True))))) (\<lambda>(s4, valid).
           if \<not> valid then Inr s4
           else
             (case map_get (udp_table s4) (clock s4) (Some dst_port) of
                None \<Rightarrow> Inr s4
              | Some i \<Rightarrow>
                  ebind (get_buf s4 r) (\<lambda>b4.
                  ebind (mem_read s4 r (buf_data b4 + 8) (buf_len b4 - 8)) (\<lambda>data.
                  call (map_val (udp_table s4) i) s4 data src_ip_copy (swap16 (uh_src_port16 p))))))))"

definition udp_out :: "net \<Rightarrow> bufref \<Rightarrow> u16 \<Rightarrow> ip_addr \<Rightarrow> u16 \<Rightarrow> net res" where
  "udp_out s r src_port dst_ip dst_port =
     ebind (buf_do (\<lambda>b. buf_add_header b 8) s r) (\<lambda>s1.
     ebind (get_buf s1 r) (\<lambda>b.
     let p = \<lparr>uh_src_port16 = swap16 src_port, uh_dst_port16 = swap16 dst_port,
              uh_total_len16 = swap16 (of_nat (buf_len b)), uh_checksum16 = 0\<rparr> in
     ebind (mem_write s1 r (buf_data b) (udp_enc p)) (\<lambda>s2.
     ebind (udp_checksum s2 r net_if_ip dst_ip) (\<lambda>(s3, checksum).
     ebind (mem_write s3 r (buf_data b) (udp_enc (p\<lparr>uh_checksum16 := checksum\<rparr>))) (\<lambda>s4.
     ip_out s4 r dst_ip NET_PROTOCOL_UDP)))))"

definition udp_init :: "net \<Rightarrow> net" where
  "udp_init s =
     net_add_protocol
       (s\<lparr>udp_table := map_init \<lparr>ent_key = 0, ent_val = H_udp_handler, ent_time = 0\<rparr> 2 8 0 0 None\<rparr>)
       NET_PROTOCOL_UDP H_udp_in"

definition udp_open :: "net \<Rightarrow> u16 \<Rightarrow> udp_handler_t \<Rightarrow> net \<times> int" where
  "udp_open s port handler =
     (case map_set (udp_table s) (clock s) port handler of (t, st) \<Rightarrow> (s\<lparr>udp_table := t\<rparr>, st))"

definition udp_close :: "net \<Rightarrow> u16 \<Rightarrow> net" where
  "udp_close s port = s\<lparr>udp_table := map_delete (udp_table s) (clock s) port\<rparr>"

definition udp_send :: "net \<Rightarrow> u8 list \<Rightarrow> u16 \<Rightarrow> u16 \<Rightarrow> ip_addr \<Rightarrow> u16 \<Rightarrow> net res" where
  "udp_send s data len src_port dst_ip dst_port =
     ebind (buf_do (\<lambda>b. buf_init b (unat len)) s Txbuf) (\<lambda>s1.
     ebind (guard_else (unat len \<le> length data) OutOfBounds) (\<lambda>_.
     ebind (get_buf s1 Txbuf) (\<lambda>b.
     ebind (mem_write s1 Txbuf (buf_data b) (take (unat len) data)) (\<lambda>s2.
     udp_out s2 Txbuf src_port dst_ip dst_port))))"

subsection \<open>The checksum routine\<close>

lemma store_restore:
  "off \<le> off' \<Longrightarrow> off' + length xs \<le> off + n \<Longrightarrow> store (store m off' xs) off (load m off n) = m"
  by (rule ext) (auto simp: store_def nth_load)

text \<open>What the routine leaves behind: a zero after the message when its length is odd.\<close>

definition padded :: "buf_t \<Rightarrow> buf_t" where
  "padded b = (if odd (buf_len b)
     then b\<lparr>buf_payload := store (buf_payload b) (buf_data b + buf_len b) [0]\<rparr> else b)"

lemma udp_padded_fields [simp]:
  "buf_len (padded b) = buf_len b" "buf_data (padded b) = buf_data b" "contents (padded b) = contents b"
  "buf_ok (padded b) = buf_ok b"
  by (simp_all add: padded_def contents_def mem_simps buf_ok_def)

definition udp_peso :: "ip_addr \<Rightarrow> ip_addr \<Rightarrow> u8 \<Rightarrow> nat \<Rightarrow> u8 list" where
  "udp_peso src dst protocol len =
     peso_enc \<lparr>ps_src_ip = src, ps_dst_ip = dst, ps_placeholder = 0, ps_protocol = protocol,
       ps_total_len16 = swap16 (of_nat len)\<rparr>"

lemma length_udp_peso [simp]: "length (udp_peso src dst p n) = 12"
  by (simp add: udp_peso_def)

text \<open>The byte that is taken for the protocol number stands eleven bytes before the message.\<close>

lemma udp_checksum_spec:
  assumes get: "get_buf s r = Inr b" and room: "20 \<le> buf_data b" "buf_data b + buf_len b + 1 < BUF_MAX_LEN"
  shows "udp_checksum s r src dst =
    Inr (put_buf s r (padded b),
         checksum16 (udp_peso src dst (buf_payload b (buf_data b - 11)) (buf_len b) @ contents b))"
proof -
  let ?d = "buf_data b" and ?m = "buf_payload b" and ?n = "buf_len b"
  let ?backup = "load ?m (?d - 20) 20"
  let ?peso = "udp_peso src dst (?m (?d - 11)) ?n"
  have proto: "ih_protocol (ip_dec ?backup) = ?m (?d - 11)"
    using room by (simp add: ip_dec_def nth_load)
  have add: "buf_add_header b 12 = (b\<lparr>buf_len := ?n + 12, buf_data := ?d - 12\<rparr>, 0)"
    using room by (simp add: buf_add_header_def)
  let ?m1 = "store ?m (?d - 12) ?peso"
  let ?m2 = "if odd ?n then store ?m1 (?d + ?n) [0] else ?m1"
  have bs: "load ?m2 (?d - 12) (12 + ?n + (if odd ?n then 1 else 0)) =
      ?peso @ contents b @ (if odd ?n then [0] else [])"
  proof -
    have l: "load ?m1 (?d - 12) (12 + ?n) = ?peso @ contents b"
      using load_store_split [of ?m "?d - 12" ?peso ?n] room by (simp add: contents_def)
    show ?thesis
    proof (cases "odd ?n")
      case True
      have e: "?d - 12 + (12 + ?n) = ?d + ?n" using room by simp
      have "load (store ?m1 (?d + ?n) [0]) (?d - 12) (12 + ?n + 1) =
          load (store ?m1 (?d + ?n) [0]) (?d - 12) (12 + ?n) @ load (store ?m1 (?d + ?n) [0]) (?d + ?n) 1"
        using True by (simp only: load_append [of _ "?d - 12" "12 + ?n" 1] e)
      then show ?thesis
        using True l room by (simp add: load_store_disjoint load_store_same)
    next
      case False
      then show ?thesis using l by simp
    qed
  qed
  have restored: "store ?m2 (?d - 20) ?backup = buf_payload (padded b)"
  proof (cases "odd ?n")
    case True
    have "store (store ?m1 (?d + ?n) [0]) (?d - 20) ?backup =
        store (store ?m1 (?d - 20) ?backup) (?d + ?n) [0]"
      using room by (intro store_commute) simp
    then show ?thesis
      using True room by (simp add: padded_def store_restore)
  qed (use room in \<open>simp add: padded_def store_restore\<close>)
  note steps = udp_checksum_def get before_data_def mem_read_get buf_read_def buf_do_get buf_op_get add
    mem_write_get buf_remove_header_def Let_def
  have le: "?d - 20 \<le> 131305" using room by simp
  have pay: "b\<lparr>buf_payload := buf_payload (padded b)\<rparr> = padded b"
    by (simp add: padded_def)
  show ?thesis
  proof (cases "odd ?n")
    case True
    have pad: "buf_add_padding (b\<lparr>buf_len := ?n + 12, buf_data := ?d - 12, buf_payload := ?m1\<rparr>) (Suc 0) =
        (b\<lparr>buf_len := ?n + 13, buf_data := ?d - 12, buf_payload := store ?m1 (?d + ?n) [0]\<rparr>, 0)"
      using room by (simp add: buf_add_padding_def)
    have bs': "load (store ?m1 (?d + ?n) [0]) (?d - 12) (?n + 13) = (?peso @ contents b) @ [0]"
      using bs True by (simp add: add.commute [of ?n])
    have restored': "store (store ?m1 (?d + ?n) [0]) (?d - 20) ?backup = buf_payload (padded b)"
      using restored True by simp
    have "buf_remove_padding (b\<lparr>buf_len := ?n + 13, buf_data := ?d - 12, buf_payload := store ?m1 (?d + ?n) [0]\<rparr>) (Suc 0) =
        (b\<lparr>buf_len := ?n + 12, buf_data := ?d - 12, buf_payload := store ?m1 (?d + ?n) [0]\<rparr>, 0)"
      by (simp add: buf_remove_padding_def)
    then show ?thesis
      using room True checksum16_pad [of "?peso @ contents b"] le
      by (simp add: steps proto udp_peso_def [symmetric] pad bs' restored' pay del: append_assoc)
  next
    case False
    have bs': "load ?m1 (?d - 12) (?n + 12) = ?peso @ contents b"
      using bs False by (simp add: add.commute [of ?n])
    have restored': "store ?m1 (?d - 20) ?backup = buf_payload (padded b)"
      using restored False by simp
    show ?thesis
      using room False le
      by (simp add: steps proto udp_peso_def [symmetric] bs' restored' pay)
  qed
qed

subsection \<open>Sending\<close>

definition udp_message :: "ip_addr \<Rightarrow> ip_addr \<Rightarrow> u16 \<Rightarrow> u16 \<Rightarrow> u8 \<Rightarrow> u8 list \<Rightarrow> u8 list" where
  "udp_message src dst sp dp protocol data =
     (let h = \<lparr>uh_src_port16 = swap16 sp, uh_dst_port16 = swap16 dp,
              uh_total_len16 = swap16 (of_nat (8 + length data)), uh_checksum16 = 0\<rparr>
      in udp_enc (h\<lparr>uh_checksum16 :=
           checksum16 (udp_peso src dst protocol (8 + length data) @ udp_enc h @ data)\<rparr>) @ data)"

lemma length_udp_enc [simp]: "length (udp_enc h) = 8"
  by (rule udph.length_enc)

lemma length_udp_message [simp]: "length (udp_message src dst sp dp p data) = 8 + length data"
  by (simp add: udp_message_def Let_def)

text \<open>Overwriting part of the window of a buffer.\<close>

definition poke :: "buf_t \<Rightarrow> nat \<Rightarrow> u8 list \<Rightarrow> buf_t" where
  "poke b off bs = b\<lparr>buf_payload := store (buf_payload b) (buf_data b + off) bs\<rparr>"

lemma poke_fields [simp]:
  "buf_len (poke b off bs) = buf_len b" "buf_data (poke b off bs) = buf_data b"
  "buf_ok (poke b off bs) = buf_ok b"
  "length bs = length cs \<Longrightarrow> poke (poke b off bs) off cs = poke b off cs"
  by (simp_all add: poke_def buf_ok_def store_store_same)

lemma poke_before: "i < buf_data b \<Longrightarrow> buf_payload (poke b off bs) i = buf_payload b i"
  by (simp add: poke_def store_def)

lemma contents_poke:
  "contents b = xs @ ys @ zs \<Longrightarrow> length ys = length ys' \<Longrightarrow> off = length xs \<Longrightarrow>
    contents (poke b off ys') = xs @ ys' @ zs"
  unfolding contents_def poke_def by (simp add: load_update)

lemma mem_write_poke:
  "get_buf s r = Inr b \<Longrightarrow> buf_data b + off + length bs \<le> BUF_MAX_LEN \<Longrightarrow>
    mem_write s r (buf_data b + off) bs = Inr (put_buf s r (poke b off bs))"
  by (simp add: mem_write_get poke_def)

lemma udp_out_spec:
  assumes get: "get_buf s r = Inr b" and room: "28 \<le> buf_data b" "buf_data b + buf_len b + 1 < BUF_MAX_LEN"
  obtains c where "udp_out s r sp ip dp = ip_out (put_buf s r c) r ip NET_PROTOCOL_UDP"
    and "contents c = udp_message net_if_ip ip sp dp (buf_payload b (buf_data b - 19)) (contents b)"
    and "buf_data c = buf_data b - 8" and "buf_len c = buf_len b + 8"
proof -
  let ?n = "8 + buf_len b" and ?p = "buf_payload b (buf_data b - 19)"
  define h where "h = \<lparr>uh_src_port16 = swap16 sp, uh_dst_port16 = swap16 dp,
    uh_total_len16 = swap16 (of_nat ?n), uh_checksum16 = 0\<rparr>"
  let ?b1 = "b\<lparr>buf_len := buf_len b + 8, buf_data := buf_data b - 8\<rparr>"
  let ?b2 = "poke ?b1 0 (udp_enc h)"
  have add: "buf_add_header b 8 = (?b1, 0)" using room by (simp add: buf_add_header_def)
  have "contents ?b1 = [] @ load (buf_payload b) (buf_data b - 8) 8 @ contents b"
    using room load_append [of "buf_payload b" "buf_data b - 8" 8 "buf_len b"]
    by (simp add: contents_def add.commute)
  then have c2: "contents ?b2 = udp_enc h @ contents b"
    using contents_poke [of ?b1 "[]" "load (buf_payload b) (buf_data b - 8) 8" "contents b" "udp_enc h" 0]
    by simp
  let ?s2 = "put_buf s r ?b2"
  have p2: "buf_payload ?b2 (buf_data ?b2 - 11) = ?p"
    using room by (simp add: poke_before)
  let ?sum = "checksum16 (udp_peso net_if_ip ip ?p ?n @ udp_enc h @ contents b)"
  have sum: "udp_checksum ?s2 r net_if_ip ip = Inr (put_buf s r (padded ?b2), ?sum)"
    using udp_checksum_spec [of ?s2 r ?b2 net_if_ip ip] room p2 c2 by (simp add: add.commute)
  let ?c = "poke (padded ?b2) 0 (udp_enc (h\<lparr>uh_checksum16 := ?sum\<rparr>))"
  have "udp_message net_if_ip ip sp dp ?p (contents b) = udp_enc (h\<lparr>uh_checksum16 := ?sum\<rparr>) @ contents b"
    unfolding udp_message_def Let_def h_def by simp
  then have "contents ?c = udp_message net_if_ip ip sp dp ?p (contents b)"
    using contents_poke [of "padded ?b2" "[]" "udp_enc h" "contents b" "udp_enc (h\<lparr>uh_checksum16 := ?sum\<rparr>)" 0]
    by (simp add: c2)
  moreover have "udp_out s r sp ip dp = ip_out (put_buf s r ?c) r ip NET_PROTOCOL_UDP"
  proof -
    have w1: "mem_write (put_buf s r ?b1) r (buf_data ?b1) (udp_enc h) = Inr ?s2"
      using mem_write_poke [of "put_buf s r ?b1" r ?b1 0 "udp_enc h"] room by simp
    have w2: "mem_write (put_buf s r (padded ?b2)) r (buf_data ?b1) bs = Inr (put_buf s r (poke (padded ?b2) 0 bs))"
      if "length bs = 8" for bs
      using mem_write_poke [of "put_buf s r (padded ?b2)" r "padded ?b2" 0 bs] room that by simp
    have n: "swap16 (of_nat (buf_len ?b1)) = swap16 (of_nat ?n)" by (simp add: add.commute)
    show ?thesis
      unfolding udp_out_def buf_do_get [OF get] add fst_conv ebind_Inr get_put_same Let_def n h_def [symmetric] w1 sum prod.case
      by (simp only: w2 [OF length_udp_enc] ebind_Inr)
  qed
  ultimately show thesis by (intro that [of ?c]) simp_all
qed

subsection \<open>Receiving\<close>

lemma udp_enc_split:
  "udp_enc h = take 6 (udp_enc h) @ u16_bytes (uh_checksum16 h) @ []"
  "udp_enc (h\<lparr>uh_checksum16 := c\<rparr>) = take 6 (udp_enc h) @ u16_bytes c @ []"
  by (simp_all add: udp_enc_def u16_bytes_def numeral_eq_Suc)

lemma contents_udp_checksum:
  "contents b = udp_enc h @ data \<Longrightarrow>
    contents (poke b 6 (u16_bytes c)) = udp_enc (h\<lparr>uh_checksum16 := c\<rparr>) @ data"
  using contents_poke [of b "take 6 (udp_enc h)" "u16_bytes (uh_checksum16 h)" data "u16_bytes c" 6]
  by (simp add: udp_enc_split(2) [where h = h and c = c]) (metis append.assoc append_Nil2 udp_enc_split(1))

lemma udp_in_spec:
  fixes b data src
  assumes get: "get_buf s r = Inr b" and room: "20 \<le> buf_data b" "buf_data b + buf_len b + 1 < BUF_MAX_LEN"
    and c: "contents b = udp_enc h @ data"
  defines "cks \<equiv> checksum16 (udp_peso src net_if_ip (buf_payload b (buf_data b - 11)) (8 + length data)
    @ udp_enc (h\<lparr>uh_checksum16 := 0\<rparr>) @ data)"
  obtains b0 b1 where "contents b0 = udp_enc (h\<lparr>uh_checksum16 := 0\<rparr>) @ data" and "contents b1 = contents b"
    and "buf_data b1 = buf_data b" and "buf_len b1 = buf_len b" and "buf_data b0 = buf_data b"
    and "udp_in call s r (ip_bytes src) =
      (if 8 + length data < unat (swap16 (uh_total_len16 h)) \<or> swap16 (uh_dst_port16 h) \<noteq> 60000 then Inr s
       else if uh_checksum16 h \<noteq> 0 \<and> uh_checksum16 h \<noteq> cks then Inr (put_buf s r b0)
       else case map_get (udp_table s) (clock s) (Some 60000) of
              None \<Rightarrow> Inr (put_buf s r b1)
            | Some i \<Rightarrow> call (map_val (udp_table s) i) (put_buf s r b1) data src (swap16 (uh_src_port16 h)))"
proof -
  let ?d = "buf_data b"
  have len: "buf_len b = 8 + length data" using arg_cong [OF c, of length] by simp
  have ok: "buf_ok b" using room by (simp add: buf_ok_def)
  have read: "mem_read s r ?d 8 = Inr (udp_enc h)"
    using get ok len c by (simp add: mem_read_get buf_read_contents)
  define z where "z = u16_bytes 0"
  let ?b0 = "poke b 6 z"
  let ?b0' = "padded ?b0"
  let ?b1 = "if uh_checksum16 h = 0 then b else poke ?b0' 6 (u16_bytes (uh_checksum16 h))"
  have c0: "contents ?b0' = udp_enc (h\<lparr>uh_checksum16 := 0\<rparr>) @ data"
    by (simp only: udp_padded_fields z_def contents_udp_checksum [OF c])
  have c1: "contents ?b1 = contents b"
    using contents_udp_checksum [OF c0, of "uh_checksum16 h"] c by simp
  have w0: "mem_write s r (?d + 6) (u16_bytes 0) = Inr (put_buf s r ?b0)"
    unfolding z_def [symmetric] using room len get by (simp add: mem_write_poke z_def)
  have sum: "udp_checksum (put_buf s r ?b0) r src net_if_ip = Inr (put_buf s r ?b0', cks)"
    using udp_checksum_spec [of "put_buf s r ?b0" r ?b0 src net_if_ip] room
      contents_udp_checksum [OF c, of 0, folded z_def]
    by (simp add: poke_before cks_def len z_def [symmetric])
  have w1: "mem_write (put_buf s r ?b0') r (?d + 6) (u16_bytes k) = Inr (put_buf s r (poke ?b0' 6 (u16_bytes k)))" for k
    using mem_write_poke [of "put_buf s r ?b0'" r ?b0' 6 "u16_bytes k"] room len by simp
  have data: "mem_read (put_buf s r ?b1) r (buf_data ?b1 + 8) (buf_len ?b1 - 8) = Inr data"
  proof -
    have "load (buf_payload ?b1) (buf_data ?b1 + 8) (buf_len ?b1 - 8) = drop 8 (contents ?b1)"
      by (simp add: contents_def mem_simps)
    also have "\<dots> = data" by (simp add: c1 c)
    finally show ?thesis
      using room len by (simp add: mem_read_get buf_read_def)
  qed
  have id: "uh_checksum16 h = 0 \<Longrightarrow> put_buf s r ?b1 = s" using put_get_id [OF get] by simp
  have "udp_in call s r (ip_bytes src) =
      (if 8 + length data < unat (swap16 (uh_total_len16 h)) \<or> swap16 (uh_dst_port16 h) \<noteq> 60000 then Inr s
       else if uh_checksum16 h \<noteq> 0 \<and> uh_checksum16 h \<noteq> cks then Inr (put_buf s r ?b0')
       else case map_get (udp_table s) (clock s) (Some 60000) of
              None \<Rightarrow> Inr (put_buf s r ?b1)
            | Some i \<Rightarrow> call (map_val (udp_table s) i) (put_buf s r ?b1) data src (swap16 (uh_src_port16 h)))"
    (is "_ = ?rhs")
  proof -
    consider (early) "8 + length data < unat (swap16 (uh_total_len16 h)) \<or> swap16 (uh_dst_port16 h) \<noteq> 60000"
      | (zero) "\<not> (8 + length data < unat (swap16 (uh_total_len16 h)) \<or> swap16 (uh_dst_port16 h) \<noteq> 60000)" "uh_checksum16 h = 0"
      | (sum) "\<not> (8 + length data < unat (swap16 (uh_total_len16 h)) \<or> swap16 (uh_dst_port16 h) \<noteq> 60000)" "uh_checksum16 h \<noteq> 0"
      by blast
    then show ?thesis
    proof cases
      case early
      then show ?thesis
        using len get by (auto simp: udp_in_def read Let_def udph.dec_enc)
    next
      case zero
      then show ?thesis
        using len get data id(1) by (simp add: udp_in_def read Let_def udph.dec_enc split: option.split)
    next
      case sum
      then show ?thesis
        using len get data
        by (auto simp: udp_in_def read Let_def udph.dec_enc w0 \<open>udp_checksum _ _ _ _ = _\<close> w1
            simp del: u16_bytes_0 split: option.split)
    qed
  qed
  then show thesis using c0 c1 by (intro that [of ?b0' ?b1]) simp_all
qed

subsection \<open>Two checksums with different protocol numbers differ\<close>



subsection \<open>Properties of UDP\<close>

text \<open>To a resolved address, \<open>udp_out\<close> sends exactly one datagram with the source and
  destination ports, the length and the data. Its checksum is the one of RFC 768 when the byte 19
  places before the data happens to be 17: the routine takes the protocol number of the pseudo
  header from there, where only a received packet has an IP header.\<close>

lemma udp_out_wire:
  assumes "map_lookup (clock s) (arp_table s) ip = Some mac" and "get_buf s r = Inr b"
    and "42 \<le> buf_data b" and "buf_data b + buf_len b + 46 < BUF_MAX_LEN"
  shows "\<exists>s'. udp_out s r sp ip dp = Inr s' \<and>
    sent s' = sent s @ map (ether_frame mac NET_PROTOCOL_IP)
      (ip_datagram ip NET_PROTOCOL_UDP (ip_id s)
        (udp_message net_if_ip ip sp dp (buf_payload b (buf_data b - 19)) (contents b)))"
proof -
  obtain c where c: "udp_out s r sp ip dp = ip_out (put_buf s r c) r ip NET_PROTOCOL_UDP"
    "contents c = udp_message net_if_ip ip sp dp (buf_payload b (buf_data b - 19)) (contents b)"
    "buf_data c = buf_data b - 8" "buf_len c = buf_len b + 8"
    by (rule udp_out_spec [OF assms(2), of sp ip dp]) (use assms(3,4) in simp_all)
  then show ?thesis
    using ip_out_known [of "put_buf s r c" ip mac r c NET_PROTOCOL_UDP] assms by force
qed

lemma udp_out_wire_example:
  "\<exists>s'. udp_out (demo_peer\<lparr>txbuf := demo_buf [104, 105]\<rparr>) Txbuf 60000 (10, 0, 0, 9) 53 = Inr s' \<and>
    length (sent s') = 1"
proof -
  have "buf_data (demo_buf [104, 105]) = 1000" by (simp add: demo_buf_def)
  then show ?thesis
    using udp_out_wire [of "demo_peer\<lparr>txbuf := demo_buf [104, 105]\<rparr>" "(10, 0, 0, 9)" "(2, 0, 0, 0, 0, 9)"
        Txbuf "demo_buf [104, 105]" 60000 53]
    by (auto simp: BUF_MAX_LEN_def ip_datagram_def)
qed

text \<open>C14. What \<open>udp_in\<close> does with a message, completely: one that is shorter than its header says
  or not for port 60000 is dropped, whatever ports are open; one whose checksum is neither zero nor
  right is dropped with its checksum field zeroed; any other is handed to the handler of the port
  with exactly its data, its source address and its source port, the buffer as it was.\<close>

theorem udp_in_dispatch:
  assumes "get_buf s r = Inr b" and "20 \<le> buf_data b" and "buf_data b + buf_len b + 1 < BUF_MAX_LEN"
    and "contents b = udp_enc h @ data"
  shows "\<exists>b0 b1. contents b0 = udp_enc (h\<lparr>uh_checksum16 := 0\<rparr>) @ data \<and> contents b1 = contents b \<and>
    udp_in call s r (ip_bytes src) =
      (if 8 + length data < unat (swap16 (uh_total_len16 h)) \<or> swap16 (uh_dst_port16 h) \<noteq> 60000 then Inr s
       else if uh_checksum16 h \<noteq> 0 \<and> uh_checksum16 h \<noteq>
           checksum16 (udp_peso src net_if_ip (buf_payload b (buf_data b - 11)) (8 + length data)
             @ udp_enc (h\<lparr>uh_checksum16 := 0\<rparr>) @ data) then Inr (put_buf s r b0)
       else case map_get (udp_table s) (clock s) (Some 60000) of
              None \<Rightarrow> Inr (put_buf s r b1)
            | Some i \<Rightarrow> call (map_val (udp_table s) i) (put_buf s r b1) data src (swap16 (uh_src_port16 h)))"
  by (rule udp_in_spec [OF assms, where src = src and call = call]) (intro exI conjI; assumption)

definition demo_udp :: "udp_hdr" where
  "demo_udp = \<lparr>uh_src_port16 = swap16 1234, uh_dst_port16 = swap16 53,
     uh_total_len16 = swap16 11, uh_checksum16 = 0\<rparr>"

theorem udp_in_dispatch_witness:
  "udp_in (\<lambda>_ _ _ _ _. Inl AssertFailed) (demo_state\<lparr>rxbuf := demo_buf (udp_enc demo_udp @ [1, 2, 3])\<rparr>) Rxbuf
     (ip_bytes (10, 0, 0, 9)) = Inr (demo_state\<lparr>rxbuf := demo_buf (udp_enc demo_udp @ [1, 2, 3])\<rparr>)"
proof -
  have "buf_data (demo_buf (udp_enc demo_udp @ [1, 2, 3])) = 1000" by (simp add: demo_buf_def)
  then show ?thesis
    using udp_in_dispatch [of "demo_state\<lparr>rxbuf := demo_buf (udp_enc demo_udp @ [1, 2, 3])\<rparr>" Rxbuf
        "demo_buf (udp_enc demo_udp @ [1, 2, 3])" demo_udp "[1, 2, 3]" "\<lambda>_ _ _ _ _. Inl AssertFailed"
        "(10, 0, 0, 9)"]
    by (auto simp: BUF_MAX_LEN_def demo_udp_def)
qed







end
