(* ===== verification/Frames.thy ===== *)
theory Frames
  imports Udp
begin

text \<open>
  What the layers below TCP leave alone. \<open>upper\<close> collects the state of the layers above: the
  tables of protocols, UDP ports, TCP ports and connections, the queue of the web server, and the
  clock. No operation of the ARP, IP, ICMP and UDP layers changes it, whatever the state, the
  packet and the outcome of its checks; each lemma is one operation, found by the named collection
  \<open>upper_frames\<close>.
\<close>

definition upper where
  "upper s = (net_table s, udp_table s, tcp_table s, connect_table s, http_fifo_v s, clock s)"

named_theorems upper_frames \<open>operations that leave the upper layers alone\<close>

lemma upper_simps [simp]:
  "upper (put_buf s r b) = upper s" "upper (s\<lparr>sent := x\<rparr>) = upper s" "upper (s\<lparr>ip_id := n\<rparr>) = upper s"
  "upper (s\<lparr>arp_table := t\<rparr>) = upper s" "upper (s\<lparr>arp_buf := a\<rparr>) = upper s" "upper (s\<lparr>mheap := h\<rparr>) = upper s"
  "upper (s\<lparr>txbuf := b\<rparr>) = upper s" "upper (s\<lparr>pcap_input := i\<rparr>) = upper s" "upper (s\<lparr>rxbuf := b\<rparr>) = upper s"
  "upper (s\<lparr>rand_seq := q\<rparr>) = upper s"
  by (simp_all add: upper_def)

text \<open>The tables of handlers and the clock: what TCP leaves alone, too.\<close>

definition ports where
  "ports s = (net_table s, udp_table s, tcp_table s, clock s)"

lemma ports_upper: "upper s' = upper s \<Longrightarrow> ports s' = ports s"
  by (simp add: upper_def ports_def)

lemma upper_buf_op [upper_frames]: "buf_op f s r = Inr (s', st) \<Longrightarrow> upper s' = upper s"
  by (auto simp: buf_op_def split: prod.splits)

lemma upper_buf_do [upper_frames]: "buf_do f s r = Inr s' \<Longrightarrow> upper s' = upper s"
  by (auto simp: buf_do_def dest: upper_buf_op split: prod.splits)

lemma upper_mem_write [upper_frames]: "mem_write s r off bs = Inr s' \<Longrightarrow> upper s' = upper s"
  by (auto simp: mem_write_def)

lemma upper_driver_send [upper_frames]: "driver_send s r = Inr (s', st) \<Longrightarrow> upper s' = upper s"
  by (auto simp: driver_send_def Let_def split: if_splits)

lemma upper_ethernet_out [upper_frames]: "ethernet_out s r mac p = Inr s' \<Longrightarrow> upper s' = upper s"
  by (auto simp: ethernet_out_def Let_def dest!: upper_frames split: if_splits prod.splits)

lemma upper_arp_req [upper_frames]: "arp_req s ip = Inr s' \<Longrightarrow> upper s' = upper s"
  by (auto simp: arp_req_def dest!: upper_frames)

lemma upper_arp_resp [upper_frames]: "arp_resp s ip mac = Inr s' \<Longrightarrow> upper s' = upper s"
  by (auto simp: arp_resp_def dest!: upper_frames)

lemma upper_arp_flush [upper_frames]: "arp_flush n s i mac = Inr s' \<Longrightarrow> upper s' = upper s"
proof (induction n s i mac arbitrary: s' rule: arp_flush.induct)
  case (2 n s i mac)
  then show ?case
    by (auto simp: Let_def dest!: upper_frames split: prod.splits option.splits)
qed simp

lemma upper_arp_in [upper_frames]: "arp_in s r src = Inr s' \<Longrightarrow> upper s' = upper s"
  by (auto simp: arp_in_def Let_def dest!: upper_frames split: prod.splits option.splits if_splits)

lemma upper_arp_out [upper_frames]: "arp_out s r ip = Inr s' \<Longrightarrow> upper s' = upper s"
  by (auto simp: arp_out_def Let_def dest!: upper_frames split: prod.splits option.splits if_splits)

lemma upper_ip_fragment_out [upper_frames]:
  "ip_fragment_out s r ip p i off mf = Inr s' \<Longrightarrow> upper s' = upper s"
  by (auto simp: ip_fragment_out_def Let_def dest!: upper_frames split: prod.splits if_splits)

lemma upper_ip_out_loop [upper_frames]:
  "ip_out_loop s r ip p len off = Inr s' \<Longrightarrow> upper s' = upper s"
proof (induction s r ip p len off arbitrary: s' rule: ip_out_loop.induct)
  case (1 s r ip p len off)
  from 1(2) show ?case
    by (subst (asm) ip_out_loop.simps)
      (auto simp: Let_def dest!: upper_frames 1(1) split: if_splits)
qed

lemma upper_ip_out [upper_frames]: "ip_out s r ip p = Inr s' \<Longrightarrow> upper s' = upper s"
  by (auto simp: ip_out_def Let_def dest!: upper_frames split: if_splits)

lemma upper_icmp_resp [upper_frames]: "icmp_resp s r ip = Inr s' \<Longrightarrow> upper s' = upper s"
  by (auto simp: icmp_resp_def Let_def dest!: upper_frames)

lemma upper_icmp_in [upper_frames]: "icmp_in s r src = Inr s' \<Longrightarrow> upper s' = upper s"
  by (auto simp: icmp_in_def Let_def dest!: upper_frames split: if_splits)

lemma upper_icmp_unreachable [upper_frames]:
  "icmp_unreachable s r ip code = Inr s' \<Longrightarrow> upper s' = upper s"
  by (auto simp: icmp_unreachable_def Let_def dest!: upper_frames)

lemma upper_udp_checksum [upper_frames]: "udp_checksum s r a b = Inr (s', c) \<Longrightarrow> upper s' = upper s"
  by (auto simp: udp_checksum_def Let_def dest!: upper_frames split: prod.splits if_splits)

lemma upper_udp_out [upper_frames]: "udp_out s r sp ip dp = Inr s' \<Longrightarrow> upper s' = upper s"
  by (auto simp: udp_out_def Let_def dest!: upper_frames split: prod.splits)

lemma upper_udp_send [upper_frames]: "udp_send s data len sp ip dp = Inr s' \<Longrightarrow> upper s' = upper s"
  by (auto simp: udp_send_def Let_def dest!: upper_frames split: prod.splits)

subsection \<open>Packet buffers on the heap\<close>

text \<open>Sending never frees a packet buffer of the heap, what it allocates is new, and the nodes it
  makes carry an item.\<close>

definition items_some :: "heap \<Rightarrow> bool" where
  "items_some h \<longleftrightarrow> (\<forall>a n. h_nodes h a = Some n \<longrightarrow> n_item n \<noteq> None)"

definition heap_grows :: "heap \<Rightarrow> heap \<Rightarrow> bool" where
  "heap_grows h h' \<longleftrightarrow> h_next h \<le> h_next h' \<and> (items_some h \<longrightarrow> items_some h') \<and> dom (h_bufs h) \<subseteq> dom (h_bufs h') \<and>
     dom (h_bufs h') \<subseteq> dom (h_bufs h) \<union> {h_next h..<h_next h'}"

named_theorems heap_frames \<open>operations that keep the packet buffers of the heap\<close>

lemma heap_grows_refl [simp]: "heap_grows h h"
  by (simp add: heap_grows_def)

lemma heap_grows_trans [trans]: "heap_grows h h1 \<Longrightarrow> heap_grows h1 h2 \<Longrightarrow> heap_grows h h2"
proof -
  assume 1: "heap_grows h h1" and 2: "heap_grows h1 h2"
  then have "{h_next h..<h_next h1} \<union> {h_next h1..<h_next h2} \<subseteq> {h_next h..<h_next h2}"
    by (auto simp: heap_grows_def)
  with 1 2 have "h_next h \<le> h_next h2" "dom (h_bufs h) \<subseteq> dom (h_bufs h2)"
    "dom (h_bufs h2) \<subseteq> dom (h_bufs h) \<union> {h_next h..<h_next h2}"
    unfolding heap_grows_def by (auto simp only:) (blast+)
  with 1 2 show ?thesis unfolding heap_grows_def by simp
qed

lemma heap_grows_buf_op [heap_frames]: "buf_op f s r = Inr (s', st) \<Longrightarrow> heap_grows (mheap s) (mheap s')"
  by (cases r) (auto simp: buf_op_def put_buf_def heap_grows_def items_some_def deref_def split: prod.splits option.splits if_splits)

lemma heap_grows_buf_do [heap_frames]: "buf_do f s r = Inr s' \<Longrightarrow> heap_grows (mheap s) (mheap s')"
  by (auto simp: buf_do_def dest: heap_grows_buf_op split: prod.splits)

lemma heap_grows_mem_write [heap_frames]:
  "mem_write s r off bs = Inr s' \<Longrightarrow> heap_grows (mheap s) (mheap s')"
  by (cases r) (auto simp: mem_write_def put_buf_def heap_grows_def items_some_def deref_def split: option.splits if_splits)

lemma heap_driver_send [heap_frames]: "driver_send s r = Inr (s', st) \<Longrightarrow> heap_grows (mheap s) (mheap s')"
  by (auto simp: driver_send_def Let_def split: if_splits)

lemma heap_ethernet_out [heap_frames]:
  "ethernet_out s r mac p = Inr s' \<Longrightarrow> heap_grows (mheap s) (mheap s')"
  by (auto simp: ethernet_out_def Let_def dest!: heap_frames split: if_splits prod.splits;
      blast intro: heap_grows_trans)

lemma heap_arp_req [heap_frames]: "arp_req s ip = Inr s' \<Longrightarrow> heap_grows (mheap s) (mheap s')"
  by (auto simp: arp_req_def dest!: heap_frames; blast intro: heap_grows_trans)

lemma heap_grows_malloc [heap_frames]: "malloc_buf h b = (h', a) \<Longrightarrow> heap_grows h h'"
  by (auto simp: malloc_buf_def heap_grows_def items_some_def)

lemma heap_grows_push [heap_frames]: "queue_push h q (Some x) = Inr (h', q') \<Longrightarrow> heap_grows h h'"
  by (auto simp: queue_push_def malloc_node_def heap_grows_def items_some_def node_read_def
      split: option.splits if_splits)

lemma heap_grows_queue_new [heap_frames]: "queue_new h (Some x) = (h', a) \<Longrightarrow> heap_grows h h'"
  by (auto simp: queue_new_def malloc_node_def heap_grows_def items_some_def Let_def split: if_splits)

lemma heap_grows_queues [simp]: "heap_grows h (h'\<lparr>h_queues := q\<rparr>) = heap_grows h h'"
  "heap_grows (h\<lparr>h_queues := q\<rparr>) h' = heap_grows h h'"
  by (simp_all add: heap_grows_def items_some_def)

lemma heap_arp_out [heap_frames]: "arp_out s r ip = Inr s' \<Longrightarrow> heap_grows (mheap s) (mheap s')"
  by (auto simp: arp_out_def Let_def dest!: heap_frames split: prod.splits option.splits if_splits;
      (blast intro: heap_grows_trans))

lemma heap_ip_fragment_out [heap_frames]:
  "ip_fragment_out s r ip p i off mf = Inr s' \<Longrightarrow> heap_grows (mheap s) (mheap s')"
  by (auto simp: ip_fragment_out_def Let_def dest!: heap_frames split: prod.splits if_splits;
      blast intro: heap_grows_trans)

lemma heap_ip_out_loop [heap_frames]:
  "ip_out_loop s r ip p len off = Inr s' \<Longrightarrow> heap_grows (mheap s) (mheap s')"
proof (induction s r ip p len off arbitrary: s' rule: ip_out_loop.induct)
  case (1 s r ip p len off)
  from 1(2) show ?case
    by (subst (asm) ip_out_loop.simps)
      (auto simp: Let_def dest!: heap_frames 1(1) split: if_splits; blast intro: heap_grows_trans)
qed

lemma heap_ip_out [heap_frames]: "ip_out s r ip p = Inr s' \<Longrightarrow> heap_grows (mheap s) (mheap s')"
  by (auto simp: ip_out_def Let_def dest!: heap_frames split: if_splits; blast intro: heap_grows_trans)

end
