(* ===== verification/Tcp.thy ===== *)
theory Tcp
  imports Udp
begin

text \<open>
  TCP (\<^verbatim>\<open>src/tcp.c\<close>): the segment header, the connections and the operations the application
  layer calls. The receive handler is in \<open>TcpIn\<close>. A connection pointer is a slot of
  \<open>connect_table\<close>; \<open>conn\<close> and \<open>put_conn\<close> read and write the connection stored there, whether the
  slot is in use or not, as the pointer of the code does. The receive and transmit buffers of a
  connection are heap cells.
\<close>

subsection \<open>Flags and header\<close>

record tcp_flags =
  fl_fin :: bool
  fl_syn :: bool
  fl_rst :: bool
  fl_psh :: bool
  fl_ack :: bool
  fl_urg :: bool
  fl_ece :: bool
  fl_cwr :: bool

definition tcp_flags_null :: tcp_flags where
  "tcp_flags_null = \<lparr>fl_fin = False, fl_syn = False, fl_rst = False, fl_psh = False,
     fl_ack = False, fl_urg = False, fl_ece = False, fl_cwr = False\<rparr>"

definition tcp_flags_ack :: tcp_flags where
  "tcp_flags_ack = tcp_flags_null\<lparr>fl_ack := True\<rparr>"

definition tcp_flags_ack_syn :: tcp_flags where
  "tcp_flags_ack_syn = tcp_flags_null\<lparr>fl_ack := True, fl_syn := True\<rparr>"

definition tcp_flags_ack_fin :: tcp_flags where
  "tcp_flags_ack_fin = tcp_flags_null\<lparr>fl_ack := True, fl_fin := True\<rparr>"

definition tcp_flags_ack_rst :: tcp_flags where
  "tcp_flags_ack_rst = tcp_flags_null\<lparr>fl_ack := True, fl_rst := True\<rparr>"

lemmas tcp_flags_defs = tcp_flags_null_def tcp_flags_ack_def tcp_flags_ack_syn_def
  tcp_flags_ack_fin_def tcp_flags_ack_rst_def

text \<open>The bit fields of the flags byte, lowest first.\<close>

definition flags_byte :: "tcp_flags \<Rightarrow> u8" where
  "flags_byte f = horner_sum of_bool 2
     [fl_fin f, fl_syn f, fl_rst f, fl_psh f, fl_ack f, fl_urg f, fl_ece f, fl_cwr f]"

definition byte_flags :: "u8 \<Rightarrow> tcp_flags" where
  "byte_flags b = \<lparr>fl_fin = bit b 0, fl_syn = bit b 1, fl_rst = bit b 2, fl_psh = bit b 3,
     fl_ack = bit b 4, fl_urg = bit b 5, fl_ece = bit b 6, fl_cwr = bit b 7\<rparr>"

lemma bit_flags_byte:
  "n < 8 \<Longrightarrow> bit (flags_byte f) n \<longleftrightarrow>
    [fl_fin f, fl_syn f, fl_rst f, fl_psh f, fl_ack f, fl_urg f, fl_ece f, fl_cwr f] ! n"
  unfolding flags_byte_def bit_horner_sum_bit_word_iff by simp

lemma byte_flags_flags_byte [simp]: "byte_flags (flags_byte f) = f"
  by (simp add: byte_flags_def bit_flags_byte)

lemma flags_byte_byte_flags [simp]: "flags_byte (byte_flags b) = b"
proof (rule bit_word_eqI)
  fix n assume n: "n < LENGTH(8)"
  then have "n = 0 \<or> n = 1 \<or> n = 2 \<or> n = 3 \<or> n = 4 \<or> n = 5 \<or> n = 6 \<or> n = 7" by simp linarith
  then show "bit (flags_byte (byte_flags b)) n = bit b n"
    using n by (elim disjE) (simp_all add: bit_flags_byte byte_flags_def)
qed

text \<open>The text that \<^verbatim>\<open>display_flags\<close> logs.\<close>

definition display_flags :: "tcp_flags \<Rightarrow> string" where
  "display_flags f = ''flags:'' @
     (if fl_cwr f then '' cwr'' else []) @ (if fl_ece f then '' ece'' else []) @
     (if fl_urg f then '' urg'' else []) @ (if fl_ack f then '' ack'' else []) @
     (if fl_psh f then '' psh'' else []) @ (if fl_rst f then '' rst'' else []) @
     (if fl_syn f then '' syn'' else []) @ (if fl_fin f then '' fin'' else [])"

record tcp_hdr =
  th_src_port16 :: u16
  th_dst_port16 :: u16
  th_seq_number32 :: u32
  th_ack_number32 :: u32
  th_reserved :: "4 word"
  th_data_offset :: "4 word"
  th_flags :: tcp_flags
  th_window_size16 :: u16
  th_chunksum16 :: u16
  th_urgent_pointer16 :: u16

definition tcp_enc :: "tcp_hdr \<Rightarrow> u8 list" where
  "tcp_enc h = u16_bytes (th_src_port16 h) @ u16_bytes (th_dst_port16 h) @
     u32_bytes (th_seq_number32 h) @ u32_bytes (th_ack_number32 h) @
     [nibbles (th_reserved h) (th_data_offset h), flags_byte (th_flags h)] @
     u16_bytes (th_window_size16 h) @ u16_bytes (th_chunksum16 h) @ u16_bytes (th_urgent_pointer16 h)"

definition tcp_dec :: "u8 list \<Rightarrow> tcp_hdr" where
  "tcp_dec bs = \<lparr>th_src_port16 = le16 (bs ! 0) (bs ! 1), th_dst_port16 = le16 (bs ! 2) (bs ! 3),
     th_seq_number32 = le32 (bs ! 4) (bs ! 5) (bs ! 6) (bs ! 7),
     th_ack_number32 = le32 (bs ! 8) (bs ! 9) (bs ! 10) (bs ! 11),
     th_reserved = lo_nibble (bs ! 12), th_data_offset = hi_nibble (bs ! 12),
     th_flags = byte_flags (bs ! 13), th_window_size16 = le16 (bs ! 14) (bs ! 15),
     th_chunksum16 = le16 (bs ! 16) (bs ! 17), th_urgent_pointer16 = le16 (bs ! 18) (bs ! 19)\<rparr>"

lemma base256_unique:
  fixes a b c d :: nat
  assumes "a < 256" "b < 256" "c < 256"
  shows "(a + 256 * b + 65536 * c + 16777216 * d) mod 256 = a"
    and "(a + 256 * b + 65536 * c + 16777216 * d) div 256 mod 256 = b"
    and "(a + 256 * b + 65536 * c + 16777216 * d) div 65536 mod 256 = c"
    and "(a + 256 * b + 65536 * c + 16777216 * d) div 16777216 = d"
proof -
  let ?n = "a + 256 * b + 65536 * c + 16777216 * d"
  have e: "?n = a + 256 * (b + 256 * (c + 256 * d))" by simp
  have q: "?n div 256 = b + 256 * (c + 256 * d)" unfolding e using assms(1) by simp
  have q2: "?n div 65536 = c + 256 * d"
  proof -
    have "?n div 65536 = ?n div 256 div 256" by (simp add: div_mult2_eq [symmetric])
    then show ?thesis unfolding q using assms(2) by simp
  qed
  have "?n div 16777216 = ?n div 65536 div 256" by (simp add: div_mult2_eq [symmetric])
  then show "?n div 16777216 = d" unfolding q2 using assms(3) by simp
  show "?n mod 256 = a" unfolding e by (simp only: mod_mult_self2 mod_less assms(1))
  show "?n div 256 mod 256 = b" unfolding q by (simp only: mod_mult_self2 mod_less assms(2))
  show "?n div 65536 mod 256 = c" unfolding q2 by (simp only: mod_mult_self2 mod_less assms(3))
qed

lemma u32_bytes_le32: "u32_bytes (le32 a b c d) = [a, b, c, d]"
  by (simp only: u32_bytes_def list.inject word_unat_eq_iff unat_byte_u32(2-4) unat_le32
      base256_unique(2-4) [OF unat_u8_less unat_u8_less unat_u8_less])
    (simp only: unat_byte_u32(1) unat_le32 base256_unique(1) [OF unat_u8_less unat_u8_less unat_u8_less] simp_thms)

lemma list_of_20: "length xs = 20 \<Longrightarrow> \<exists>a b c d e f g h i j k l m n p q r s t u.
    xs = [a, b, c, d, e, f, g, h, i, j, k, l, m, n, p, q, r, s, t, u]"
  by (auto simp: numeral_eq_Suc length_Suc_conv)

interpretation tcph: fixed_codec tcp_enc tcp_dec 20
proof unfold_locales
  fix h
  show "length (tcp_enc h) = 20" by (simp add: tcp_enc_def)
  show "tcp_dec (tcp_enc h) = h"
    by (simp add: tcp_enc_def tcp_dec_def u16_bytes_def u32_bytes_def codec_simps)
next
  fix bs :: "u8 list"
  assume "length bs = 20"
  then show "tcp_enc (tcp_dec bs) = bs"
    using list_of_20 [of bs] by (auto simp: tcp_enc_def tcp_dec_def u16_bytes_le16 u32_bytes_le32)
qed

text \<open>The pseudo header of a segment.\<close>

definition tcp_peso_hdr :: "ip_addr \<Rightarrow> ip_addr \<Rightarrow> u16 \<Rightarrow> peso_hdr" where
  "tcp_peso_hdr src dst len = \<lparr>ps_src_ip = src, ps_dst_ip = dst, ps_placeholder = 0,
     ps_protocol = ucast NET_PROTOCOL_TCP, ps_total_len16 = swap16 len\<rparr>"

subsection \<open>Connections\<close>

definition CONNECT_LISTEN :: tcp_connect where
  "CONNECT_LISTEN = \<lparr>c_state = TCP_LISTEN, c_local_port = 0, c_remote_port = 0, c_ip = (0, 0, 0, 0),
     c_unack_seq = 0, c_next_seq = 0, c_ack = 0, c_remote_mss = 0, c_remote_win = 0,
     c_handler = None, c_rx_buf = None, c_tx_buf = None\<rparr>"

definition new_tcp_key :: "ip_addr \<Rightarrow> u16 \<Rightarrow> u16 \<Rightarrow> tcp_key" where
  "new_tcp_key ip src_port dst_port =
     \<lparr>key_ip = ip, key_src_port = src_port, key_dst_port = dst_port\<rparr>"

definition tcp_init :: "net \<Rightarrow> net" where
  "tcp_init s =
     net_add_protocol
       (s\<lparr>tcp_table := map_init \<lparr>ent_key = 0, ent_val = H_tcp_handler, ent_time = 0\<rparr> 2 8 0 0 None,
          connect_table := map_init \<lparr>ent_key = new_tcp_key (0, 0, 0, 0) 0 0, ent_val = CONNECT_LISTEN,
            ent_time = 0\<rparr> 8 56 0 0 None\<rparr>)
       NET_PROTOCOL_TCP H_tcp_in"

definition tcp_open :: "net \<Rightarrow> u16 \<Rightarrow> tcp_handler_t \<Rightarrow> net \<times> int" where
  "tcp_open s port handler =
     (case map_set (tcp_table s) (clock s) port handler of (t, st) \<Rightarrow> (s\<lparr>tcp_table := t\<rparr>, st))"

definition conn :: "net \<Rightarrow> nat \<Rightarrow> tcp_connect" where
  "conn s i = map_val (connect_table s) i"

definition put_conn :: "net \<Rightarrow> nat \<Rightarrow> tcp_connect \<Rightarrow> net" where
  "put_conn s i c = s\<lparr>connect_table := map_poke (connect_table s) i c\<rparr>"

definition conn_buf :: "nat option \<Rightarrow> bufref res" where
  "conn_buf p = (case p of None \<Rightarrow> Inl NullDeref | Some a \<Rightarrow> Inr (Heapbuf a))"

definition init_tcp_connect_rcvd :: "net \<Rightarrow> nat \<Rightarrow> net res" where
  "init_tcp_connect_rcvd s i =
     (let c = conn s i;
          s1 = (if c_state c = TCP_LISTEN
                then (case malloc_buf (mheap s) fresh_buf of (h1, rx) \<Rightarrow>
                      case malloc_buf h1 fresh_buf of (h2, tx) \<Rightarrow>
                        put_conn (s\<lparr>mheap := h2\<rparr>) i (c\<lparr>c_rx_buf := Some rx, c_tx_buf := Some tx\<rparr>))
                else s)
      in ebind (conn_buf (c_rx_buf (conn s1 i))) (\<lambda>rx.
         ebind (buf_do (\<lambda>b. buf_init b 0) s1 rx) (\<lambda>s2.
         ebind (conn_buf (c_tx_buf (conn s2 i))) (\<lambda>tx.
         ebind (buf_do (\<lambda>b. buf_init b 0) s2 tx) (\<lambda>s3.
         Inr (put_conn s3 i ((conn s3 i)\<lparr>c_state := TCP_SYN_RCVD\<rparr>)))))))"

text \<open>\<^verbatim>\<open>free\<close> of a null pointer does nothing.\<close>

definition free_ptr :: "heap \<Rightarrow> nat option \<Rightarrow> heap res" where
  "free_ptr h p = (case p of None \<Rightarrow> Inr h | Some a \<Rightarrow> free_buf h a)"

definition release_tcp_connect :: "heap \<Rightarrow> tcp_connect \<Rightarrow> (heap \<times> tcp_connect) res" where
  "release_tcp_connect h c =
     (if c_state c = TCP_LISTEN then Inr (h, c)
      else ebind (free_ptr h (c_rx_buf c)) (\<lambda>h1.
           ebind (free_ptr h1 (c_tx_buf c)) (\<lambda>h2.
           Inr (h2, c\<lparr>c_state := TCP_LISTEN\<rparr>))))"

definition release_at :: "net \<Rightarrow> nat \<Rightarrow> net res" where
  "release_at s i =
     ebind (release_tcp_connect (mheap s) (conn s i)) (\<lambda>(h, c). Inr (put_conn (s\<lparr>mheap := h\<rparr>) i c))"

subsection \<open>Checksum\<close>

definition tcp_checksum :: "net \<Rightarrow> bufref \<Rightarrow> ip_addr \<Rightarrow> ip_addr \<Rightarrow> (net \<times> u16) res" where
  "tcp_checksum s r src_ip dst_ip =
     ebind (get_buf s r) (\<lambda>b.
     let len = (of_nat (buf_len b) :: u16) in
     ebind (before_data b 12) (\<lambda>peso_pos.
     ebind (mem_read s r peso_pos 12) (\<lambda>pre.
     ebind (mem_write s r peso_pos (peso_enc (tcp_peso_hdr src_ip dst_ip len))) (\<lambda>s1.
     ebind (mem_read s1 r peso_pos (unat len + 12)) (\<lambda>bs.
     let checksum = checksum16 bs in
     ebind (mem_write s1 r peso_pos pre) (\<lambda>s2.
     Inr (s2, checksum)))))))"

subsection \<open>Closing a port\<close>

text \<open>The handler \<^verbatim>\<open>map_foreach\<close> calls; the state it works on is the heap, or the fault met so far.\<close>

definition close_port_fn ::
  "u16 \<Rightarrow> (tcp_key, tcp_connect) entry \<Rightarrow> heap res \<Rightarrow> (tcp_key, tcp_connect) entry \<times> heap res" where
  "close_port_fn port e hr =
     (case hr of
        Inl f \<Rightarrow> (e, Inl f)
      | Inr h \<Rightarrow>
          if key_dst_port (ent_key e) = port
          then (case release_tcp_connect h (ent_val e) of
                  Inl f \<Rightarrow> (e, Inl f)
                | Inr (h', c) \<Rightarrow> (e\<lparr>ent_val := c\<rparr>, Inr h'))
          else (e, Inr h))"

definition tcp_close :: "net \<Rightarrow> u16 \<Rightarrow> net res" where
  "tcp_close s port =
     (let s1 = s\<lparr>delete_port := port\<rparr> in
      case map_foreach (connect_table s1) (clock s1) (close_port_fn (delete_port s1)) (Inr (mheap s1)) of
        (t, hr) \<Rightarrow>
          ebind hr (\<lambda>h.
          Inr (s1\<lparr>connect_table := t, mheap := h,
                  tcp_table := map_delete (tcp_table s1) (clock s1) port\<rparr>)))"

subsection \<open>Data of a connection\<close>

definition tcp_read_from_buf :: "net \<Rightarrow> nat \<Rightarrow> bufref \<Rightarrow> (net \<times> u16) res" where
  "tcp_read_from_buf s i r =
     ebind (conn_buf (c_rx_buf (conn s i))) (\<lambda>rx.
     ebind (get_buf s rx) (\<lambda>brx.
     let dst = buf_data brx + buf_len brx in
     ebind (get_buf s r) (\<lambda>b.
     ebind (buf_do (\<lambda>x. buf_add_padding x (buf_len b)) s rx) (\<lambda>s1.
     ebind (get_buf s1 r) (\<lambda>b1.
     ebind (mem_read s1 r (buf_data b1) (buf_len b1)) (\<lambda>bytes.
     ebind (mem_write s1 rx dst bytes) (\<lambda>s2.
     Inr (put_conn s2 i ((conn s2 i)\<lparr>c_ack := c_ack (conn s2 i) + of_nat (buf_len b1)\<rparr>),
          of_nat (buf_len b1)))))))))"

text \<open>\<^verbatim>\<open>sent\<close> and \<^verbatim>\<open>size\<close> are 16 bits wide; the length passed to \<^verbatim>\<open>min32\<close> is cut to 32 bits.\<close>

definition tcp_write_to_buf :: "net \<Rightarrow> nat \<Rightarrow> bufref \<Rightarrow> (net \<times> u16) res" where
  "tcp_write_to_buf s i r =
     (let c = conn s i; sent16 = (ucast (c_next_seq c - c_unack_seq c) :: u16) in
      ebind (conn_buf (c_tx_buf c)) (\<lambda>tx.
      ebind (get_buf s tx) (\<lambda>btx.
      let size = (ucast (min32 (of_nat (size_sub (buf_len btx) (unat sent16))) (ucast (c_remote_win c))) :: u16) in
      ebind (buf_do (\<lambda>b. buf_init b (unat size)) s r) (\<lambda>s1.
      ebind (get_buf s1 tx) (\<lambda>btx1.
      ebind (mem_read s1 tx (buf_data btx1 + unat sent16) (unat size)) (\<lambda>bytes.
      ebind (get_buf s1 r) (\<lambda>b.
      ebind (mem_write s1 r (buf_data b) bytes) (\<lambda>s2.
      Inr (put_conn s2 i ((conn s2 i)\<lparr>c_next_seq := c_next_seq (conn s2 i) + ucast size\<rparr>), size)))))))))"

definition tcp_send_hdr :: "tcp_connect \<Rightarrow> nat \<Rightarrow> tcp_flags \<Rightarrow> tcp_hdr" where
  "tcp_send_hdr c prev_len flags =
     \<lparr>th_src_port16 = swap16 (c_local_port c), th_dst_port16 = swap16 (c_remote_port c),
      th_seq_number32 = swap32 (c_next_seq c - of_nat prev_len), th_ack_number32 = swap32 (c_ack c),
      th_reserved = 0, th_data_offset = 5, th_flags = flags,
      th_window_size16 = swap16 (c_remote_win c), th_chunksum16 = 0, th_urgent_pointer16 = 0\<rparr>"

definition tcp_send :: "net \<Rightarrow> bufref \<Rightarrow> nat \<Rightarrow> tcp_flags \<Rightarrow> net res" where
  "tcp_send s r i flags =
     ebind (get_buf s r) (\<lambda>b.
     let prev_len = buf_len b in
     ebind (buf_do (\<lambda>b. buf_add_header b 20) s r) (\<lambda>s1.
     ebind (get_buf s1 r) (\<lambda>b1.
     let hdr = tcp_send_hdr (conn s1 i) prev_len flags in
     ebind (mem_write s1 r (buf_data b1) (tcp_enc hdr)) (\<lambda>s2.
     ebind (tcp_checksum s2 r (c_ip (conn s2 i)) net_if_ip) (\<lambda>(s3, checksum).
     ebind (mem_write s3 r (buf_data b1) (tcp_enc (hdr\<lparr>th_chunksum16 := checksum\<rparr>))) (\<lambda>s4.
     ebind (ip_out s4 r (c_ip (conn s4 i)) NET_PROTOCOL_TCP) (\<lambda>s5.
     Inr (if fl_syn flags \<or> fl_fin flags
          then put_conn s5 i ((conn s5 i)\<lparr>c_next_seq := c_next_seq (conn s5 i) + 1\<rparr>)
          else s5))))))))"

subsection \<open>The operations of the application layer\<close>

definition tcp_connect_close :: "net \<Rightarrow> nat \<Rightarrow> net res" where
  "tcp_connect_close s i =
     (if c_state (conn s i) = TCP_ESTABLISHED then
        ebind (tcp_write_to_buf s i Txbuf) (\<lambda>(s1, _).
        ebind (tcp_send s1 Txbuf i tcp_flags_ack_fin) (\<lambda>s2.
        Inr (put_conn s2 i ((conn s2 i)\<lparr>c_state := TCP_FIN_WAIT_1\<rparr>))))
      else
        let c = conn s i; key = new_tcp_key (c_ip c) (c_remote_port c) (c_local_port c) in
        ebind (release_at s i) (\<lambda>s1.
        Inr (s1\<lparr>connect_table := map_delete (connect_table s1) (clock s1) key\<rparr>)))"

text \<open>Moving the window of a buffer to the start of its payload.\<close>

definition buf_rewind :: "buf_t \<Rightarrow> buf_t \<times> int" where
  "buf_rewind b = (b\<lparr>buf_payload := store (buf_payload b) 0 (load (buf_payload b) (buf_data b) (buf_len b)),
     buf_data := 0\<rparr>, 0)"

text \<open>The bytes copied to \<^verbatim>\<open>data\<close> are returned; their number is the result of the C function.\<close>

definition tcp_connect_read :: "net \<Rightarrow> nat \<Rightarrow> nat \<Rightarrow> (net \<times> u8 list) res" where
  "tcp_connect_read s i len =
     ebind (conn_buf (c_rx_buf (conn s i))) (\<lambda>rx.
     ebind (get_buf s rx) (\<lambda>b.
     let size = unat (min32 (of_nat (buf_len b)) (of_nat len)) in
     ebind (mem_read s rx (buf_data b) size) (\<lambda>data.
     ebind (buf_op (\<lambda>b. buf_remove_header b size) s rx) (\<lambda>(s1, st).
     if st \<noteq> 0 then
       ebind (buf_do buf_rewind s1 rx) (\<lambda>s2. Inr (s2, data))
     else Inr (s1, data)))))"

definition tcp_connect_write :: "net \<Rightarrow> nat \<Rightarrow> u8 list \<Rightarrow> nat \<Rightarrow> (net \<times> nat) res" where
  "tcp_connect_write s i data len =
     (let c = conn s i in
      ebind (conn_buf (c_tx_buf c)) (\<lambda>tx.
      ebind (get_buf s tx) (\<lambda>b.
      let dst = buf_data b + buf_len b;
          size = unat (min32 (of_nat (size_sub BUF_MAX_LEN dst)) (of_nat len)) in
      if (unat (c_next_seq c - c_unack_seq c) + len) mod 2 ^ 64 \<ge> unat (c_remote_win c) then Inr (s, 0)
      else
        ebind (buf_op (\<lambda>b. buf_add_padding b size) s tx) (\<lambda>(s1, st).
        if st \<noteq> 0 then
          ebind (buf_do buf_rewind s1 tx) (\<lambda>s2.
          ebind (tcp_write_to_buf s2 i Txbuf) (\<lambda>(s3, n).
          ebind (if n \<noteq> 0 then tcp_send s3 Txbuf i tcp_flags_ack else Inr s3) (\<lambda>s4.
          Inr (s4, 0))))
        else
          ebind (guard_else (size \<le> length data) OutOfBounds) (\<lambda>_.
          ebind (mem_write s1 tx dst (take size data)) (\<lambda>s2.
          Inr (s2, size)))))))"

subsection \<open>Reading and writing connections\<close>

lemma conn_put_conn [simp]: "conn (put_conn s i c) i = c"
  by (simp add: conn_def put_conn_def map_val_def map_poke_def)

lemma conn_put_conn_other: "i \<noteq> j \<Longrightarrow> conn (put_conn s i c) j = conn s j"
  by (simp add: conn_def put_conn_def map_val_def map_poke_def)

lemma put_conn_put_conn [simp]: "put_conn (put_conn s i c) i d = put_conn s i d"
  by (simp add: put_conn_def)

lemma put_conn_frame [simp]:
  "rxbuf (put_conn s i c) = rxbuf s" "txbuf (put_conn s i c) = txbuf s" "mheap (put_conn s i c) = mheap s"
  "net_table (put_conn s i c) = net_table s" "arp_table (put_conn s i c) = arp_table s"
  "arp_buf (put_conn s i c) = arp_buf s" "ip_id (put_conn s i c) = ip_id s"
  "udp_table (put_conn s i c) = udp_table s" "tcp_table (put_conn s i c) = tcp_table s"
  "http_fifo_v (put_conn s i c) = http_fifo_v s" "clock (put_conn s i c) = clock s"
  "rand_seq (put_conn s i c) = rand_seq s" "sent (put_conn s i c) = sent s"
  "get_buf (put_conn s i c) r = get_buf s r"
  "map_get (connect_table (put_conn s i c)) now k = map_get (connect_table s) now k"
  "map_inv now (connect_table (put_conn s i c)) = map_inv now (connect_table s)"
  by (simp_all add: put_conn_def) (cases r; simp)

lemma put_buf_put_conn: "put_buf (put_conn s i c) r b = put_conn (put_buf s r b) i c"
  by (cases r) (simp_all add: put_conn_def put_buf_def)

lemma conn_put_buf [simp]: "conn (put_buf s r b) i = conn s i"
  by (simp add: conn_def)

lemma connect_table_after_send [simp]:
  "connect_table (after_send s r b n out) = connect_table s" "tcp_table (after_send s r b n out) = tcp_table s"
  "rand_seq (after_send s r b n out) = rand_seq s" "http_fifo_v (after_send s r b n out) = http_fifo_v s"
  by (simp_all add: after_send_def)

lemma get_after_send_other [simp]:
  "r' \<noteq> r \<Longrightarrow> get_buf (after_send s r b n out) r' = get_buf s r'"
  by (simp add: after_send_def)

lemma conn_after_send [simp]: "conn (after_send s r b n out) i = conn s i"
  by (simp add: conn_def)

lemma conn_buf_Some [simp]: "conn_buf (Some a) = Inr (Heapbuf a)" "conn_buf None = Inl NullDeref"
  by (simp_all add: conn_buf_def)

lemma conn_buf_eq_Inr: "conn_buf p = Inr r \<longleftrightarrow> (\<exists>a. p = Some a \<and> r = Heapbuf a)"
  by (cases p) auto

subsection \<open>Segments\<close>

lemma length_tcp_enc [simp]: "length (tcp_enc h) = 20"
  by (rule tcph.length_enc)

text \<open>
  The bytes of a segment that a host with address \<open>me\<close> sends for the connection \<open>c\<close>: the checksum
  covers the pseudo header with the two addresses, whose order does not matter to the sum.
\<close>

definition tcp_segment :: "ip_addr \<Rightarrow> tcp_connect \<Rightarrow> tcp_flags \<Rightarrow> u8 list \<Rightarrow> u8 list" where
  "tcp_segment me c flags data =
     (let h = tcp_send_hdr c (length data) flags;
          peso = peso_enc (tcp_peso_hdr (c_ip c) me (of_nat (20 + length data)))
      in tcp_enc (h\<lparr>th_chunksum16 := checksum16 (peso @ tcp_enc h @ data)\<rparr>) @ data)"

lemma length_tcp_segment [simp]: "length (tcp_segment me c flags data) = 20 + length data"
  by (simp add: tcp_segment_def Let_def)

lemma checksum16_peso_swap:
  assumes "length bs \<le> 131060"
  shows "checksum16 (peso_enc (tcp_peso_hdr a b n) @ bs) = checksum16 (peso_enc (tcp_peso_hdr b a n) @ bs)"
proof -
  have "le_sum (peso_enc (tcp_peso_hdr a b n)) = le_sum (peso_enc (tcp_peso_hdr b a n))"
    by (cases a; cases b) (simp add: tcp_peso_hdr_def peso_enc_def u16_bytes_def)
  then show ?thesis
    using assms by (simp add: word_unat_eq_iff unat_checksum16 le_sum_append)
qed

lemma tcp_checksum_spec:
  assumes get: "get_buf s r = Inr b" and room: "12 \<le> buf_data b" "buf_ok b" and len: "buf_len b < 65536"
  shows "tcp_checksum s r src dst =
    Inr (s, checksum16 (peso_enc (tcp_peso_hdr src dst (of_nat (buf_len b))) @ contents b))"
proof -
  let ?d = "buf_data b" and ?m = "buf_payload b" and ?n = "buf_len b"
  let ?peso = "peso_enc (tcp_peso_hdr src dst (of_nat ?n))"
  have n: "unat (of_nat ?n :: u16) = ?n"
    using len by (simp add: unat_of_nat take_bit_eq_mod)
  have bs: "load (store ?m (?d - 12) ?peso) (?d - 12) (?n + 12) = ?peso @ contents b"
    using load_store_split [of ?m "?d - 12" ?peso ?n] room by (simp add: contents_def add.commute)
  have id: "put_buf s r b = s" by (rule put_get_id [OF get])
  show ?thesis
    using room by (simp add: tcp_checksum_def get before_data_def mem_read_get buf_read_def mem_write_get
        Let_def n bs store_store_same mem_simps id buf_ok_def)
qed

lemma tcp_send_spec:
  assumes get: "get_buf s r = Inr b" and room: "32 \<le> buf_data b" "buf_ok b" and len: "buf_len b < 65516"
  obtains t where "tcp_send s r i flags =
      ebind (ip_out (put_buf s r t) r (c_ip (conn s i)) NET_PROTOCOL_TCP) (\<lambda>s5.
        Inr (if fl_syn flags \<or> fl_fin flags
             then put_conn s5 i ((conn s5 i)\<lparr>c_next_seq := c_next_seq (conn s5 i) + 1\<rparr>) else s5))"
    and "contents t = tcp_segment net_if_ip (conn s i) flags (contents b)"
    and "buf_data t = buf_data b - 20" and "buf_len t = buf_len b + 20"
proof -
  let ?c = "conn s i"
  define h where "h = tcp_send_hdr ?c (buf_len b) flags"
  let ?b1 = "b\<lparr>buf_len := buf_len b + 20, buf_data := buf_data b - 20\<rparr>"
  let ?b2 = "poke ?b1 0 (tcp_enc h)"
  have add: "buf_add_header b 20 = (?b1, 0)" using room by (simp add: buf_add_header_def)
  have ok1: "buf_ok ?b1" using room by (simp add: buf_ok_def)
  have "contents ?b1 = [] @ load (buf_payload b) (buf_data b - 20) 20 @ contents b"
    using room load_append [of "buf_payload b" "buf_data b - 20" 20 "buf_len b"]
    by (simp add: contents_def add.commute)
  then have c2: "contents ?b2 = tcp_enc h @ contents b"
    using contents_poke [of ?b1 "[]" "load (buf_payload b) (buf_data b - 20) 20" "contents b" "tcp_enc h" 0]
    by simp
  let ?s2 = "put_buf s r ?b2"
  define cks where "cks = checksum16 (peso_enc (tcp_peso_hdr (c_ip ?c) net_if_ip (of_nat (20 + buf_len b)))
    @ tcp_enc h @ contents b)"
  have sum: "tcp_checksum ?s2 r (c_ip ?c) net_if_ip = Inr (?s2, cks)"
    using tcp_checksum_spec [of ?s2 r ?b2 "c_ip ?c" net_if_ip] room ok1 len
    by (simp add: c2 cks_def add.commute)
  let ?t = "poke ?b2 0 (tcp_enc (h\<lparr>th_chunksum16 := cks\<rparr>))"
  have "contents ?t = tcp_enc (h\<lparr>th_chunksum16 := cks\<rparr>) @ contents b"
    using contents_poke [of ?b2 "[]" "tcp_enc h" "contents b" "tcp_enc (h\<lparr>th_chunksum16 := cks\<rparr>)" 0] c2
    by simp
  then have "contents ?t = tcp_segment net_if_ip ?c flags (contents b)"
    unfolding tcp_segment_def Let_def cks_def h_def by simp
  moreover have w1: "mem_write (put_buf s r ?b1) r (buf_data ?b1) (tcp_enc h) = Inr ?s2"
    using mem_write_poke [of "put_buf s r ?b1" r ?b1 0 "tcp_enc h"] room by (simp add: buf_ok_def)
  have w2: "mem_write ?s2 r (buf_data ?b1) bs = Inr (put_buf s r (poke ?b2 0 bs))" if "length bs = 20" for bs
    using mem_write_poke [of ?s2 r ?b2 0 bs] room that by (simp add: buf_ok_def)
  have "tcp_send s r i flags =
      ebind (ip_out (put_buf s r ?t) r (c_ip ?c) NET_PROTOCOL_TCP) (\<lambda>s5.
        Inr (if fl_syn flags \<or> fl_fin flags
             then put_conn s5 i ((conn s5 i)\<lparr>c_next_seq := c_next_seq (conn s5 i) + 1\<rparr>) else s5))"
    unfolding tcp_send_def buf_do_get [OF get] get add fst_conv ebind_Inr get_put_same Let_def
      conn_put_buf h_def [symmetric] w1 sum prod.case w2 [OF length_tcp_enc] ..
  ultimately show thesis by (intro that [of ?t]) simp_all
qed

text \<open>To a resolved address: the frames sent, and what else changes.\<close>

lemma tcp_send_known:
  assumes known: "map_lookup (clock s) (arp_table s) (c_ip (conn s i)) = Some mac"
    and get: "get_buf s r = Inr b" and room: "54 \<le> buf_data b" "buf_data b + buf_len b + 46 < BUF_MAX_LEN"
    and len: "buf_len b < 65516"
  obtains t n where "tcp_send s r i flags = Inr (put_conn (after_send s r t n
      (sent s @ map (ether_frame mac NET_PROTOCOL_IP) (ip_datagram (c_ip (conn s i)) NET_PROTOCOL_TCP (ip_id s)
        (tcp_segment net_if_ip (conn s i) flags (contents b))))) i
      ((conn s i)\<lparr>c_next_seq := c_next_seq (conn s i) + (if fl_syn flags \<or> fl_fin flags then 1 else 0)\<rparr>))"
proof -
  have ok: "32 \<le> buf_data b" "buf_ok b" using room by (simp_all add: buf_ok_def)
  obtain t where t: "tcp_send s r i flags =
      ebind (ip_out (put_buf s r t) r (c_ip (conn s i)) NET_PROTOCOL_TCP) (\<lambda>s5.
        Inr (if fl_syn flags \<or> fl_fin flags
             then put_conn s5 i ((conn s5 i)\<lparr>c_next_seq := c_next_seq (conn s5 i) + 1\<rparr>) else s5))"
    "contents t = tcp_segment net_if_ip (conn s i) flags (contents b)"
    "buf_data t = buf_data b - 20" "buf_len t = buf_len b + 20"
    by (rule tcp_send_spec [OF get ok len])
  have same: "put_conn s' i (conn s' i) = s'" for s'
    by (simp add: put_conn_def conn_def map_poke_def map_val_def)
  obtain c n where "ip_out (put_buf s r t) r (c_ip (conn s i)) NET_PROTOCOL_TCP =
      Inr (after_send s r c n (sent s @ map (ether_frame mac NET_PROTOCOL_IP)
        (ip_datagram (c_ip (conn s i)) NET_PROTOCOL_TCP (ip_id s) (contents t))))"
    using ip_out_known [of "put_buf s r t" "c_ip (conn s i)" mac r t NET_PROTOCOL_TCP] known room t(3,4)
    by force
  then have "tcp_send s r i flags = Inr (put_conn (after_send s r c n
      (sent s @ map (ether_frame mac NET_PROTOCOL_IP) (ip_datagram (c_ip (conn s i)) NET_PROTOCOL_TCP (ip_id s)
        (tcp_segment net_if_ip (conn s i) flags (contents b))))) i
      ((conn s i)\<lparr>c_next_seq := c_next_seq (conn s i) + (if fl_syn flags \<or> fl_fin flags then 1 else 0)\<rparr>))"
    using t(1,2) same by (cases "fl_syn flags \<or> fl_fin flags") (simp_all, metis conn_after_send)
  then show thesis by (rule that)
qed

end
