(* ===== verification/TcpData.thy ===== *)
theory TcpData
  imports Tcp
begin

text \<open>
  The byte streams of a connection. The receive buffer holds what has arrived and not been read;
  the transmit buffer what has been written and not been acknowledged, of which the first
  \<open>next_seq - unack_seq\<close> bytes have been sent. The lemmas give the effect of the four operations
  on these byte lists.
\<close>

lemma min32_of_nat:
  "m < 4294967296 \<Longrightarrow> unat (min32 (of_nat m) w) = min m (unat w)"
  by (simp add: min32_def word_less_nat_alt unat_of_nat take_bit_eq_mod min_def)

lemma min32_of_nat2:
  "m < 4294967296 \<Longrightarrow> n < 4294967296 \<Longrightarrow> unat (min32 (of_nat m) (of_nat n)) = min m n"
  by (simp add: min32_of_nat unat_of_nat take_bit_eq_mod)

text \<open>The number of bytes in flight.\<close>

definition in_flight :: "tcp_connect \<Rightarrow> nat" where
  "in_flight c = unat (c_next_seq c - c_unack_seq c)"

lemma tcp_read_from_buf_spec:
  assumes rx: "conn_buf (c_rx_buf (conn s i)) = Inr rx" and brx: "get_buf s rx = Inr brx"
    and get: "get_buf s r = Inr b" and ne: "r \<noteq> rx" and ok: "buf_ok b"
    and room: "buf_data brx + buf_len brx + buf_len b < BUF_MAX_LEN"
  obtains c where "tcp_read_from_buf s i r =
      Inr (put_conn (put_buf s rx c) i ((conn s i)\<lparr>c_ack := c_ack (conn s i) + of_nat (buf_len b)\<rparr>), of_nat (buf_len b))"
    and "contents c = contents brx @ contents b" and "buf_data c = buf_data brx"
    and "buf_len c = buf_len brx + buf_len b"
proof -
  let ?dst = "buf_data brx + buf_len brx"
  let ?b1 = "fst (buf_add_padding brx (buf_len b))"
  have b1: "buf_data ?b1 = buf_data brx" "buf_len ?b1 = buf_len brx + buf_len b"
    "contents ?b1 = contents brx @ replicate (buf_len b) 0"
    using room by (auto simp: buf_add_padding_def contents_def load_append mem_simps)
  let ?c = "poke ?b1 (buf_len brx) (contents b)"
  have c: "contents ?c = contents brx @ contents b"
    using contents_poke [of ?b1 "contents brx" "replicate (buf_len b) 0" "[]" "contents b" "buf_len brx"] b1(3)
    by simp
  have w: "mem_write (put_buf s rx ?b1) rx ?dst (contents b) = Inr (put_buf s rx ?c)"
    using mem_write_poke [of "put_buf s rx ?b1" rx ?b1 "buf_len brx" "contents b"] room b1 by simp
  have read: "mem_read (put_buf s rx ?b1) r (buf_data b) (buf_len b) = Inr (contents b)"
    using get ne ok by (simp add: mem_read_get buf_read_def buf_ok_def contents_def)
  have "tcp_read_from_buf s i r =
      Inr (put_conn (put_buf s rx ?c) i ((conn s i)\<lparr>c_ack := c_ack (conn s i) + of_nat (buf_len b)\<rparr>), of_nat (buf_len b))"
    using get ne by (simp add: tcp_read_from_buf_def rx brx Let_def buf_do_get read w)
  then show thesis using c b1 by (intro that [of ?c]) simp_all
qed

lemma tcp_connect_read_spec:
  assumes rx: "conn_buf (c_rx_buf (conn s i)) = Inr rx" and brx: "get_buf s rx = Inr brx" and ok: "buf_ok brx"
    and n: "n < 4294967296"
  obtains c where "tcp_connect_read s i n = Inr (put_buf s rx c, take n (contents brx))"
    and "contents c = drop n (contents brx)" and "buf_ok c"
proof -
  let ?k = "min (buf_len brx) n"
  have k: "unat (min32 (of_nat (buf_len brx)) (of_nat n)) = ?k"
    using ok n by (intro min32_of_nat2) (simp_all add: buf_ok_def)
  let ?c = "brx\<lparr>buf_len := buf_len brx - ?k, buf_data := buf_data brx + ?k\<rparr>"
  have rm: "buf_remove_header brx ?k = (?c, 0)" by (simp add: buf_remove_header_def)
  have "mem_read s rx (buf_data brx) ?k = Inr (take n (contents brx))"
    using brx ok by (simp add: mem_read_get buf_read_def buf_ok_def contents_def mem_simps min.commute)
  then have "tcp_connect_read s i n = Inr (put_buf s rx ?c, take n (contents brx))"
    unfolding tcp_connect_read_def rx brx ebind_Inr Let_def k
    by (simp add: buf_op_get [OF brx] rm)
  moreover have "contents ?c = drop n (contents brx)"
    by (simp add: contents_def mem_simps min_def)
  moreover have "buf_ok ?c" using ok by (simp add: buf_ok_def)
  ultimately show thesis by (rule that)
qed

lemma tcp_write_to_buf_spec:
  assumes tx: "conn_buf (c_tx_buf (conn s i)) = Inr tx" and btx: "get_buf s tx = Inr btx"
    and get: "get_buf s r = Inr b" and ne: "r \<noteq> tx" and ok: "buf_ok btx"
    and sent: "in_flight (conn s i) \<le> buf_len btx" "in_flight (conn s i) < 65536"
  obtains t where "tcp_write_to_buf s i r =
      Inr (put_conn (put_buf s r t) i ((conn s i)\<lparr>c_next_seq := c_next_seq (conn s i) +
             of_nat (min (buf_len btx - in_flight (conn s i)) (unat (c_remote_win (conn s i))))\<rparr>),
           of_nat (min (buf_len btx - in_flight (conn s i)) (unat (c_remote_win (conn s i)))))"
    and "contents t = take (unat (c_remote_win (conn s i))) (drop (in_flight (conn s i)) (contents btx))"
    and "buf_data t = 65662 - min (buf_len btx - in_flight (conn s i)) (unat (c_remote_win (conn s i)))"
    and "buf_len t = min (buf_len btx - in_flight (conn s i)) (unat (c_remote_win (conn s i)))"
proof -
  let ?c = "conn s i"
  let ?w = "unat (c_remote_win ?c)" and ?f = "in_flight ?c"
  let ?k = "min (buf_len btx - ?f) ?w"
  have len: "buf_len btx < 131325" using ok by (simp add: buf_ok_def)
  have w: "?w < 65536" by (rule unat_u16_less)
  have sent16: "unat (ucast (c_next_seq ?c - c_unack_seq ?c) :: u16) = ?f"
    using sent(2) by (simp add: in_flight_def unsigned_ucast_eq take_bit_eq_mod)
  have sub: "size_sub (buf_len btx) ?f = buf_len btx - ?f"
    using sent(1) len by (intro size_sub_le) simp_all
  have m: "unat (min32 (of_nat (buf_len btx - ?f)) (ucast (c_remote_win ?c))) = ?k"
    using len by (simp add: min32_of_nat)
  have size: "unat (ucast (min32 (of_nat (buf_len btx - ?f)) (ucast (c_remote_win ?c))) :: u16) = ?k"
    using w by (simp add: unsigned_ucast_eq m take_bit_eq_mod)
  have k16: "(ucast (min32 (of_nat (buf_len btx - ?f)) (ucast (c_remote_win ?c))) :: u16) = of_nat ?k"
    using w by (simp add: word_unat_eq_iff size unat_of_nat take_bit_eq_mod)
  have k32: "(ucast (of_nat ?k :: u16) :: u32) = of_nat ?k"
    using w by (simp add: word_unat_eq_iff unat_of_nat take_bit_eq_mod)
  let ?b1 = "b\<lparr>buf_len := ?k, buf_data := 65662 - ?k\<rparr>"
  have init: "buf_init b ?k = (?b1, 0)" using w by (simp add: buf_init_def)
  define bytes where "bytes = take ?w (drop ?f (contents btx))"
  have bytes: "load (buf_payload btx) (buf_data btx + ?f) ?k = bytes" "length bytes = ?k"
    by (simp_all add: bytes_def contents_def mem_simps min.commute)
  let ?t = "poke ?b1 0 bytes"
  have t: "contents ?t = bytes"
    using contents_poke [of ?b1 "[]" "contents ?b1" "[]" bytes 0] bytes(2) by simp
  have read: "mem_read (put_buf s r ?b1) tx (buf_data btx + ?f) ?k = Inr bytes"
    using btx ne [symmetric] ok sent(1) bytes(1) by (simp add: mem_read_get buf_read_def buf_ok_def)
  have wr: "mem_write (put_buf s r ?b1) r (buf_data ?b1) bytes = Inr (put_buf s r ?t)"
  proof -
    have "?k < 65536" using w by simp
    then have "65662 - ?k + ?k \<le> 131325" by linarith
    then show ?thesis
      using mem_write_poke [of "put_buf s r ?b1" r ?b1 0 bytes] bytes(2) by simp
  qed
  have btx': "get_buf (put_buf s r ?b1) tx = Inr btx" using btx ne [symmetric] by simp
  have unk: "unat (of_nat ?k :: u16) = ?k" using size k16 by simp
  have "tcp_write_to_buf s i r = Inr (put_conn (put_buf s r ?t) i
      (?c\<lparr>c_next_seq := c_next_seq ?c + of_nat ?k\<rparr>), of_nat ?k)"
    unfolding tcp_write_to_buf_def Let_def tx btx ebind_Inr sent16 sub k16 unk
    by (simp only: buf_do_get [OF get] init fst_conv ebind_Inr btx' read get_put_same wr conn_put_buf k32)
  then show thesis
    by (rule that) (simp_all add: t bytes_def [symmetric])
qed

lemma tcp_connect_write_spec:
  assumes tx: "conn_buf (c_tx_buf (conn s i)) = Inr tx" and btx: "get_buf s tx = Inr btx"
    and room: "buf_data btx + buf_len btx + length data < BUF_MAX_LEN"
    and win: "in_flight (conn s i) + length data < unat (c_remote_win (conn s i))"
  obtains c where "tcp_connect_write s i data (length data) = Inr (put_buf s tx c, length data)"
    and "contents c = contents btx @ data" and "buf_data c = buf_data btx"
    and "buf_len c = buf_len btx + length data"
proof -
  let ?n = "length data" and ?dst = "buf_data btx + buf_len btx"
  have w: "unat (c_remote_win (conn s i)) < 65536" by (rule unat_u16_less)
  have size: "unat (min32 (of_nat (size_sub BUF_MAX_LEN ?dst)) (of_nat ?n)) = ?n"
  proof -
    have "size_sub BUF_MAX_LEN ?dst = BUF_MAX_LEN - ?dst"
      using room by (intro size_sub_le) simp_all
    then show ?thesis
      using room w win by (simp only:) (subst min32_of_nat2, simp_all)
  qed
  have nowrap: "\<not> (unat (c_next_seq (conn s i) - c_unack_seq (conn s i)) + ?n) mod 2 ^ 64
      \<ge> unat (c_remote_win (conn s i))"
    using win w by (simp add: in_flight_def)
  let ?b1 = "fst (buf_add_padding btx ?n)"
  have add: "buf_add_padding btx ?n = (?b1, 0)"
    using room by (simp add: buf_add_padding_def)
  have b1: "buf_data ?b1 = buf_data btx" "buf_len ?b1 = buf_len btx + ?n"
    "contents ?b1 = contents btx @ replicate ?n 0"
    using room by (auto simp: buf_add_padding_def contents_def load_append mem_simps)
  let ?c = "poke ?b1 (buf_len btx) data"
  have c: "contents ?c = contents btx @ data"
    using contents_poke [of ?b1 "contents btx" "replicate ?n 0" "[]" data "buf_len btx"] b1(3) by simp
  have w: "mem_write (put_buf s tx ?b1) tx ?dst data = Inr (put_buf s tx ?c)"
    using mem_write_poke [of "put_buf s tx ?b1" tx ?b1 "buf_len btx" data] room b1 by simp
  have op: "buf_op (\<lambda>b. buf_add_padding b ?n) s tx = Inr (put_buf s tx ?b1, 0)"
    using arg_cong [OF add, of snd] by (simp add: buf_op_get [OF btx])
  have "tcp_connect_write s i data ?n = Inr (put_buf s tx ?c, ?n)"
    unfolding tcp_connect_write_def Let_def tx btx ebind_Inr size if_not_P [OF nowrap] op prod.case
    by (simp add: w)
  then show thesis using c b1 by (intro that [of ?c]) simp_all
qed

lemma in_flight_advance:
  assumes "in_flight c + n < 4294967296"
  shows "in_flight (c\<lparr>c_next_seq := c_next_seq c + of_nat n\<rparr>) = in_flight c + n"
proof -
  have "in_flight (c\<lparr>c_next_seq := c_next_seq c + of_nat n\<rparr>) =
      unat ((c_next_seq c - c_unack_seq c) + of_nat n)"
    by (simp add: in_flight_def algebra_simps)
  also have "\<dots> = (in_flight c + n) mod 4294967296"
    by (simp add: in_flight_def unat_word_ariths(1) unat_of_nat take_bit_eq_mod mod_add_right_eq)
  finally show ?thesis using assms by simp
qed

subsection \<open>Properties of the streams\<close>

text \<open>C21. What the application writes is what goes out. When everything written before has been
  sent and the peer's window has room, \<open>tcp_connect_write\<close> takes all the data, appends it to what
  is waiting for its acknowledgement, and the next \<open>tcp_write_to_buf\<close> puts exactly that data into
  the packet; the sequence number advances by its length and the bytes in flight stay below the
  window.\<close>

theorem tcp_stream_out:
  assumes "conn_buf (c_tx_buf (conn s i)) = Inr tx" and "get_buf s tx = Inr btx"
    and "get_buf s r = Inr b" and "r \<noteq> tx"
    and "buf_data btx + buf_len btx + length data < BUF_MAX_LEN"
    and "in_flight (conn s i) = buf_len btx"
    and "in_flight (conn s i) + length data < unat (c_remote_win (conn s i))"
  shows "\<exists>s1 s2 btx' t. tcp_connect_write s i data (length data) = Inr (s1, length data) \<and>
    tcp_write_to_buf s1 i r = Inr (s2, of_nat (length data)) \<and>
    get_buf s2 tx = Inr btx' \<and> contents btx' = contents btx @ data \<and>
    get_buf s2 r = Inr t \<and> contents t = data \<and>
    c_next_seq (conn s2 i) = c_next_seq (conn s i) + of_nat (length data) \<and>
    in_flight (conn s2 i) = in_flight (conn s i) + length data \<and>
    in_flight (conn s2 i) < unat (c_remote_win (conn s2 i))"
proof -
  let ?c = "conn s i" and ?n = "length data"
  have w: "unat (c_remote_win ?c) < 65536" by (rule unat_u16_less)
  obtain c where c: "tcp_connect_write s i data ?n = Inr (put_buf s tx c, ?n)"
    "contents c = contents btx @ data" "buf_data c = buf_data btx" "buf_len c = buf_len btx + ?n"
    by (rule tcp_connect_write_spec [OF assms(1,2,5,7)])
  let ?s1 = "put_buf s tx c"
  have prem: "conn_buf (c_tx_buf (conn ?s1 i)) = Inr tx" "get_buf ?s1 tx = Inr c" "get_buf ?s1 r = Inr b"
    "r \<noteq> tx" "buf_ok c" "in_flight (conn ?s1 i) \<le> buf_len c" "in_flight (conn ?s1 i) < 65536"
    using assms c w by (simp_all add: buf_ok_def)
  have k: "min (buf_len c - in_flight (conn ?s1 i)) (unat (c_remote_win (conn ?s1 i))) = ?n"
    using assms(6,7) c(4) by simp
  obtain t where t: "tcp_write_to_buf ?s1 i r = Inr (put_conn (put_buf ?s1 r t) i
      (?c\<lparr>c_next_seq := c_next_seq ?c + of_nat ?n\<rparr>), of_nat ?n)"
    "contents t = take (unat (c_remote_win ?c)) (drop (in_flight ?c) (contents c))"
    by (rule tcp_write_to_buf_spec [OF prem, unfolded k]) (simp only: conn_put_buf)
  have "contents t = data"
    using t(2) c(2) assms(6,7) by simp
  moreover have "in_flight (?c\<lparr>c_next_seq := c_next_seq ?c + of_nat ?n\<rparr>) = in_flight ?c + ?n"
    using assms(7) w by (intro in_flight_advance) simp
  ultimately show ?thesis
    using c(1,2) t(1) assms(4,7)
    by (intro exI [of _ ?s1] exI [of _ c] exI [of _ t]
        exI [of _ "put_conn (put_buf ?s1 r t) i (?c\<lparr>c_next_seq := c_next_seq ?c + of_nat ?n\<rparr>)"]) simp
qed

text \<open>A connection with empty buffers and a window of 1000 bytes, for the witnesses.\<close>

definition demo_conn :: "net \<Rightarrow> net" where
  "demo_conn s = s\<lparr>
     mheap := (mheap s)\<lparr>h_bufs := (h_bufs (mheap s))(7 \<mapsto> demo_buf [], 8 \<mapsto> demo_buf [])\<rparr>,
     connect_table := \<lparr>m_key_len = 8, m_value_len = 56, m_size = 1, m_max_size = 1, m_timeout = 0,
       m_ctor = (\<lambda>_ v. v), m_data = (\<lambda>_. \<lparr>ent_key = new_tcp_key (10, 0, 0, 9) 1234 61000,
         ent_val = CONNECT_LISTEN\<lparr>c_state := TCP_ESTABLISHED, c_local_port := 61000, c_remote_port := 1234,
           c_ip := (10, 0, 0, 9), c_ack := 100, c_remote_win := 1000, c_handler := Some 0,
           c_rx_buf := Some 7, c_tx_buf := Some 8\<rparr>, ent_time = 1\<rparr>)\<rparr>\<rparr>"

lemma demo_conn_fields:
  "conn (demo_conn s) i = CONNECT_LISTEN\<lparr>c_state := TCP_ESTABLISHED, c_local_port := 61000, c_remote_port := 1234,
           c_ip := (10, 0, 0, 9), c_ack := 100, c_remote_win := 1000, c_handler := Some 0,
           c_rx_buf := Some 7, c_tx_buf := Some 8\<rparr>"
  "get_buf (demo_conn s) (Heapbuf 7) = Inr (demo_buf [])" "get_buf (demo_conn s) (Heapbuf 8) = Inr (demo_buf [])"
  "get_buf (demo_conn s) Txbuf = Inr (txbuf s)" "get_buf (demo_conn s) Rxbuf = Inr (rxbuf s)"
  by (simp_all add: conn_def map_val_def demo_conn_def deref_def)

theorem tcp_stream_out_witness:
  "\<exists>s1 s2 t. tcp_connect_write (demo_conn demo_peer) 0 [1, 2, 3] 3 = Inr (s1, 3) \<and>
    tcp_write_to_buf s1 0 Txbuf = Inr (s2, 3) \<and> get_buf s2 Txbuf = Inr t \<and> contents t = [1, 2, 3]"
proof -
  let ?s = "demo_conn demo_peer"
  have c: "conn_buf (c_tx_buf (conn ?s 0)) = Inr (Heapbuf 8)"
    "in_flight (conn ?s 0) = 0" "unat (c_remote_win (conn ?s 0)) = 1000"
    by (simp_all add: in_flight_def demo_conn_fields CONNECT_LISTEN_def)
  have d: "buf_data (demo_buf []) + buf_len (demo_buf []) + length [1, 2, 3 :: u8] < BUF_MAX_LEN"
    by (simp add: demo_buf_def)
  have "(of_nat (length [1, 2, 3 :: u8]) :: u16) = 3" "length [1, 2, 3 :: u8] = 3" by simp_all
  then show ?thesis
    using tcp_stream_out [OF c(1) demo_conn_fields(3,4) _ d] c(2,3) by (simp only: buf_len_demo_buf) auto
qed

text \<open>C22. What arrives is what the application reads: the payload of a segment is appended to the
  receive buffer, the acknowledgement number advances by its length, and reading returns the
  oldest bytes in order and leaves the rest.\<close>

theorem tcp_stream_in:
  assumes "conn_buf (c_rx_buf (conn s i)) = Inr rx" and "get_buf s rx = Inr brx"
    and "get_buf s r = Inr b" and "r \<noteq> rx" and "buf_ok b"
    and "buf_data brx + buf_len brx + buf_len b < BUF_MAX_LEN" and "n < 4294967296"
  shows "\<exists>s1 s2 c. tcp_read_from_buf s i r = Inr (s1, of_nat (buf_len b)) \<and>
    c_ack (conn s1 i) = c_ack (conn s i) + of_nat (buf_len b) \<and>
    tcp_connect_read s1 i n = Inr (s2, take n (contents brx @ contents b)) \<and>
    get_buf s2 rx = Inr c \<and> contents c = drop n (contents brx @ contents b) \<and> buf_ok c"
proof -
  obtain c where c: "tcp_read_from_buf s i r =
      Inr (put_conn (put_buf s rx c) i ((conn s i)\<lparr>c_ack := c_ack (conn s i) + of_nat (buf_len b)\<rparr>), of_nat (buf_len b))"
    "contents c = contents brx @ contents b" "buf_data c = buf_data brx" "buf_len c = buf_len brx + buf_len b"
    by (rule tcp_read_from_buf_spec [OF assms(1-6)])
  let ?s1 = "put_conn (put_buf s rx c) i ((conn s i)\<lparr>c_ack := c_ack (conn s i) + of_nat (buf_len b)\<rparr>)"
  have "conn_buf (c_rx_buf (conn ?s1 i)) = Inr rx" "get_buf ?s1 rx = Inr c" "buf_ok c"
    using assms(1,6) c(3,4) by (simp_all add: buf_ok_def)
  then obtain d where "tcp_connect_read ?s1 i n = Inr (put_buf ?s1 rx d, take n (contents c))"
    "contents d = drop n (contents c)" "buf_ok d"
    using assms(7) by (rule tcp_connect_read_spec)
  then show ?thesis
    using c(1,2) by (intro exI [of _ ?s1] exI [of _ "put_buf ?s1 rx d"] exI [of _ d]) simp
qed

theorem tcp_stream_in_witness:
  "\<exists>s1 s2. tcp_read_from_buf (demo_conn (demo_peer\<lparr>rxbuf := demo_buf [5, 6, 7]\<rparr>)) 0 Rxbuf = Inr (s1, 3) \<and>
    tcp_connect_read s1 0 2 = Inr (s2, [5, 6])"
proof -
  let ?s = "demo_conn (demo_peer\<lparr>rxbuf := demo_buf [5, 6, 7]\<rparr>)"
  have c: "conn_buf (c_rx_buf (conn ?s 0)) = Inr (Heapbuf 7)"
    by (simp add: demo_conn_fields CONNECT_LISTEN_def)
  have b: "get_buf ?s Rxbuf = Inr (demo_buf [5, 6, 7])" by (simp add: demo_conn_def)
  have d: "buf_data (demo_buf []) + buf_len (demo_buf []) + buf_len (demo_buf [5, 6, 7]) < BUF_MAX_LEN"
    by (simp add: demo_buf_def)
  have "buf_ok (demo_buf [5, 6, 7])" by (rule buf_ok_demo_buf) simp
  from tcp_stream_in [OF c demo_conn_fields(2) b _ this d, of 2]
  show ?thesis by simp blast
qed

end
