(* ===== verification/TcpIn.thy ===== *)
theory TcpIn
  imports TcpData
begin

text \<open>
  Receiving a TCP segment (\<^verbatim>\<open>tcp_in\<close> of \<^verbatim>\<open>src/tcp.c\<close>), cut at the numbered steps of the source:
  \<open>tcp_in_check\<close> (steps 1 to 3), \<open>tcp_find_connect\<close> (6), \<open>tcp_in_listen\<close> (8), one definition per
  state of the switch (12 to 20), \<open>tcp_in_conn\<close> (8 to 20 put together) and \<open>tcp_reset\<close> (the code
  behind the label \<^verbatim>\<open>reset_tcp\<close>). The definitions that may jump to that label return a flag that
  says so. \<open>call\<close> gives the functions behind the handler pointers.
\<close>

type_synonym tcp_call = "tcp_handler_t \<Rightarrow> net \<Rightarrow> nat \<Rightarrow> connect_state \<Rightarrow> net res"

subsection \<open>Before the state machine\<close>

definition tcp_in_check :: "net \<Rightarrow> bufref \<Rightarrow> ip_addr \<Rightarrow> (net \<times> tcp_hdr option) res" where
  "tcp_in_check s r src_ip =
     ebind (get_buf s r) (\<lambda>b.
     if buf_len b < 20 then Inr (s, None)
     else
       ebind (mem_read s r (buf_data b) 20) (\<lambda>bs.
       let p = tcp_dec bs; checksum_expected = th_chunksum16 p in
       ebind (mem_write s r (buf_data b + 16) (u16_bytes 0)) (\<lambda>s1.
       ebind (tcp_checksum s1 r src_ip net_if_ip) (\<lambda>(s2, checksum_actual).
       if checksum_actual \<noteq> checksum_expected then Inr (s2, None)
       else
         ebind (mem_write s2 r (buf_data b + 16) (u16_bytes checksum_expected)) (\<lambda>s3.
         Inr (s3, Some p))))))"

text \<open>The connection of the key; a new one in state LISTEN when there is none.\<close>

definition tcp_find_connect :: "net \<Rightarrow> tcp_key \<Rightarrow> ip_addr \<Rightarrow> nat \<Rightarrow> (net \<times> nat) res" where
  "tcp_find_connect s key src_ip handler =
     (case map_get (connect_table s) (clock s) (Some key) of
        Some i \<Rightarrow> Inr (s, i)
      | None \<Rightarrow>
          (case map_set (connect_table s) (clock s) key
                  (CONNECT_LISTEN\<lparr>c_ip := src_ip, c_handler := Some handler\<rparr>) of
             (t, st) \<Rightarrow>
               ebind (guard_else (st = 0) AssertFailed) (\<lambda>_.
               let s1 = s\<lparr>connect_table := t\<rparr> in
               ebind (deref (map_get (connect_table s1) (clock s1) (Some key)) NullDeref) (\<lambda>i.
               Inr (s1, i)))))"

subsection \<open>The states\<close>

definition tcp_in_listen ::
  "net \<Rightarrow> nat \<Rightarrow> tcp_hdr \<Rightarrow> ip_addr \<Rightarrow> (net \<times> bool) res" where
  "tcp_in_listen s i p src_ip =
     (if fl_rst (th_flags p) then ebind (tcp_connect_close s i) (\<lambda>s1. Inr (s1, False))
      else if \<not> fl_syn (th_flags p) then Inr (s, True)
      else
        ebind (init_tcp_connect_rcvd s i) (\<lambda>s1.
        let r = rand_seq s1 0; s2 = s1\<lparr>rand_seq := \<lambda>n. rand_seq s1 (Suc n)\<rparr>;
            s3 = put_conn s2 i ((conn s2 i)
              \<lparr>c_local_port := swap16 (th_dst_port16 p), c_remote_port := swap16 (th_src_port16 p),
               c_ip := src_ip, c_unack_seq := r, c_next_seq := r,
               c_ack := swap32 (th_seq_number32 p) + 1, c_remote_win := swap16 (th_window_size16 p)\<rparr>)
        in ebind (buf_do (\<lambda>b. buf_init b 0) s3 Txbuf) (\<lambda>s4.
           ebind (tcp_send s4 Txbuf i tcp_flags_ack_syn) (\<lambda>s5.
           Inr (s5, False)))))"

definition call_handler :: "tcp_call \<Rightarrow> nat option \<Rightarrow> net \<Rightarrow> nat \<Rightarrow> connect_state \<Rightarrow> net res" where
  "call_handler call h s i st =
     (case h of None \<Rightarrow> Inl NullDeref | Some slot \<Rightarrow> call (map_val (tcp_table s) slot) s i st)"

definition tcp_in_syn_rcvd :: "tcp_call \<Rightarrow> net \<Rightarrow> nat \<Rightarrow> tcp_hdr \<Rightarrow> net res" where
  "tcp_in_syn_rcvd call s i p =
     (if \<not> fl_ack (th_flags p) then Inr s
      else
        let c = conn s i;
            s1 = put_conn s i (c\<lparr>c_unack_seq := c_unack_seq c + 1, c_state := TCP_ESTABLISHED\<rparr>)
        in call_handler call (c_handler (conn s1 i)) s1 i TCP_CONN_CONNECTED)"

text \<open>Step 15: data of the transmit buffer that the peer has acknowledged is dropped.\<close>

definition tcp_acknowledge :: "net \<Rightarrow> nat \<Rightarrow> tcp_hdr \<Rightarrow> net res" where
  "tcp_acknowledge s i p =
     (let c = conn s i; got_ack = swap32 (th_ack_number32 p) in
      if fl_ack (th_flags p) \<and> c_unack_seq c < got_ack \<and> c_next_seq c > got_ack then
        ebind (conn_buf (c_tx_buf c)) (\<lambda>tx.
        ebind (buf_do (\<lambda>b. buf_remove_header b (unat (got_ack - c_unack_seq c))) s tx) (\<lambda>s1.
        Inr (put_conn s1 i ((conn s1 i)\<lparr>c_unack_seq := got_ack\<rparr>))))
      else Inr s)"

definition tcp_in_established :: "tcp_call \<Rightarrow> net \<Rightarrow> bufref \<Rightarrow> nat \<Rightarrow> tcp_hdr \<Rightarrow> net res" where
  "tcp_in_established call s r i p =
     (if \<not> fl_ack (th_flags p) \<and> \<not> fl_fin (th_flags p) then Inr s
      else
        ebind (tcp_acknowledge s i p) (\<lambda>s1.
        ebind (tcp_read_from_buf s1 i r) (\<lambda>(s2, read_sz).
        ebind (buf_do (\<lambda>b. buf_init b 0) s2 Txbuf) (\<lambda>s3.
        if fl_fin (th_flags p) then
          let c = conn s3 i;
              s4 = put_conn s3 i (c\<lparr>c_state := TCP_LAST_ACK, c_ack := c_ack c + 1\<rparr>)
          in tcp_send s4 Txbuf i tcp_flags_ack_fin
        else
          ebind (get_buf s3 r) (\<lambda>b.
          if buf_len b \<noteq> 0 then
            ebind (call_handler call (c_handler (conn s3 i)) s3 i TCP_CONN_DATA_RECV) (\<lambda>s4.
            ebind (tcp_write_to_buf s4 i Txbuf) (\<lambda>(s5, _).
            tcp_send s5 Txbuf i tcp_flags_ack))
          else Inr s3)))))"

definition tcp_in_fin_wait_1 :: "net \<Rightarrow> nat \<Rightarrow> tcp_hdr \<Rightarrow> net res" where
  "tcp_in_fin_wait_1 s i p =
     (if fl_fin (th_flags p) \<and> fl_ack (th_flags p) then tcp_connect_close s i
      else if fl_ack (th_flags p) then Inr (put_conn s i ((conn s i)\<lparr>c_state := TCP_FIN_WAIT_2\<rparr>))
      else Inr s)"

definition tcp_in_fin_wait_2 :: "net \<Rightarrow> nat \<Rightarrow> tcp_hdr \<Rightarrow> net res" where
  "tcp_in_fin_wait_2 s i p =
     (if fl_fin (th_flags p) then
        let s1 = put_conn s i ((conn s i)\<lparr>c_ack := c_ack (conn s i) + 1\<rparr>) in
        ebind (buf_do (\<lambda>b. buf_init b 0) s1 Txbuf) (\<lambda>s2.
        ebind (tcp_send s2 Txbuf i tcp_flags_ack) (\<lambda>s3.
        tcp_connect_close s3 i))
      else Inr s)"

definition tcp_in_last_ack :: "tcp_call \<Rightarrow> net \<Rightarrow> nat \<Rightarrow> nat \<Rightarrow> tcp_hdr \<Rightarrow> net res" where
  "tcp_in_last_ack call s i handler p =
     (if fl_ack (th_flags p) then
        ebind (call_handler call (Some handler) s i TCP_CONN_CLOSED) (\<lambda>s1.
        tcp_connect_close s1 i)
      else Inr s)"

definition tcp_in_state :: "tcp_call \<Rightarrow> net \<Rightarrow> bufref \<Rightarrow> nat \<Rightarrow> nat \<Rightarrow> tcp_hdr \<Rightarrow> net res" where
  "tcp_in_state call s r i handler p =
     (case c_state (conn s i) of
        TCP_LISTEN \<Rightarrow> Inl AssertFailed
      | TCP_SYN_RCVD \<Rightarrow> tcp_in_syn_rcvd call s i p
      | TCP_ESTABLISHED \<Rightarrow> tcp_in_established call s r i p
      | TCP_CLOSE_WAIT \<Rightarrow> Inl AssertFailed
      | TCP_FIN_WAIT_1 \<Rightarrow> tcp_in_fin_wait_1 s i p
      | TCP_FIN_WAIT_2 \<Rightarrow> tcp_in_fin_wait_2 s i p
      | TCP_LAST_ACK \<Rightarrow> tcp_in_last_ack call s i handler p
      | TCP_SYN_SEND \<Rightarrow> Inl AssertFailed
      | TCP_CLOSING \<Rightarrow> Inl AssertFailed
      | TCP_TIME_WAIT \<Rightarrow> Inl AssertFailed)"

definition tcp_in_conn ::
  "tcp_call \<Rightarrow> net \<Rightarrow> bufref \<Rightarrow> nat \<Rightarrow> nat \<Rightarrow> tcp_hdr \<Rightarrow> ip_addr \<Rightarrow> (net \<times> bool) res" where
  "tcp_in_conn call s r i handler p src_ip =
     (if c_state (conn s i) = TCP_LISTEN then tcp_in_listen s i p src_ip
      else if swap32 (th_seq_number32 p) \<noteq> c_ack (conn s i) then Inr (s, True)
      else if fl_rst (th_flags p) then
        ebind (tcp_connect_close s i) (\<lambda>s1. Inr (s1, True))
      else
        ebind (buf_do (\<lambda>b. buf_remove_header b 20) s r) (\<lambda>s1.
        ebind (tcp_in_state call s1 r i handler p) (\<lambda>s2.
        Inr (s2, False))))"

definition tcp_reset :: "net \<Rightarrow> nat \<Rightarrow> tcp_key \<Rightarrow> u32 \<Rightarrow> net res" where
  "tcp_reset s i key got_seq =
     (let s1 = put_conn s i ((conn s i)\<lparr>c_next_seq := 0, c_ack := got_seq + 1\<rparr>) in
      ebind (buf_do (\<lambda>b. buf_init b 0) s1 Txbuf) (\<lambda>s2.
      ebind (tcp_send s2 Txbuf i tcp_flags_ack_rst) (\<lambda>s3.
      ebind (release_at s3 i) (\<lambda>s4.
      Inr (s4\<lparr>connect_table := map_delete (connect_table s4) (clock s4) key\<rparr>)))))"

definition tcp_in :: "tcp_call \<Rightarrow> net \<Rightarrow> bufref \<Rightarrow> u8 list \<Rightarrow> net res" where
  "tcp_in call s r src =
     (let src_ip = ip_of src in
      ebind (tcp_in_check s r src_ip) (\<lambda>(s1, hdr).
      case hdr of
        None \<Rightarrow> Inr s1
      | Some p \<Rightarrow>
          let src_port = swap16 (th_src_port16 p); dst_port = swap16 (th_dst_port16 p) in
          (case map_get (tcp_table s1) (clock s1) (Some dst_port) of
             None \<Rightarrow> Inr s1
           | Some handler \<Rightarrow>
               let key = new_tcp_key src_ip src_port dst_port in
               ebind (tcp_find_connect s1 key src_ip handler) (\<lambda>(s2, i).
               ebind (tcp_in_conn call s2 r i handler p src_ip) (\<lambda>(s3, reset).
               if reset then tcp_reset s3 i key (swap32 (th_seq_number32 p)) else Inr s3)))))"

subsection \<open>The checks\<close>

definition tcp_sum :: "ip_addr \<Rightarrow> tcp_hdr \<Rightarrow> u8 list \<Rightarrow> u16" where
  "tcp_sum src h data =
     checksum16 (peso_enc (tcp_peso_hdr src net_if_ip (of_nat (20 + length data)))
       @ tcp_enc (h\<lparr>th_chunksum16 := 0\<rparr>) @ data)"

lemma tcp_enc_split:
  "tcp_enc h = take 16 (tcp_enc h) @ u16_bytes (th_chunksum16 h) @ drop 18 (tcp_enc h)"
  "tcp_enc (h\<lparr>th_chunksum16 := c\<rparr>) = take 16 (tcp_enc h) @ u16_bytes c @ drop 18 (tcp_enc h)"
  by (simp_all add: tcp_enc_def u16_bytes_def u32_bytes_def numeral_eq_Suc)

lemma poke_same: "load (buf_payload b) (buf_data b + off) (length bs) = bs \<Longrightarrow> poke b off bs = b"
  unfolding poke_def by (metis buf_t.surjective buf_t.update_convs(3) store_load_id)

lemma contents_tcp_checksum:
  assumes "contents b = tcp_enc h @ data"
  shows "contents (poke b 16 (u16_bytes c)) = tcp_enc (h\<lparr>th_chunksum16 := c\<rparr>) @ data"
    and "poke b 16 (u16_bytes (th_chunksum16 h)) = b"
proof -
  have c: "contents b = take 16 (tcp_enc h) @ u16_bytes (th_chunksum16 h) @ (drop 18 (tcp_enc h) @ data)"
    using assms tcp_enc_split(1) [of h] by (metis append.assoc)
  from contents_poke [OF c, of "u16_bytes c" 16]
  show "contents (poke b 16 (u16_bytes c)) = tcp_enc (h\<lparr>th_chunksum16 := c\<rparr>) @ data"
    by (simp add: tcp_enc_split(2) [where h = h and c = c])
  have "load (buf_payload b) (buf_data b + 16) 2 = take 2 (drop 16 (contents b))"
    using arg_cong [OF assms, of length] by (simp add: contents_def mem_simps)
  also have "\<dots> = u16_bytes (th_chunksum16 h)"
    unfolding c by simp
  finally show "poke b 16 (u16_bytes (th_chunksum16 h)) = b"
    by (intro poke_same) simp
qed

lemma tcp_in_check_spec:
  assumes get: "get_buf s r = Inr b" and room: "12 \<le> buf_data b" "buf_ok b" and len: "buf_len b < 65536"
    and c: "contents b = tcp_enc h @ data"
  shows "tcp_in_check s r src =
    (if th_chunksum16 h = tcp_sum src h data then Inr (s, Some h)
     else Inr (put_buf s r (poke b 16 (u16_bytes 0)), None))"
proof -
  have n: "buf_len b = 20 + length data" using arg_cong [OF c, of length] by simp
  define z where "z = u16_bytes 0"
  let ?b0 = "poke b 16 z"
  have read: "mem_read s r (buf_data b) 20 = Inr (tcp_enc h)"
    using get room n c by (simp add: mem_read_get buf_read_contents)
  have w0: "mem_write s r (buf_data b + 16) z = Inr (put_buf s r ?b0)"
    using mem_write_poke [OF get, of 16 z] room n by (simp add: z_def buf_ok_def)
  have sum: "tcp_checksum (put_buf s r ?b0) r src net_if_ip = Inr (put_buf s r ?b0, tcp_sum src h data)"
    using tcp_checksum_spec [of "put_buf s r ?b0" r ?b0 src net_if_ip] room len
      contents_tcp_checksum(1) [OF c, of 0, folded z_def]
    by (simp add: tcp_sum_def n)
  have w1: "mem_write (put_buf s r ?b0) r (buf_data b + 16) (u16_bytes (th_chunksum16 h)) = Inr s"
  proof -
    have "poke ?b0 16 (u16_bytes (th_chunksum16 h)) = b"
      using contents_tcp_checksum(2) [OF c] by (simp add: z_def)
    then show ?thesis
      using mem_write_poke [of "put_buf s r ?b0" r ?b0 16 "u16_bytes (th_chunksum16 h)"] room n put_get_id [OF get]
      by (simp add: buf_ok_def)
  qed
  show ?thesis
  proof -
    have "\<not> buf_len b < 20" using n by simp
    then show ?thesis
      unfolding tcp_in_check_def get ebind_Inr z_def [symmetric] read Let_def tcph.dec_enc w0 sum prod.case
      by (simp only: if_False if_cancel w1 ebind_Inr) auto
  qed
qed

lemma tcp_in_passed:
  assumes get: "get_buf s r = Inr b" and room: "12 \<le> buf_data b" "buf_ok b" and len: "buf_len b < 65536"
    and c: "contents b = tcp_enc p @ data" and sum: "th_chunksum16 p = tcp_sum src p data"
    and h: "map_get (tcp_table s) (clock s) (Some (swap16 (th_dst_port16 p))) = Some h"
    and find: "tcp_find_connect s (new_tcp_key src (swap16 (th_src_port16 p)) (swap16 (th_dst_port16 p))) src h = Inr (s2, i)"
  shows "tcp_in call s r (ip_bytes src) =
    ebind (tcp_in_conn call s2 r i h p src) (\<lambda>(s3, reset).
      if reset then tcp_reset s3 i (new_tcp_key src (swap16 (th_src_port16 p)) (swap16 (th_dst_port16 p)))
        (swap32 (th_seq_number32 p)) else Inr s3)"
  by (simp add: tcp_in_def Let_def tcp_in_check_spec [OF get room len c] sum h find)

subsection \<open>Finding and creating connections\<close>

lemma tcp_find_connect_old:
  "map_get (connect_table s) (clock s) (Some key) = Some i \<Longrightarrow> tcp_find_connect s key src h = Inr (s, i)"
  by (simp add: tcp_find_connect_def)

lemma tcp_find_connect_new:
  assumes inv: "map_inv (clock s) (connect_table s)"
    and new: "map_get (connect_table s) (clock s) (Some key) = None"
    and room: "m_size (connect_table s) \<noteq> m_max_size (connect_table s)"
  obtains t i where "tcp_find_connect s key src h = Inr (s\<lparr>connect_table := t\<rparr>, i)"
    and "map_get t (clock s) (Some key) = Some i"
    and "map_val t i = CONNECT_LISTEN\<lparr>c_ip := src, c_handler := Some h\<rparr>" and "map_inv (clock s) t"
proof -
  let ?v = "CONNECT_LISTEN\<lparr>c_ip := src, c_handler := Some h\<rparr>"
  obtain t st where set: "map_set (connect_table s) (clock s) key ?v = (t, st)" by fastforce
  have st: "st = 0"
    using nm.set_status [OF inv, of key ?v] room set by simp
  have "map_lookup (clock s) t key = Some ?v"
    using nm.lookup_set [OF inv, of key ?v] set st by simp
  then obtain i where i: "map_get t (clock s) (Some key) = Some i" "map_val t i = ?v"
    by (auto simp: map_lookup_def map_val_def)
  have "tcp_find_connect s key src h = Inr (s\<lparr>connect_table := t\<rparr>, i)"
    unfolding tcp_find_connect_def new option.case set prod.case st by (simp add: i(1))
  then show thesis using i nm.inv_set [OF inv, of key ?v] unfolding set by (intro that) simp_all
qed

lemma init_rcvd_listen:
  assumes "c_state (conn s i) = TCP_LISTEN"
  obtains rx tx hp where "init_tcp_connect_rcvd s i = Inr (put_conn (s\<lparr>mheap := hp\<rparr>) i
      ((conn s i)\<lparr>c_rx_buf := Some rx, c_tx_buf := Some tx, c_state := TCP_SYN_RCVD\<rparr>))"
    and "rx \<noteq> tx" and "h_bufs hp rx = Some (fst (buf_init fresh_buf 0))"
    and "h_bufs hp tx = Some (fst (buf_init fresh_buf 0))"
proof -
  obtain h1 rx where m1: "malloc_buf (mheap s) fresh_buf = (h1, rx)" by fastforce
  obtain h2 tx where m2: "malloc_buf h1 fresh_buf = (h2, tx)" by fastforce
  have h: "rx \<noteq> tx" "h_bufs h2 rx = Some fresh_buf" "h_bufs h2 tx = Some fresh_buf"
    using m1 m2 by (auto simp: malloc_buf_def)
  let ?e = "fst (buf_init fresh_buf 0)"
  let ?h3 = "h2\<lparr>h_bufs := (h_bufs h2)(rx \<mapsto> ?e)\<rparr>"
  let ?hp = "h2\<lparr>h_bufs := (h_bufs h2)(rx \<mapsto> ?e, tx \<mapsto> ?e)\<rparr>"
  let ?c1 = "(conn s i)\<lparr>c_rx_buf := Some rx, c_tx_buf := Some tx\<rparr>"
  let ?s1 = "put_conn (s\<lparr>mheap := h2\<rparr>) i ?c1"
  let ?s2 = "put_conn (s\<lparr>mheap := ?h3\<rparr>) i ?c1"
  let ?s3 = "put_conn (s\<lparr>mheap := ?hp\<rparr>) i ?c1"
  have 1: "buf_do (\<lambda>b. buf_init b 0) ?s1 (Heapbuf rx) = Inr ?s2"
    using h(2) buf_do_get [of ?s1 "Heapbuf rx" fresh_buf] by (simp add: put_buf_put_conn) (simp add: put_buf_def)
  have 2: "buf_do (\<lambda>b. buf_init b 0) ?s2 (Heapbuf tx) = Inr ?s3"
    using h(1,3) buf_do_get [of ?s2 "Heapbuf tx" fresh_buf] by (simp add: put_buf_put_conn) (simp add: put_buf_def)
  have "init_tcp_connect_rcvd s i = Inr (put_conn (s\<lparr>mheap := ?hp\<rparr>) i
      ((conn s i)\<lparr>c_rx_buf := Some rx, c_tx_buf := Some tx, c_state := TCP_SYN_RCVD\<rparr>))"
    unfolding init_tcp_connect_rcvd_def Let_def m1 m2 prod.case if_P [OF assms]
    by (simp add: 1 2)
  then show thesis using h(1) by (rule that) (use h(1) in simp_all)
qed

end
