(* ===== verification/TcpProps.thy ===== *)
theory TcpProps
  imports TcpIn
begin

text \<open>
  What \<open>tcp_in\<close> does with a segment: the properties of the handshake, of refused segments and of
  resets. \<open>segment_arrives\<close> collects the situation they share: a checked segment with header \<open>p\<close>
  stands in the buffer \<open>r\<close>.
\<close>

definition segment_arrives :: "net \<Rightarrow> bufref \<Rightarrow> buf_t \<Rightarrow> ip_addr \<Rightarrow> tcp_hdr \<Rightarrow> u8 list \<Rightarrow> bool" where
  "segment_arrives s r b src p data \<longleftrightarrow>
     get_buf s r = Inr b \<and> 12 \<le> buf_data b \<and> buf_ok b \<and> buf_len b < 65536 \<and>
     contents b = tcp_enc p @ data \<and> th_chunksum16 p = tcp_sum src p data"

definition segment_key :: "ip_addr \<Rightarrow> tcp_hdr \<Rightarrow> tcp_key" where
  "segment_key src p = new_tcp_key src (swap16 (th_src_port16 p)) (swap16 (th_dst_port16 p))"

lemma tcp_in_arrives:
  assumes "segment_arrives s r b src p data"
    and "map_get (tcp_table s) (clock s) (Some (swap16 (th_dst_port16 p))) = Some h"
    and "tcp_find_connect s (segment_key src p) src h = Inr (s2, i)"
  shows "tcp_in call s r (ip_bytes src) =
    ebind (tcp_in_conn call s2 r i h p src) (\<lambda>(s3, reset).
      if reset then tcp_reset s3 i (segment_key src p) (swap32 (th_seq_number32 p)) else Inr s3)"
proof -
  from assms(1) have a: "get_buf s r = Inr b" "12 \<le> buf_data b" "buf_ok b" "buf_len b < 65536"
    "contents b = tcp_enc p @ data" "th_chunksum16 p = tcp_sum src p data"
    by (simp_all add: segment_arrives_def)
  show ?thesis
    unfolding segment_key_def
    by (rule tcp_in_passed [OF a assms(2) assms(3) [unfolded segment_key_def]])
qed

subsection \<open>Segments that are refused\<close>

text \<open>A segment that is shorter than a header, has a wrong checksum or is for a port nobody
  listens on is dropped in silence: nothing is sent, no connection is made or touched, and the
  state is unchanged but for the checksum field that stays zeroed after a wrong checksum.\<close>

lemma tcp_in_drops:
  assumes "get_buf s r = Inr b" and "12 \<le> buf_data b" and "buf_ok b" and "buf_len b < 65536"
    and "buf_len b < 20 \<or> (contents b = tcp_enc p @ data \<and>
      (th_chunksum16 p \<noteq> tcp_sum src p data \<or>
       map_get (tcp_table s) (clock s) (Some (swap16 (th_dst_port16 p))) = None))"
  shows "\<exists>b'. tcp_in call s r (ip_bytes src) = Inr (put_buf s r b') \<and>
    (b' = b \<or> b' = poke b 16 (u16_bytes 0))"
proof (cases "buf_len b < 20")
  case True
  then have "tcp_in call s r (ip_bytes src) = Inr s"
    using assms(1) by (simp add: tcp_in_def tcp_in_check_def)
  then show ?thesis using put_get_id [OF assms(1)] by (intro exI [of _ b]) simp
next
  case False
  then have c: "contents b = tcp_enc p @ data" and bad: "th_chunksum16 p \<noteq> tcp_sum src p data \<or>
      map_get (tcp_table s) (clock s) (Some (swap16 (th_dst_port16 p))) = None"
    using assms(5) by auto
  note check = tcp_in_check_spec [OF assms(1-4) c, of src]
  show ?thesis
  proof (cases "th_chunksum16 p = tcp_sum src p data")
    case True
    then have "tcp_in call s r (ip_bytes src) = Inr s"
      using bad check by (simp add: tcp_in_def)
    then show ?thesis using put_get_id [OF assms(1)] by (intro exI [of _ b]) simp
  next
    case False
    then show ?thesis
      using check by (intro exI [of _ "poke b 16 (u16_bytes 0)"]) (simp add: tcp_in_def del: u16_bytes_0)
  qed
qed

lemma tcp_in_drops_example:
  "\<exists>b'. tcp_in (\<lambda>_ _ _ _. Inl AssertFailed) (demo_state\<lparr>rxbuf := demo_buf [1, 2, 3]\<rparr>) Rxbuf
     (ip_bytes (10, 0, 0, 9)) = Inr (demo_state\<lparr>rxbuf := b'\<rparr>)"
proof -
  have "buf_data (demo_buf [1, 2, 3]) = 1000" by (simp add: demo_buf_def)
  then show ?thesis
    using tcp_in_drops [of "demo_state\<lparr>rxbuf := demo_buf [1, 2, 3]\<rparr>" Rxbuf "demo_buf [1, 2, 3]" undefined undefined
        "(10, 0, 0, 9)" "\<lambda>_ _ _ _. Inl AssertFailed"] buf_ok_demo_buf [of "[1, 2, 3]"]
    by auto
qed

subsection \<open>What one side sends the other accepts\<close>

definition sent_hdr :: "ip_addr \<Rightarrow> tcp_connect \<Rightarrow> tcp_flags \<Rightarrow> u8 list \<Rightarrow> tcp_hdr" where
  "sent_hdr me c flags data =
     (let h = tcp_send_hdr c (length data) flags;
          peso = peso_enc (tcp_peso_hdr (c_ip c) me (of_nat (20 + length data)))
      in h\<lparr>th_chunksum16 := checksum16 (peso @ tcp_enc h @ data)\<rparr>)"

lemma tcp_segment_sent_hdr: "tcp_segment me c flags data = tcp_enc (sent_hdr me c flags data) @ data"
  by (simp only: tcp_segment_def sent_hdr_def Let_def)

lemma sent_hdr_fields [simp]:
  "th_flags (sent_hdr me c flags data) = flags" "swap16 (th_src_port16 (sent_hdr me c flags data)) = c_local_port c"
  "swap16 (th_dst_port16 (sent_hdr me c flags data)) = c_remote_port c"
  "swap32 (th_seq_number32 (sent_hdr me c flags data)) = c_next_seq c - of_nat (length data)"
  "swap32 (th_ack_number32 (sent_hdr me c flags data)) = c_ack c"
  "swap16 (th_window_size16 (sent_hdr me c flags data)) = c_remote_win c"
  by (simp_all add: sent_hdr_def tcp_send_hdr_def Let_def)

lemma sent_hdr_sum:
  assumes "length data < 65516" and "c_ip c = net_if_ip"
  shows "th_chunksum16 (sent_hdr peer c flags data) = tcp_sum peer (sent_hdr peer c flags data) data"
proof -
  define h where "h = tcp_send_hdr c (length data) flags"
  have len: "length (tcp_enc h @ data) \<le> 131060" using assms(1) by simp
  have h0: "(sent_hdr peer c flags data)\<lparr>th_chunksum16 := 0\<rparr> = h"
    by (simp add: h_def sent_hdr_def tcp_send_hdr_def Let_def)
  show ?thesis
    unfolding tcp_sum_def h0 using checksum16_peso_swap [OF len, of net_if_ip peer] assms(2)
    by (simp add: sent_hdr_def Let_def h_def del: of_nat_add)
qed

lemma segment_arrives_sent:
  assumes "get_buf s r = Inr b" and "12 \<le> buf_data b" and "buf_ok b" and "buf_len b < 65536"
    and "contents b = tcp_segment peer c flags data" and "c_ip c = net_if_ip"
  shows "segment_arrives s r b peer (sent_hdr peer c flags data) data"
proof -
  have "length data < 65516"
    using assms(4) arg_cong [OF assms(5), of length] by simp
  then show ?thesis
    using assms sent_hdr_sum [of data c peer flags]
    by (simp add: segment_arrives_def tcp_segment_sent_hdr)
qed

text \<open>C20. Every segment that \<open>tcp_send\<close> of a peer builds for this host passes the checks: the
  checksum verifies although the two sides put the addresses into the pseudo header in opposite
  order, the buffer is as it was, and the header read back has the sender's ports, sequence
  number, acknowledgement, flags and window.\<close>

theorem tcp_segment_accepted:
  assumes "get_buf s r = Inr b" and "12 \<le> buf_data b" and "buf_ok b" and "buf_len b < 65536"
    and "contents b = tcp_segment peer c flags data" and "c_ip c = net_if_ip"
  shows "\<exists>p. tcp_in_check s r peer = Inr (s, Some p) \<and> th_flags p = flags \<and>
    swap16 (th_src_port16 p) = c_local_port c \<and> swap16 (th_dst_port16 p) = c_remote_port c \<and>
    swap32 (th_seq_number32 p) = c_next_seq c - of_nat (length data) \<and>
    swap32 (th_ack_number32 p) = c_ack c \<and> swap16 (th_window_size16 p) = c_remote_win c \<and>
    contents b = tcp_enc p @ data"
proof -
  let ?p = "sent_hdr peer c flags data"
  have c: "contents b = tcp_enc ?p @ data" using assms(5) by (simp add: tcp_segment_sent_hdr)
  have "segment_arrives s r b peer ?p data" by (rule segment_arrives_sent [OF assms])
  then have "tcp_in_check s r peer = Inr (s, Some ?p)"
    using tcp_in_check_spec [OF assms(1-4) c, of peer] by (simp add: segment_arrives_def)
  then show ?thesis
    using c by (intro exI [of _ ?p]) simp
qed

definition demo_client :: tcp_connect where
  "demo_client = CONNECT_LISTEN\<lparr>c_local_port := 1234, c_remote_port := 61000, c_ip := net_if_ip,
     c_next_seq := 99, c_remote_win := 1000\<rparr>"

theorem tcp_segment_accepted_witness:
  "\<exists>p. tcp_in_check (demo_state\<lparr>rxbuf := demo_buf (tcp_segment (10, 0, 0, 9) demo_client tcp_flags_ack [7])\<rparr>)
     Rxbuf (10, 0, 0, 9) =
     Inr (demo_state\<lparr>rxbuf := demo_buf (tcp_segment (10, 0, 0, 9) demo_client tcp_flags_ack [7])\<rparr>, Some p) \<and>
   swap16 (th_dst_port16 p) = 61000"
proof -
  let ?bs = "tcp_segment (10, 0, 0, 9) demo_client tcp_flags_ack [7]"
  have "buf_data (demo_buf ?bs) = 1000" "buf_ok (demo_buf ?bs)"
    by (simp_all add: demo_buf_def buf_ok_def)
  then show ?thesis
    using tcp_segment_accepted [of "demo_state\<lparr>rxbuf := demo_buf ?bs\<rparr>" Rxbuf "demo_buf ?bs" "(10, 0, 0, 9)"
        demo_client tcp_flags_ack "[7]"]
    by (auto simp: demo_client_def)
qed

subsection \<open>The handshake\<close>

lemma after_send_put_conn:
  "after_send (put_conn s i c) r t n out = put_conn (after_send s r t n out) i c"
  by (simp add: after_send_def put_buf_put_conn) (simp add: put_conn_def)

lemma tcp_in_listen_syn:
  assumes known: "map_lookup (clock s) (arp_table s) src = Some mac"
    and listen: "c_state (conn s i) = TCP_LISTEN" and syn: "fl_syn (th_flags p)" "\<not> fl_rst (th_flags p)"
  obtains t n rx tx hp where "tcp_in_listen s i p src = Inr (put_conn (after_send (s\<lparr>mheap := hp,
      rand_seq := (\<lambda>n. rand_seq s (Suc n))\<rparr>) Txbuf t n
      (sent s @ [ether_frame mac NET_PROTOCOL_IP (ip_packet src NET_PROTOCOL_TCP (ip_id s) 0 False
        (tcp_segment net_if_ip ((conn s i)\<lparr>c_local_port := swap16 (th_dst_port16 p),
          c_remote_port := swap16 (th_src_port16 p), c_ip := src, c_next_seq := rand_seq s 0,
          c_ack := swap32 (th_seq_number32 p) + 1, c_remote_win := swap16 (th_window_size16 p)\<rparr>) tcp_flags_ack_syn []))])) i
      ((conn s i)\<lparr>c_state := TCP_SYN_RCVD, c_local_port := swap16 (th_dst_port16 p),
          c_remote_port := swap16 (th_src_port16 p), c_ip := src, c_unack_seq := rand_seq s 0,
          c_next_seq := rand_seq s 0 + 1, c_ack := swap32 (th_seq_number32 p) + 1,
          c_remote_win := swap16 (th_window_size16 p), c_rx_buf := Some rx, c_tx_buf := Some tx\<rparr>), False)"
    and "rx \<noteq> tx" and "h_bufs hp rx = Some (fst (buf_init fresh_buf 0))"
    and "h_bufs hp tx = Some (fst (buf_init fresh_buf 0))"
proof -
  let ?sp = "swap16 (th_src_port16 p)" and ?dp = "swap16 (th_dst_port16 p)"
  obtain rx tx hp where init: "init_tcp_connect_rcvd s i = Inr (put_conn (s\<lparr>mheap := hp\<rparr>) i
      ((conn s i)\<lparr>c_rx_buf := Some rx, c_tx_buf := Some tx, c_state := TCP_SYN_RCVD\<rparr>))"
    and hp: "rx \<noteq> tx" "h_bufs hp rx = Some (fst (buf_init fresh_buf 0))"
      "h_bufs hp tx = Some (fst (buf_init fresh_buf 0))"
    by (rule init_rcvd_listen [OF listen])
  define S where "S = s\<lparr>mheap := hp, rand_seq := (\<lambda>n. rand_seq s (Suc n))\<rparr>"
  let ?c1 = "(conn s i)\<lparr>c_rx_buf := Some rx, c_tx_buf := Some tx, c_state := TCP_SYN_RCVD\<rparr>"
  define c3 where "c3 = ?c1\<lparr>c_local_port := ?dp, c_remote_port := ?sp, c_ip := src,
    c_unack_seq := rand_seq s 0, c_next_seq := rand_seq s 0, c_ack := swap32 (th_seq_number32 p) + 1,
    c_remote_win := swap16 (th_window_size16 p)\<rparr>"
  let ?e = "fst (buf_init (txbuf s) 0)"
  let ?s4 = "put_buf (put_conn S i c3) Txbuf ?e"
  have e: "contents ?e = []" "buf_data ?e = 65662" "buf_len ?e = 0"
    by (simp_all add: buf_init_def contents_def)
  have S: "sent S = sent s" "arp_table S = arp_table s" "clock S = clock s" "ip_id S = ip_id s"
    "txbuf S = txbuf s"
    by (simp_all add: S_def)
  have s3: "put_conn ((put_conn (s\<lparr>mheap := hp\<rparr>) i ?c1)\<lparr>rand_seq := (\<lambda>n. rand_seq s (Suc n))\<rparr>) i c = put_conn S i c" for c
    by (simp add: S_def put_conn_def)
  have s2: "conn ((put_conn (s\<lparr>mheap := hp\<rparr>) i ?c1)\<lparr>rand_seq := (\<lambda>n. rand_seq s (Suc n))\<rparr>) i = ?c1"
    by (simp add: conn_def put_conn_def map_val_def map_poke_def)
  have init_tx: "buf_do (\<lambda>b. buf_init b 0) (put_conn S i c3) Txbuf = Inr ?s4"
    by (subst buf_do_get [of _ _ "txbuf s"]) (simp_all add: S)
  have in_eq: "tcp_in_listen s i p src = ebind (tcp_send ?s4 Txbuf i tcp_flags_ack_syn) (\<lambda>s5. Inr (s5, False))"
    unfolding tcp_in_listen_def if_not_P [OF syn(2)] Let_def init ebind_Inr
    using syn(1) by (simp add: s2 s3 c3_def [symmetric] init_tx del: put_buf_simps)
  have send: "map_lookup (clock ?s4) (arp_table ?s4) (c_ip (conn ?s4 i)) = Some mac" "get_buf ?s4 Txbuf = Inr ?e"
    "54 \<le> buf_data ?e" "buf_data ?e + buf_len ?e + 46 < BUF_MAX_LEN" "buf_len ?e < 65516"
    using known e by (simp_all only: put_buf_frame put_conn_frame S conn_put_buf conn_put_conn get_put_same)
      (simp_all add: c3_def)
  obtain t n where t: "tcp_send ?s4 Txbuf i tcp_flags_ack_syn = Inr (put_conn (after_send ?s4 Txbuf t n
      (sent ?s4 @ map (ether_frame mac NET_PROTOCOL_IP) (ip_datagram (c_ip (conn ?s4 i)) NET_PROTOCOL_TCP (ip_id ?s4)
        (tcp_segment net_if_ip (conn ?s4 i) tcp_flags_ack_syn (contents ?e))))) i
      ((conn ?s4 i)\<lparr>c_next_seq := c_next_seq (conn ?s4 i) + (if fl_syn tcp_flags_ack_syn \<or> fl_fin tcp_flags_ack_syn then 1 else 0)\<rparr>))"
    by (rule tcp_send_known [OF send])
  let ?seg = "tcp_segment net_if_ip ((conn s i)\<lparr>c_local_port := ?dp, c_remote_port := ?sp, c_ip := src,
    c_next_seq := rand_seq s 0, c_ack := swap32 (th_seq_number32 p) + 1,
    c_remote_win := swap16 (th_window_size16 p)\<rparr>) tcp_flags_ack_syn []"
  have seg: "tcp_segment net_if_ip c3 tcp_flags_ack_syn [] = ?seg"
    by (simp add: tcp_segment_def tcp_send_hdr_def c3_def)
  have c3: "c_ip c3 = src" "c3\<lparr>c_next_seq := c_next_seq c3 + 1\<rparr> = (conn s i)\<lparr>c_state := TCP_SYN_RCVD,
      c_local_port := ?dp, c_remote_port := ?sp, c_ip := src, c_unack_seq := rand_seq s 0,
      c_next_seq := rand_seq s 0 + 1, c_ack := swap32 (th_seq_number32 p) + 1,
      c_remote_win := swap16 (th_window_size16 p), c_rx_buf := Some rx, c_tx_buf := Some tx\<rparr>"
    by (simp_all add: c3_def)
  have flags: "fl_syn tcp_flags_ack_syn \<or> fl_fin tcp_flags_ack_syn" by (simp add: tcp_flags_defs)
  have dg: "ip_datagram src NET_PROTOCOL_TCP (ip_id s) ?seg = [ip_packet src NET_PROTOCOL_TCP (ip_id s) 0 False ?seg]"
    by (simp add: ip_datagram_def)
  have "tcp_in_listen s i p src = Inr (put_conn (after_send S Txbuf t n
      (sent s @ [ether_frame mac NET_PROTOCOL_IP (ip_packet src NET_PROTOCOL_TCP (ip_id s) 0 False ?seg)])) i
      (c3\<lparr>c_next_seq := c_next_seq c3 + 1\<rparr>), False)"
    unfolding in_eq t ebind_Inr conn_put_buf conn_put_conn c3(1) seg e(1) if_P [OF flags] put_buf_frame
      put_conn_frame S dg after_send_put after_send_put_conn put_conn_put_conn
    by (simp only: list.map)
  then show thesis
    unfolding c3(2) S_def by (rule that) (rule hp)+
qed

lemma syn_reply:
  assumes "segment_arrives s r b src p data" and "fl_syn (th_flags p)" and "\<not> fl_rst (th_flags p)"
    and "map_get (tcp_table s) (clock s) (Some (swap16 (th_dst_port16 p))) = Some h"
    and "map_inv (clock s) (connect_table s)"
    and "map_get (connect_table s) (clock s) (Some (segment_key src p)) = None"
    and "m_size (connect_table s) \<noteq> m_max_size (connect_table s)"
    and "map_lookup (clock s) (arp_table s) src = Some mac"
  shows "\<exists>s' i c rx tx. tcp_in call s r (ip_bytes src) = Inr s' \<and>
    map_get (connect_table s') (clock s') (Some (segment_key src p)) = Some i \<and>
    c = \<lparr>c_state = TCP_SYN_RCVD, c_local_port = swap16 (th_dst_port16 p),
      c_remote_port = swap16 (th_src_port16 p), c_ip = src, c_unack_seq = rand_seq s 0,
      c_next_seq = rand_seq s 0 + 1, c_ack = swap32 (th_seq_number32 p) + 1, c_remote_mss = 0,
      c_remote_win = swap16 (th_window_size16 p), c_handler = Some h, c_rx_buf = Some rx, c_tx_buf = Some tx\<rparr> \<and>
    conn s' i = c \<and> rx \<noteq> tx \<and>
    sent s' = sent s @ [ether_frame mac NET_PROTOCOL_IP (ip_packet src NET_PROTOCOL_TCP (ip_id s) 0 False
      (tcp_segment net_if_ip (c\<lparr>c_next_seq := rand_seq s 0\<rparr>) tcp_flags_ack_syn []))]"
proof -
  obtain t i where find: "tcp_find_connect s (segment_key src p) src h = Inr (s\<lparr>connect_table := t\<rparr>, i)"
    and t: "map_get t (clock s) (Some (segment_key src p)) = Some i"
      "map_val t i = CONNECT_LISTEN\<lparr>c_ip := src, c_handler := Some h\<rparr>"
    by (rule tcp_find_connect_new [OF assms(5-7)])
  let ?s2 = "s\<lparr>connect_table := t\<rparr>"
  have c0: "conn ?s2 i = CONNECT_LISTEN\<lparr>c_ip := src, c_handler := Some h\<rparr>"
    by (simp add: conn_def t(2))
  have listen: "c_state (conn ?s2 i) = TCP_LISTEN" by (simp add: c0 CONNECT_LISTEN_def)
  have known: "map_lookup (clock ?s2) (arp_table ?s2) src = Some mac" using assms(8) by simp
  note arrives = tcp_in_arrives [OF assms(1,4) find, of call]
  obtain b1 n rx tx hp where l: "tcp_in_listen ?s2 i p src = Inr (put_conn (after_send (?s2\<lparr>mheap := hp,
      rand_seq := (\<lambda>n. rand_seq ?s2 (Suc n))\<rparr>) Txbuf b1 n
      (sent ?s2 @ [ether_frame mac NET_PROTOCOL_IP (ip_packet src NET_PROTOCOL_TCP (ip_id ?s2) 0 False
        (tcp_segment net_if_ip ((conn ?s2 i)\<lparr>c_local_port := swap16 (th_dst_port16 p),
          c_remote_port := swap16 (th_src_port16 p), c_ip := src, c_next_seq := rand_seq ?s2 0,
          c_ack := swap32 (th_seq_number32 p) + 1, c_remote_win := swap16 (th_window_size16 p)\<rparr>) tcp_flags_ack_syn []))])) i
      ((conn ?s2 i)\<lparr>c_state := TCP_SYN_RCVD, c_local_port := swap16 (th_dst_port16 p),
          c_remote_port := swap16 (th_src_port16 p), c_ip := src, c_unack_seq := rand_seq ?s2 0,
          c_next_seq := rand_seq ?s2 0 + 1, c_ack := swap32 (th_seq_number32 p) + 1,
          c_remote_win := swap16 (th_window_size16 p), c_rx_buf := Some rx, c_tx_buf := Some tx\<rparr>), False)"
    and ne: "rx \<noteq> tx"
    by (rule tcp_in_listen_syn [OF known listen assms(2,3)])
  let ?c = "\<lparr>c_state = TCP_SYN_RCVD, c_local_port = swap16 (th_dst_port16 p),
      c_remote_port = swap16 (th_src_port16 p), c_ip = src, c_unack_seq = rand_seq s 0,
      c_next_seq = rand_seq s 0 + 1, c_ack = swap32 (th_seq_number32 p) + 1, c_remote_mss = 0,
      c_remote_win = swap16 (th_window_size16 p), c_handler = Some h, c_rx_buf = Some rx, c_tx_buf = Some tx\<rparr>"
  let ?frame = "ether_frame mac NET_PROTOCOL_IP (ip_packet src NET_PROTOCOL_TCP (ip_id s) 0 False
      (tcp_segment net_if_ip (?c\<lparr>c_next_seq := rand_seq s 0\<rparr>) tcp_flags_ack_syn []))"
  let ?s' = "put_conn (after_send (?s2\<lparr>mheap := hp, rand_seq := (\<lambda>n. rand_seq s (Suc n))\<rparr>) Txbuf b1 n
      (sent s @ [?frame])) i ?c"
  have cc: "(conn ?s2 i)\<lparr>c_state := TCP_SYN_RCVD, c_local_port := swap16 (th_dst_port16 p),
      c_remote_port := swap16 (th_src_port16 p), c_ip := src, c_unack_seq := rand_seq s 0,
      c_next_seq := rand_seq s 0 + 1, c_ack := swap32 (th_seq_number32 p) + 1,
      c_remote_win := swap16 (th_window_size16 p), c_rx_buf := Some rx, c_tx_buf := Some tx\<rparr> = ?c"
    by (simp add: c0 CONNECT_LISTEN_def)
  have seg: "tcp_segment net_if_ip ((conn ?s2 i)\<lparr>c_local_port := swap16 (th_dst_port16 p),
          c_remote_port := swap16 (th_src_port16 p), c_ip := src, c_next_seq := rand_seq s 0,
          c_ack := swap32 (th_seq_number32 p) + 1, c_remote_win := swap16 (th_window_size16 p)\<rparr>) tcp_flags_ack_syn [] =
      tcp_segment net_if_ip (?c\<lparr>c_next_seq := rand_seq s 0\<rparr>) tcp_flags_ack_syn []"
    by (simp add: tcp_segment_def tcp_send_hdr_def)
  have s2: "rand_seq ?s2 = rand_seq s" "sent ?s2 = sent s" "ip_id ?s2 = ip_id s" by simp_all
  have "tcp_in call s r (ip_bytes src) = Inr ?s'"
    using arrives l listen unfolding s2 cc seg by (simp add: tcp_in_conn_def)
  moreover have "map_get (connect_table ?s') (clock ?s') (Some (segment_key src p)) = Some i"
    using t(1) by simp
  ultimately show ?thesis
    using ne by (intro exI [of _ ?s'] exI [of _ i] exI [of _ ?c] exI [of _ rx] exI [of _ tx]) simp
qed

text \<open>C17. A SYN for an open port opens a connection: for a peer that has none yet and whose
  hardware address is known, the table gets one entry in state SYN_RCVD with the ports of the
  segment, two fresh buffers, the next value of \<open>rand\<close> as the initial sequence number (the SYN of
  the answer counts as one) and the peer's sequence number plus one as the acknowledgement; and
  exactly one packet goes out, the SYN/ACK that says so.\<close>

theorem tcp_syn_accepted:
  assumes "segment_arrives s r b src p data" and "fl_syn (th_flags p)" and "\<not> fl_rst (th_flags p)"
    and "map_get (tcp_table s) (clock s) (Some (swap16 (th_dst_port16 p))) = Some h"
    and "map_inv (clock s) (connect_table s)"
    and "map_get (connect_table s) (clock s) (Some (segment_key src p)) = None"
    and "m_size (connect_table s) \<noteq> m_max_size (connect_table s)"
    and "map_lookup (clock s) (arp_table s) src = Some mac"
  shows "\<exists>s' i c rx tx. tcp_in call s r (ip_bytes src) = Inr s' \<and>
    map_get (connect_table s') (clock s') (Some (segment_key src p)) = Some i \<and>
    c = \<lparr>c_state = TCP_SYN_RCVD, c_local_port = swap16 (th_dst_port16 p),
      c_remote_port = swap16 (th_src_port16 p), c_ip = src, c_unack_seq = rand_seq s 0,
      c_next_seq = rand_seq s 0 + 1, c_ack = swap32 (th_seq_number32 p) + 1, c_remote_mss = 0,
      c_remote_win = swap16 (th_window_size16 p), c_handler = Some h, c_rx_buf = Some rx, c_tx_buf = Some tx\<rparr> \<and>
    conn s' i = c \<and> rx \<noteq> tx \<and>
    sent s' = sent s @ [ether_frame mac NET_PROTOCOL_IP (ip_packet src NET_PROTOCOL_TCP (ip_id s) 0 False
      (tcp_segment net_if_ip (c\<lparr>c_next_seq := rand_seq s 0\<rparr>) tcp_flags_ack_syn []))]"
  using assms by (rule syn_reply)

text \<open>For the witnesses: a host listening on port 61000, without and with a connection.\<close>

definition demo_ports :: "net \<Rightarrow> net" where
  "demo_ports s = s\<lparr>tcp_table := \<lparr>m_key_len = 2, m_value_len = 8, m_size = 1, m_max_size = 1, m_timeout = 0,
     m_ctor = (\<lambda>_ v. v), m_data = (\<lambda>_. \<lparr>ent_key = 61000, ent_val = H_tcp_handler, ent_time = 1\<rparr>)\<rparr>\<rparr>"

definition demo_listen :: "tcp_flags \<Rightarrow> net" where
  "demo_listen flags = demo_ports (demo_peer\<lparr>
     rxbuf := demo_buf (tcp_segment (10, 0, 0, 9) demo_client flags []),
     connect_table := \<lparr>m_key_len = 8, m_value_len = 56, m_size = 0, m_max_size = 1, m_timeout = 0,
       m_ctor = (\<lambda>_ v. v), m_data = (\<lambda>_. \<lparr>ent_key = new_tcp_key (0, 0, 0, 0) 0 0,
         ent_val = CONNECT_LISTEN, ent_time = 0\<rparr>)\<rparr>\<rparr>)"

definition demo_connected :: "tcp_flags \<Rightarrow> net" where
  "demo_connected flags = demo_ports (demo_conn (demo_peer\<lparr>
     rxbuf := demo_buf (tcp_segment (10, 0, 0, 9) demo_client flags [])\<rparr>))"

lemma demo_port_open:
  "map_get (tcp_table (demo_ports s)) 1 (Some 61000) = Some 0"
  by (simp add: demo_ports_def map_get_def map_scan.simps map_entry_valid_def)

lemma demo_segment_arrives:
  assumes "rxbuf s = demo_buf (tcp_segment (10, 0, 0, 9) demo_client flags [])"
  shows "segment_arrives s Rxbuf (demo_buf (tcp_segment (10, 0, 0, 9) demo_client flags [])) (10, 0, 0, 9)
    (sent_hdr (10, 0, 0, 9) demo_client flags []) []"
proof -
  let ?b = "demo_buf (tcp_segment (10, 0, 0, 9) demo_client flags [])"
  have "12 \<le> buf_data ?b" "buf_ok ?b" by (simp_all add: demo_buf_def buf_ok_def)
  moreover have "c_ip demo_client = net_if_ip" by (simp add: demo_client_def)
  ultimately show ?thesis
    using assms by (intro segment_arrives_sent) simp_all
qed

lemma demo_listen_fields:
  "rxbuf (demo_listen flags) = demo_buf (tcp_segment (10, 0, 0, 9) demo_client flags [])"
  "map_inv 1 (connect_table (demo_listen flags))" "clock (demo_listen flags) = 1"
  "map_get (connect_table (demo_listen flags)) 1 k = None"
  "m_size (connect_table (demo_listen flags)) \<noteq> m_max_size (connect_table (demo_listen flags))"
  "arp_table (demo_listen flags) = arp_table demo_peer" "sent (demo_listen flags) = []"
  by (cases k; simp add: demo_listen_def demo_ports_def map_inv_def map_live_def map_entry_valid_def
      map_used_def map_get_def map_scan.simps)+

lemma demo_connected_fields:
  "rxbuf (demo_connected flags) = demo_buf (tcp_segment (10, 0, 0, 9) demo_client flags [])"
  "map_inv 1 (connect_table (demo_connected flags))" "clock (demo_connected flags) = 1"
  "map_get (connect_table (demo_connected flags)) 1 (Some (new_tcp_key (10, 0, 0, 9) 1234 61000)) = Some 0"
  "arp_table (demo_connected flags) = arp_table demo_peer" "sent (demo_connected flags) = []"
  by (simp_all add: demo_connected_def demo_ports_def demo_conn_def map_inv_def map_live_def map_entry_valid_def
      map_used_def map_get_def map_scan.simps)

lemma demo_syn_premises:
  fixes f p defines "f \<equiv> tcp_flags_null\<lparr>fl_syn := True\<rparr>" and "p \<equiv> sent_hdr (10, 0, 0, 9) demo_client f []"
  shows "segment_arrives (demo_listen f) Rxbuf (demo_buf (tcp_segment (10, 0, 0, 9) demo_client f [])) (10, 0, 0, 9) p []"
    "fl_syn (th_flags p)" "\<not> fl_rst (th_flags p)"
    "map_get (tcp_table (demo_listen f)) (clock (demo_listen f)) (Some (swap16 (th_dst_port16 p))) = Some 0"
    "map_inv (clock (demo_listen f)) (connect_table (demo_listen f))"
    "map_get (connect_table (demo_listen f)) (clock (demo_listen f)) (Some (segment_key (10, 0, 0, 9) p)) = None"
    "m_size (connect_table (demo_listen f)) \<noteq> m_max_size (connect_table (demo_listen f))"
    "map_lookup (clock (demo_listen f)) (arp_table (demo_listen f)) (10, 0, 0, 9) = Some (2, 0, 0, 0, 0, 9)"
    "c_next_seq demo_client = 99"
proof -
  have c: "c_local_port demo_client = 1234" "c_remote_port demo_client = 61000" "c_next_seq demo_client = 99"
    by (simp_all add: demo_client_def)
  show "segment_arrives (demo_listen f) Rxbuf (demo_buf (tcp_segment (10, 0, 0, 9) demo_client f [])) (10, 0, 0, 9) p []"
    unfolding p_def by (rule demo_segment_arrives [OF demo_listen_fields(1)])
  have "map_get (tcp_table (demo_listen f)) 1 (Some 61000) = Some 0"
    unfolding demo_listen_def by (rule demo_port_open)
  then show "map_get (tcp_table (demo_listen f)) (clock (demo_listen f)) (Some (swap16 (th_dst_port16 p))) = Some 0"
    by (simp add: p_def demo_listen_fields c)
qed (simp_all add: p_def f_def tcp_flags_defs demo_listen_fields demo_client_def)

lemma demo_syn_reply:
  fixes f defines "f \<equiv> tcp_flags_null\<lparr>fl_syn := True\<rparr>"
  obtains s' i where "tcp_in call (demo_listen f) Rxbuf (ip_bytes (10, 0, 0, 9)) = Inr s'"
    and "c_state (conn s' i) = TCP_SYN_RCVD"
proof -
  from syn_reply [OF demo_syn_premises(1-8) [folded f_def], of call]
  obtain s' i c rx tx where "tcp_in call (demo_listen f) Rxbuf (ip_bytes (10, 0, 0, 9)) = Inr s'" "conn s' i = c"
    "c_state c = TCP_SYN_RCVD" by force
  then show thesis by (intro that [of s' i]) simp_all
qed

theorem tcp_syn_accepted_witness:
  "\<exists>s' i. tcp_in (\<lambda>_ _ _ _. Inl AssertFailed) (demo_listen (tcp_flags_null\<lparr>fl_syn := True\<rparr>)) Rxbuf
      (ip_bytes (10, 0, 0, 9)) = Inr s' \<and>
    c_state (conn s' i) = TCP_SYN_RCVD \<and> c_ack (conn s' i) = 100 \<and> length (sent s') = 1"
  using tcp_syn_accepted [OF demo_syn_premises(1-8), of "\<lambda>_ _ _ _. Inl AssertFailed"]
  apply (elim exE conjE)
  subgoal for s' i
    by (rule exI [of _ s'], rule exI [of _ i]) (simp add: demo_syn_premises(9) demo_listen_fields)
  done

text \<open>C18. The acknowledgement completes the handshake: in state SYN_RCVD a segment with the expected
  sequence number and the ACK flag makes the connection ESTABLISHED, counts the SYN as
  acknowledged and calls the handler of the port with \<open>TCP_CONN_CONNECTED\<close>, once, the buffer
  holding the data of the segment.\<close>

theorem tcp_handshake_completes:
  assumes "segment_arrives s r b src p data" and "fl_ack (th_flags p)" and "\<not> fl_rst (th_flags p)"
    and "map_get (tcp_table s) (clock s) (Some (swap16 (th_dst_port16 p))) = Some h"
    and "map_get (connect_table s) (clock s) (Some (segment_key src p)) = Some i"
    and "c_state (conn s i) = TCP_SYN_RCVD" and "swap32 (th_seq_number32 p) = c_ack (conn s i)"
  shows "\<exists>b'. contents b' = data \<and> tcp_in call s r (ip_bytes src) =
    call_handler call (c_handler (conn s i))
      (put_conn (put_buf s r b') i ((conn s i)\<lparr>c_unack_seq := c_unack_seq (conn s i) + 1,
         c_state := TCP_ESTABLISHED\<rparr>)) i TCP_CONN_CONNECTED"
proof -
  have find: "tcp_find_connect s (segment_key src p) src h = Inr (s, i)"
    by (rule tcp_find_connect_old [OF assms(5)])
  have get: "get_buf s r = Inr b" and c: "contents b = tcp_enc p @ data"
    using assms(1) by (simp_all add: segment_arrives_def)
  let ?b' = "fst (buf_remove_header b 20)"
  have b': "contents ?b' = data"
    using arg_cong [OF c, of "drop 20"] arg_cong [OF c, of length]
    by (auto simp: buf_remove_header_def contents_def mem_simps)
  let ?s1 = "put_conn (put_buf s r ?b') i ((conn s i)\<lparr>c_unack_seq := c_unack_seq (conn s i) + 1,
         c_state := TCP_ESTABLISHED\<rparr>)"
  have conn_eq: "tcp_in_conn call s r i h p src =
      ebind (call_handler call (c_handler (conn s i)) ?s1 i TCP_CONN_CONNECTED) (\<lambda>s2. Inr (s2, False))"
    using assms(2,3,6,7)
    by (simp add: tcp_in_conn_def buf_do_get [OF get] tcp_in_state_def tcp_in_syn_rcvd_def Let_def)
  have "tcp_in call s r (ip_bytes src) = call_handler call (c_handler (conn s i)) ?s1 i TCP_CONN_CONNECTED"
    unfolding tcp_in_arrives [OF assms(1,4) find, of call] conn_eq
    by (cases "call_handler call (c_handler (conn s i)) ?s1 i TCP_CONN_CONNECTED") simp_all
  with b' show ?thesis by (intro exI [of _ ?b']) simp
qed

theorem tcp_handshake_completes_witness:
  "\<exists>s'. tcp_in (\<lambda>h s i st. if h = H_tcp_handler \<and> st = TCP_CONN_CONNECTED then Inr s else Inl AssertFailed)
      (put_conn (demo_connected tcp_flags_ack) 0 ((conn (demo_connected tcp_flags_ack) 0)
        \<lparr>c_state := TCP_SYN_RCVD, c_ack := 99\<rparr>)) Rxbuf (ip_bytes (10, 0, 0, 9)) = Inr s' \<and>
    c_state (conn s' 0) = TCP_ESTABLISHED"
proof -
  let ?p = "sent_hdr (10, 0, 0, 9) demo_client tcp_flags_ack []"
  let ?s = "put_conn (demo_connected tcp_flags_ack) 0 ((conn (demo_connected tcp_flags_ack) 0)
        \<lparr>c_state := TCP_SYN_RCVD, c_ack := 99\<rparr>)"
  let ?call = "\<lambda>h s i st. if h = H_tcp_handler \<and> st = TCP_CONN_CONNECTED then Inr s else Inl AssertFailed"
  have c: "c_local_port demo_client = 1234" "c_remote_port demo_client = 61000" "c_next_seq demo_client = 99"
    by (simp_all add: demo_client_def)
  have "conn (demo_connected tcp_flags_ack) 0 = conn (demo_conn demo_peer) 0"
    by (simp add: demo_connected_def demo_ports_def conn_def map_val_def demo_conn_def)
  then have h: "c_handler (conn ?s 0) = Some 0" by (simp add: demo_conn_fields)
  have "tcp_table ?s = tcp_table (demo_ports demo_peer)"
    by (simp add: demo_connected_def demo_ports_def)
  then have v: "map_get (tcp_table ?s) (clock ?s) (Some 61000) = Some 0" "map_val (tcp_table ?s) 0 = H_tcp_handler"
    using demo_port_open by (simp_all add: demo_connected_fields) (simp add: map_val_def demo_ports_def)
  have prem: "fl_ack (th_flags ?p)" "\<not> fl_rst (th_flags ?p)"
    "map_get (tcp_table ?s) (clock ?s) (Some (swap16 (th_dst_port16 ?p))) = Some 0"
    "map_get (connect_table ?s) (clock ?s) (Some (segment_key (10, 0, 0, 9) ?p)) = Some 0"
    "c_state (conn ?s 0) = TCP_SYN_RCVD" "swap32 (th_seq_number32 ?p) = c_ack (conn ?s 0)"
    using v demo_connected_fields(4) by (simp_all add: tcp_flags_defs demo_connected_fields c segment_key_def)
  have "rxbuf ?s = demo_buf (tcp_segment (10, 0, 0, 9) demo_client tcp_flags_ack [])"
    by (simp add: demo_connected_fields)
  from tcp_handshake_completes [OF demo_segment_arrives [OF this] prem, of ?call]
  obtain b' where "tcp_in ?call ?s Rxbuf (ip_bytes (10, 0, 0, 9)) = call_handler ?call (c_handler (conn ?s 0))
      (put_conn (put_buf ?s Rxbuf b') 0 ((conn ?s 0)\<lparr>c_unack_seq := c_unack_seq (conn ?s 0) + 1,
         c_state := TCP_ESTABLISHED\<rparr>)) 0 TCP_CONN_CONNECTED" by blast
  moreover have "map_val (tcp_table (demo_connected tcp_flags_ack)) 0 = H_tcp_handler"
    using v(2) by simp
  ultimately show ?thesis unfolding h call_handler_def option.case by simp
qed

subsection \<open>Resets\<close>

lemma tcp_reset_known:
  assumes "c_state (conn s i) \<noteq> TCP_LISTEN"
    and "c_rx_buf (conn s i) = Some rx" and "c_tx_buf (conn s i) = Some tx" and "rx \<noteq> tx"
    and "h_bufs (mheap s) rx = Some brx \<and> h_bufs (mheap s) tx = Some btx"
    and "map_lookup (clock s) (arp_table s) (c_ip (conn s i)) = Some mac"
    and "map_inv (clock s) (connect_table s)"
  shows "\<exists>s'. tcp_reset s i key n = Inr s' \<and>
    map_get (connect_table s') (clock s') (Some key) = None \<and>
    h_bufs (mheap s') rx = None \<and> h_bufs (mheap s') tx = None \<and>
    sent s' = sent s @ [ether_frame mac NET_PROTOCOL_IP
      (ip_packet (c_ip (conn s i)) NET_PROTOCOL_TCP (ip_id s) 0 False
        (tcp_segment net_if_ip ((conn s i)\<lparr>c_next_seq := 0, c_ack := n + 1\<rparr>) tcp_flags_ack_rst []))]"
proof -
  define c where "c = (conn s i)\<lparr>c_next_seq := 0, c_ack := n + 1\<rparr>"
  let ?e = "fst (buf_init (txbuf s) 0)"
  let ?s2 = "put_buf (put_conn s i c) Txbuf ?e"
  have e: "contents ?e = []" "buf_data ?e = 65662" "buf_len ?e = 0"
    by (simp_all add: buf_init_def contents_def)
  have init: "buf_do (\<lambda>b. buf_init b 0) (put_conn s i c) Txbuf = Inr ?s2"
    by (subst buf_do_get [of _ _ "txbuf s"]) simp_all
  have send: "map_lookup (clock ?s2) (arp_table ?s2) (c_ip (conn ?s2 i)) = Some mac" "get_buf ?s2 Txbuf = Inr ?e"
    "54 \<le> buf_data ?e" "buf_data ?e + buf_len ?e + 46 < BUF_MAX_LEN" "buf_len ?e < 65516"
    using assms(6) e by (simp_all only: put_buf_frame put_conn_frame conn_put_buf conn_put_conn get_put_same)
      (simp_all add: c_def)
  obtain t k where t: "tcp_send ?s2 Txbuf i tcp_flags_ack_rst = Inr (put_conn (after_send ?s2 Txbuf t k
      (sent ?s2 @ map (ether_frame mac NET_PROTOCOL_IP) (ip_datagram (c_ip (conn ?s2 i)) NET_PROTOCOL_TCP (ip_id ?s2)
        (tcp_segment net_if_ip (conn ?s2 i) tcp_flags_ack_rst (contents ?e))))) i
      ((conn ?s2 i)\<lparr>c_next_seq := c_next_seq (conn ?s2 i) + (if fl_syn tcp_flags_ack_rst \<or> fl_fin tcp_flags_ack_rst then 1 else 0)\<rparr>))"
    by (rule tcp_send_known [OF send])
  let ?out = "sent s @ [ether_frame mac NET_PROTOCOL_IP (ip_packet (c_ip c) NET_PROTOCOL_TCP (ip_id s) 0 False
      (tcp_segment net_if_ip c tcp_flags_ack_rst []))]"
  let ?s3 = "put_conn (after_send s Txbuf t k ?out) i c"
  have s3: "tcp_send ?s2 Txbuf i tcp_flags_ack_rst = Inr ?s3"
    unfolding t conn_put_buf conn_put_conn e(1) put_buf_frame put_conn_frame after_send_put after_send_put_conn
      put_conn_put_conn by (simp add: tcp_flags_defs ip_datagram_def)
  have heap: "mheap ?s3 = mheap s" by (simp add: after_send_def)
  let ?hp = "(mheap s)\<lparr>h_bufs := (h_bufs (mheap s))(rx := None, tx := None)\<rparr>"
  have rel: "release_tcp_connect (mheap ?s3) (conn ?s3 i) = Inr (?hp, c\<lparr>c_state := TCP_LISTEN\<rparr>)"
    unfolding heap using assms(1-5,7)
    by (simp add: release_tcp_connect_def c_def free_ptr_def free_buf_def fun_upd_twist)
  let ?s4 = "put_conn (?s3\<lparr>mheap := ?hp\<rparr>) i (c\<lparr>c_state := TCP_LISTEN\<rparr>)"
  let ?s' = "?s4\<lparr>connect_table := map_delete (connect_table ?s4) (clock ?s4) key\<rparr>"
  have reset: "tcp_reset s i key n = Inr ?s'"
    unfolding tcp_reset_def Let_def c_def [symmetric] init ebind_Inr s3 release_at_def rel prod.case ..
  have "map_get (connect_table ?s') (clock ?s') (Some key) = None"
  proof -
    have inv: "map_inv (clock s) (connect_table ?s4)"
      using assms(7) by (simp add: put_conn_def)
    have "map_lookup (clock s) (map_delete (connect_table ?s4) (clock s) key) key = None"
      unfolding nm.lookup_delete [OF inv] by simp
    moreover have "clock ?s4 = clock s" "connect_table ?s' = map_delete (connect_table ?s4) (clock ?s4) key"
      by simp_all
    ultimately have "map_lookup (clock ?s4) (connect_table ?s') key = None"
      by (simp only:)
    moreover have "clock ?s' = clock ?s4" by simp
    ultimately have "map_lookup (clock ?s') (connect_table ?s') key = None"
      by (simp only:)
    then show ?thesis by (simp add: map_lookup_def)
  qed
  moreover have "h_bufs (mheap ?s') rx = None \<and> h_bufs (mheap ?s') tx = None \<and> sent ?s' = ?out"
    by (simp add: put_conn_def)
  ultimately show ?thesis using reset by (intro exI [of _ ?s']) (simp add: c_def)
qed

text \<open>C19. A segment with an unexpected sequence number ends the connection: the peer gets one RST
  with the received sequence number plus one as the acknowledgement, both buffers of the
  connection are freed, and the connection is no longer in the table.\<close>

theorem tcp_wrong_seq_resets:
  assumes "segment_arrives s r b src p data"
    and "map_get (tcp_table s) (clock s) (Some (swap16 (th_dst_port16 p))) = Some h"
    and "map_inv (clock s) (connect_table s)"
    and "map_get (connect_table s) (clock s) (Some (segment_key src p)) = Some i"
    and "c_state (conn s i) \<noteq> TCP_LISTEN" and "swap32 (th_seq_number32 p) \<noteq> c_ack (conn s i)"
    and "c_rx_buf (conn s i) = Some rx" and "c_tx_buf (conn s i) = Some tx" and "rx \<noteq> tx"
    and "h_bufs (mheap s) rx = Some brx" and "h_bufs (mheap s) tx = Some btx"
    and "map_lookup (clock s) (arp_table s) (c_ip (conn s i)) = Some mac"
  shows "\<exists>s'. tcp_in call s r (ip_bytes src) = Inr s' \<and>
    map_get (connect_table s') (clock s') (Some (segment_key src p)) = None \<and>
    h_bufs (mheap s') rx = None \<and> h_bufs (mheap s') tx = None \<and>
    sent s' = sent s @ [ether_frame mac NET_PROTOCOL_IP
      (ip_packet (c_ip (conn s i)) NET_PROTOCOL_TCP (ip_id s) 0 False
        (tcp_segment net_if_ip ((conn s i)\<lparr>c_next_seq := 0, c_ack := swap32 (th_seq_number32 p) + 1\<rparr>)
          tcp_flags_ack_rst []))]"
proof -
  have find: "tcp_find_connect s (segment_key src p) src h = Inr (s, i)"
    by (rule tcp_find_connect_old [OF assms(4)])
  have "tcp_in_conn call s r i h p src = Inr (s, True)"
    using assms(5,6) by (simp add: tcp_in_conn_def)
  then have "tcp_in call s r (ip_bytes src) = tcp_reset s i (segment_key src p) (swap32 (th_seq_number32 p))"
    unfolding tcp_in_arrives [OF assms(1,2) find, of call] by simp
  then show ?thesis
    using tcp_reset_known [OF assms(5,7-9) conjI [OF assms(10,11)] assms(12,3)] by simp
qed

theorem tcp_wrong_seq_resets_witness:
  "\<exists>s'. tcp_in (\<lambda>_ _ _ _. Inl AssertFailed) (demo_connected tcp_flags_ack) Rxbuf (ip_bytes (10, 0, 0, 9)) = Inr s' \<and>
    map_get (connect_table s') (clock s') (Some (new_tcp_key (10, 0, 0, 9) 1234 61000)) = None \<and> length (sent s') = 1"
proof -
  let ?p = "sent_hdr (10, 0, 0, 9) demo_client tcp_flags_ack []" and ?s = "demo_connected tcp_flags_ack"
  have c: "c_local_port demo_client = 1234" "c_remote_port demo_client = 61000" "c_next_seq demo_client = 99"
    by (simp_all add: demo_client_def)
  have "conn ?s 0 = conn (demo_conn demo_peer) 0"
    by (simp add: demo_connected_def demo_ports_def conn_def map_val_def demo_conn_def)
  then have f: "c_state (conn ?s 0) = TCP_ESTABLISHED" "c_ack (conn ?s 0) = 100" "c_rx_buf (conn ?s 0) = Some 7"
    "c_tx_buf (conn ?s 0) = Some 8" "c_ip (conn ?s 0) = (10, 0, 0, 9)"
    by (simp_all add: demo_conn_fields)
  have heap: "h_bufs (mheap ?s) 7 = Some (demo_buf [])" "h_bufs (mheap ?s) 8 = Some (demo_buf [])"
    by (simp_all add: demo_connected_def demo_ports_def demo_conn_def)
  have v: "map_get (tcp_table ?s) 1 (Some 61000) = Some 0"
    using demo_port_open by (simp add: demo_connected_def)
  have key: "segment_key (10, 0, 0, 9) ?p = new_tcp_key (10, 0, 0, 9) 1234 61000"
    by (simp add: segment_key_def c)
  have prem: "map_get (tcp_table ?s) (clock ?s) (Some (swap16 (th_dst_port16 ?p))) = Some 0"
    "map_inv (clock ?s) (connect_table ?s)"
    "map_get (connect_table ?s) (clock ?s) (Some (segment_key (10, 0, 0, 9) ?p)) = Some 0"
    "c_state (conn ?s 0) \<noteq> TCP_LISTEN" "swap32 (th_seq_number32 ?p) \<noteq> c_ack (conn ?s 0)"
    "(7 :: nat) \<noteq> 8"
    "map_lookup (clock ?s) (arp_table ?s) (c_ip (conn ?s 0)) = Some (2, 0, 0, 0, 0, 9)"
    using v demo_connected_fields(2,4) by (simp_all add: demo_connected_fields c f key)
  from tcp_wrong_seq_resets [OF demo_segment_arrives [OF demo_connected_fields(1)] prem(1-5) f(3,4) prem(6) heap prem(7),
      of "\<lambda>_ _ _ _. Inl AssertFailed"]
  show ?thesis unfolding key
    apply (elim exE conjE)
    subgoal for s' by (rule exI [of _ s']) (simp add: demo_connected_fields)
    done
qed

end
