(* ===== verification/App.thy ===== *)
theory App
  imports TcpIn
begin

text \<open>
  The handlers the application layer registers with UDP and TCP: the echo handlers of
  \<^verbatim>\<open>src/main.c\<close>, and the one of the web server in \<^verbatim>\<open>src/http.c\<close>, which queues new connections in a
  ring of 40 places. \<open>run_udp\<close> and \<open>run_tcp\<close> run the function a handler pointer designates;
  they are what \<open>udp_in\<close> and \<open>tcp_in\<close> are given.
\<close>

subsection \<open>The ring of connections\<close>

definition TCP_FIFO_SIZE :: u8 where "TCP_FIFO_SIZE = 40"

definition http_fifo_init :: "http_fifo \<Rightarrow> http_fifo" where
  "http_fifo_init ff = ff\<lparr>f_count := 0, f_front := 0, f_tail := 0\<rparr>"

definition http_fifo_in :: "http_fifo \<Rightarrow> nat \<Rightarrow> (http_fifo \<times> int) res" where
  "http_fifo_in ff tcp =
     (if f_count ff \<ge> TCP_FIFO_SIZE then Inr (ff, -1)
      else
        ebind (guard_else (f_front ff < TCP_FIFO_SIZE) OutOfBounds) (\<lambda>_.
        let front = f_front ff + 1 in
        Inr (ff\<lparr>f_buffer := (f_buffer ff)(unat (f_front ff) := tcp),
                  f_front := (if front \<ge> TCP_FIFO_SIZE then 0 else front),
                  f_count := f_count ff + 1\<rparr>, 0)))"

definition http_fifo_out :: "http_fifo \<Rightarrow> (http_fifo \<times> nat option) res" where
  "http_fifo_out ff =
     (if f_count ff = 0 then Inr (ff, None)
      else
        ebind (guard_else (f_tail ff < TCP_FIFO_SIZE) OutOfBounds) (\<lambda>_.
        let tcp = f_buffer ff (unat (f_tail ff)); tail = f_tail ff + 1 in
        Inr (ff\<lparr>f_tail := (if tail \<ge> TCP_FIFO_SIZE then 0 else tail),
                  f_count := f_count ff - 1\<rparr>, Some tcp)))"

subsection \<open>The handlers\<close>

definition http_handler :: "net \<Rightarrow> nat \<Rightarrow> connect_state \<Rightarrow> net res" where
  "http_handler s tcp state =
     (case state of
        TCP_CONN_CONNECTED \<Rightarrow>
          ebind (http_fifo_in (http_fifo_v s) tcp) (\<lambda>(f, _). Inr (s\<lparr>http_fifo_v := f\<rparr>))
      | TCP_CONN_DATA_RECV \<Rightarrow> Inr s
      | TCP_CONN_CLOSED \<Rightarrow> Inr s)"

text \<open>The echo on UDP port 60000; \<^verbatim>\<open>udp_send\<close> takes a 16 bit length.\<close>

definition udp_handler :: "net \<Rightarrow> u8 list \<Rightarrow> ip_addr \<Rightarrow> u16 \<Rightarrow> net res" where
  "udp_handler s data src_ip src_port =
     udp_send s data (of_nat (length data)) 60000 src_ip src_port"

text \<open>The echo on TCP port 61000; what does not fit the transmit buffer is dropped.\<close>

definition tcp_handler :: "net \<Rightarrow> nat \<Rightarrow> connect_state \<Rightarrow> net res" where
  "tcp_handler s connect state =
     ebind (tcp_connect_read s connect 511) (\<lambda>(s1, buf).
     if length buf \<noteq> 0
     then ebind (tcp_connect_write s1 connect buf (length buf)) (\<lambda>(s2, _). Inr s2)
     else Inr s1)"

fun run_udp :: "udp_handler_t \<Rightarrow> net \<Rightarrow> u8 list \<Rightarrow> ip_addr \<Rightarrow> u16 \<Rightarrow> net res" where
  "run_udp H_udp_handler s data src_ip src_port = udp_handler s data src_ip src_port"

fun run_tcp :: tcp_call where
  "run_tcp H_tcp_handler s i st = tcp_handler s i st"
| "run_tcp H_http_handler s i st = http_handler s i st"

end
