(* ===== verification/TcpStates.thy ===== *)
theory TcpStates
  imports Frames TcpProps App
begin

text \<open>
  The state machine of a TCP connection. \<open>tcp_next\<close> is the abstract machine: the state a segment
  leads to, given its flags and whether its sequence number is the expected one. \<open>tcp_in\<close>, with the
  handlers of the program, refines it (the theory \<open>Confined\<close> has the theorem). \<open>owned\<close> is the invariant
  of the buffers of the connections: every connection that is not in state LISTEN has two live heap
  buffers of its own, which no other connection shares.
\<close>

subsection \<open>Ownership of the buffers\<close>

definition own_view :: "tcp_connect \<Rightarrow> tcp_state \<times> nat option \<times> nat option" where
  "own_view c = (c_state c, c_rx_buf c, c_tx_buf c)"

lemma own_view_update [simp]:
  "own_view (c\<lparr>c_ack := x\<rparr>) = own_view c" "own_view (c\<lparr>c_next_seq := x\<rparr>) = own_view c"
  "own_view (c\<lparr>c_unack_seq := x\<rparr>) = own_view c" "own_view (c\<lparr>c_remote_win := y\<rparr>) = own_view c"
  "own_view (c\<lparr>c_local_port := y\<rparr>) = own_view c" "own_view (c\<lparr>c_remote_port := y\<rparr>) = own_view c"
  "own_view (c\<lparr>c_ip := z\<rparr>) = own_view c"
  by (simp_all add: own_view_def)

definition keeps :: "net \<Rightarrow> net \<Rightarrow> bool" where
  "keeps s s' \<longleftrightarrow> heap_grows (mheap s) (mheap s') \<and> (\<forall>i. own_view (conn s' i) = own_view (conn s i)) \<and>
     ports s' = ports s \<and> (\<forall>now. map_inv now (connect_table s') = map_inv now (connect_table s))"

named_theorems keeps_ops \<open>operations that keep the states and the buffers of all connections\<close>

lemma ports_simps [simp]:
  "ports (put_conn s i c) = ports s" "ports (s\<lparr>connect_table := t\<rparr>) = ports s" "ports (s\<lparr>mheap := h\<rparr>) = ports s"
  "ports (s\<lparr>rand_seq := q\<rparr>) = ports s"
  by (simp_all add: ports_def)

lemma keeps_refl [simp]: "keeps s s"
  by (simp add: keeps_def)

lemma keeps_trans [trans]: "keeps s s1 \<Longrightarrow> keeps s1 s2 \<Longrightarrow> keeps s s2"
  by (auto simp: keeps_def intro: heap_grows_trans)

lemma keepsI: "upper s' = upper s \<Longrightarrow> heap_grows (mheap s) (mheap s') \<Longrightarrow> keeps s s'"
  by (simp add: keeps_def upper_def conn_def ports_def)

lemma keeps_put_conn [simp]: "own_view c = own_view (conn t i) \<Longrightarrow> keeps s (put_conn t i c) = keeps s t"
  by (auto simp: keeps_def) (metis conn_put_conn conn_put_conn_other)+

lemma keeps_put_conn_left [simp]: "own_view c = own_view (conn s i) \<Longrightarrow> keeps (put_conn s i c) t = keeps s t"
  by (auto simp: keeps_def) (metis conn_put_conn conn_put_conn_other)+

lemma keeps_buf_op [keeps_ops]: "buf_op f s r = Inr (s', st) \<Longrightarrow> keeps s s'"
  by (intro keepsI upper_frames heap_frames)

lemma keeps_buf_do [keeps_ops]: "buf_do f s r = Inr s' \<Longrightarrow> keeps s s'"
  by (intro keepsI upper_frames heap_frames)

lemma keeps_mem_write [keeps_ops]: "mem_write s r off bs = Inr s' \<Longrightarrow> keeps s s'"
  by (intro keepsI upper_frames heap_frames)

lemma keeps_ip_out [keeps_ops]: "ip_out s r ip p = Inr s' \<Longrightarrow> keeps s s'"
  by (intro keepsI upper_frames heap_frames)

lemma keeps_tcp_checksum [keeps_ops]: "tcp_checksum s r a b = Inr (s', c) \<Longrightarrow> keeps s s'"
  by (auto simp: tcp_checksum_def Let_def dest!: keeps_ops; blast intro: keeps_trans)

lemma keeps_tcp_in_check [keeps_ops]: "tcp_in_check s r src = Inr (s', p) \<Longrightarrow> keeps s s'"
  by (auto simp: tcp_in_check_def Let_def dest!: keeps_ops split: prod.splits if_splits; blast intro: keeps_trans)

lemma keeps_tcp_read_from_buf [keeps_ops]: "tcp_read_from_buf s i r = Inr (s', n) \<Longrightarrow> keeps s s'"
  by (auto simp: tcp_read_from_buf_def Let_def dest!: keeps_ops; blast intro: keeps_trans)

lemma keeps_tcp_write_to_buf [keeps_ops]: "tcp_write_to_buf s i r = Inr (s', n) \<Longrightarrow> keeps s s'"
  by (auto simp: tcp_write_to_buf_def Let_def dest!: keeps_ops; blast intro: keeps_trans)

lemma keeps_tcp_send [keeps_ops]: "tcp_send s r i flags = Inr s' \<Longrightarrow> keeps s s'"
  by (auto simp: tcp_send_def Let_def dest!: keeps_ops split: prod.splits if_splits; blast intro: keeps_trans)

lemma keeps_tcp_connect_read [keeps_ops]: "tcp_connect_read s i len = Inr (s', data) \<Longrightarrow> keeps s s'"
  by (auto simp: tcp_connect_read_def Let_def dest!: keeps_ops split: prod.splits if_splits; blast intro: keeps_trans)

lemma keeps_tcp_connect_write [keeps_ops]: "tcp_connect_write s i data len = Inr (s', n) \<Longrightarrow> keeps s s'"
  by (auto simp: tcp_connect_write_def Let_def dest!: keeps_ops split: prod.splits if_splits; blast intro: keeps_trans)

lemma keeps_tcp_acknowledge [keeps_ops]: "tcp_acknowledge s i p = Inr s' \<Longrightarrow> keeps s s'"
  by (auto simp: tcp_acknowledge_def Let_def dest!: keeps_ops split: if_splits; blast intro: keeps_trans)

lemma keeps_tcp_handler [keeps_ops]: "tcp_handler s i st = Inr s' \<Longrightarrow> keeps s s'"
  by (auto simp: tcp_handler_def dest!: keeps_ops split: prod.splits if_splits; blast intro: keeps_trans)

lemma keeps_http_handler [keeps_ops]: "http_handler s i st = Inr s' \<Longrightarrow> keeps s s'"
  by (auto simp: http_handler_def keeps_def conn_def ports_def split: connect_state.splits prod.splits)

lemma keeps_run_tcp [keeps_ops]: "run_tcp h s i st = Inr s' \<Longrightarrow> keeps s s'"
  by (cases h) (auto dest!: keeps_ops)

lemma keeps_call_handler [keeps_ops]: "call_handler run_tcp h s i st = Inr s' \<Longrightarrow> keeps s s'"
  by (auto simp: call_handler_def dest!: keeps_ops split: option.splits)

lemma keeps_state: "keeps s s' \<Longrightarrow> c_state (conn s' i) = c_state (conn s i)"
  by (simp add: keeps_def own_view_def)

subsection \<open>The state machine\<close>

text \<open>
  \<open>ok\<close>: the segment has the sequence number the connection expects. In the four states the program
  never enters, a segment ends in \<^verbatim>\<open>panic\<close>.
\<close>

definition tcp_next :: "bool \<Rightarrow> tcp_flags \<Rightarrow> tcp_state \<Rightarrow> tcp_state" where
  "tcp_next ok f st =
     (case st of
        TCP_LISTEN \<Rightarrow> if fl_syn f \<and> \<not> fl_rst f then TCP_SYN_RCVD else TCP_LISTEN
      | _ \<Rightarrow>
          if \<not> ok \<or> fl_rst f then TCP_LISTEN
          else (case st of
                  TCP_SYN_RCVD \<Rightarrow> if fl_ack f then TCP_ESTABLISHED else st
                | TCP_ESTABLISHED \<Rightarrow> if fl_fin f then TCP_LAST_ACK else st
                | TCP_FIN_WAIT_1 \<Rightarrow> if fl_fin f \<and> fl_ack f then TCP_LISTEN
                                    else if fl_ack f then TCP_FIN_WAIT_2 else st
                | TCP_FIN_WAIT_2 \<Rightarrow> if fl_fin f then TCP_LISTEN else st
                | TCP_LAST_ACK \<Rightarrow> if fl_ack f then TCP_LISTEN else st
                | _ \<Rightarrow> st))"

text \<open>The states in the order a connection goes through them: a segment never takes it back, except to
  LISTEN, which ends it.\<close>

fun tcp_rank :: "tcp_state \<Rightarrow> nat" where
  "tcp_rank TCP_LISTEN = 0" | "tcp_rank TCP_SYN_SEND = 1" | "tcp_rank TCP_SYN_RCVD = 2"
| "tcp_rank TCP_ESTABLISHED = 3" | "tcp_rank TCP_FIN_WAIT_1 = 4" | "tcp_rank TCP_FIN_WAIT_2 = 5"
| "tcp_rank TCP_CLOSING = 6" | "tcp_rank TCP_CLOSE_WAIT = 7" | "tcp_rank TCP_LAST_ACK = 8"
| "tcp_rank TCP_TIME_WAIT = 9"

instantiation tcp_state :: linorder
begin

definition less_eq_tcp_state :: "tcp_state \<Rightarrow> tcp_state \<Rightarrow> bool" where
  "less_eq_tcp_state a b \<longleftrightarrow> tcp_rank a \<le> tcp_rank b"

definition less_tcp_state :: "tcp_state \<Rightarrow> tcp_state \<Rightarrow> bool" where
  "less_tcp_state a b \<longleftrightarrow> tcp_rank a < tcp_rank b"

instance
proof
  fix a b :: tcp_state
  show "a \<le> b \<Longrightarrow> b \<le> a \<Longrightarrow> a = b"
    by (cases a; cases b) (simp_all add: less_eq_tcp_state_def)
qed (auto simp: less_eq_tcp_state_def less_tcp_state_def)

end

lemma tcp_next_progress: "tcp_next ok f st = TCP_LISTEN \<or> st \<le> tcp_next ok f st"
  by (cases st) (simp_all add: tcp_next_def less_eq_tcp_state_def)

lemma conn_simps [simp]:
  "conn (s\<lparr>mheap := h\<rparr>) i = conn s i" "conn (s\<lparr>rand_seq := q\<rparr>) i = conn s i"
  by (simp_all add: conn_def)

text \<open>
  The state of connection \<open>i\<close> becomes \<open>st\<close>; the others keep their state and their buffers, and the
  tables of handlers stay.
\<close>

definition moves :: "net \<Rightarrow> net \<Rightarrow> nat \<Rightarrow> tcp_state \<Rightarrow> bool" where
  "moves s s' i st \<longleftrightarrow> c_state (conn s' i) = st \<and> ports s' = ports s \<and>
     (\<forall>j. j \<noteq> i \<longrightarrow> own_view (conn s' j) = own_view (conn s j))"

lemma moves_keeps: "keeps s s' \<Longrightarrow> moves s s' i (c_state (conn s i))"
  by (simp add: moves_def keeps_def own_view_def)

lemma moves_keeps_left: "keeps s s1 \<Longrightarrow> moves s1 s' i st \<Longrightarrow> moves s s' i st"
  by (simp add: moves_def keeps_def)

lemma moves_keeps_right: "moves s s1 i st \<Longrightarrow> keeps s1 s' \<Longrightarrow> moves s s' i st"
  by (simp add: moves_def keeps_def own_view_def)

lemma moves_trans: "moves s s1 i st \<Longrightarrow> moves s1 s' i st' \<Longrightarrow> moves s s' i st'"
  by (simp add: moves_def)

lemma moves_put_conn: "moves s t i st \<Longrightarrow> c_state c = st' \<Longrightarrow> moves s (put_conn t i c) i st'"
  by (simp add: moves_def conn_put_conn_other)

lemma moves_heap [simp]: "moves s (t\<lparr>mheap := h\<rparr>) i st = moves s t i st"
  by (simp add: moves_def)

lemma map_val_delete [simp]: "map_val (map_delete m now k) i = map_val m i"
  by (simp add: map_delete_def map_val_def split: option.splits)

lemma conn_delete [simp]: "conn (s\<lparr>connect_table := map_delete (connect_table s) now k\<rparr>) i = conn s i"
  by (simp add: conn_def)

lemma moves_delete [simp]:
  "moves s (t\<lparr>connect_table := map_delete (connect_table t) now k\<rparr>) i st = moves s t i st"
  by (simp add: moves_def)

lemma release_at_moves: "release_at s i = Inr s' \<Longrightarrow> moves s s' i TCP_LISTEN"
  by (auto simp: release_at_def release_tcp_connect_def moves_def conn_put_conn_other split: if_splits)

lemma tcp_connect_close_moves:
  "tcp_connect_close s i = Inr s' \<Longrightarrow>
    moves s s' i (if c_state (conn s i) = TCP_ESTABLISHED then TCP_FIN_WAIT_1 else TCP_LISTEN)"
  by (auto simp: tcp_connect_close_def Let_def dest!: keeps_ops release_at_moves split: if_splits prod.splits
      intro: moves_keeps_left moves_put_conn [OF moves_keeps] keeps_trans)

lemma tcp_reset_moves: "tcp_reset s i key n = Inr s' \<Longrightarrow> moves s s' i TCP_LISTEN"
  by (auto simp: tcp_reset_def Let_def dest!: keeps_ops release_at_moves; blast intro: moves_keeps_left)

lemma moves_refl: "moves s s i (c_state (conn s i))"
  by (simp add: moves_def)

lemma init_rcvd_cases:
  assumes "init_tcp_connect_rcvd s i = Inr s'"
  obtains (new) h1 h2 rx tx s3 where "c_state (conn s i) = TCP_LISTEN"
      "malloc_buf (mheap s) fresh_buf = (h1, rx)" "malloc_buf h1 fresh_buf = (h2, tx)"
      "keeps (put_conn (s\<lparr>mheap := h2\<rparr>) i ((conn s i)\<lparr>c_rx_buf := Some rx, c_tx_buf := Some tx\<rparr>)) s3"
      "s' = put_conn s3 i ((conn s3 i)\<lparr>c_state := TCP_SYN_RCVD\<rparr>)"
    | (old) s3 where "c_state (conn s i) \<noteq> TCP_LISTEN" "keeps s s3"
      "s' = put_conn s3 i ((conn s3 i)\<lparr>c_state := TCP_SYN_RCVD\<rparr>)"
proof -
  obtain h1 rx where m1: "malloc_buf (mheap s) fresh_buf = (h1, rx)" by fastforce
  obtain h2 tx where m2: "malloc_buf h1 fresh_buf = (h2, tx)" by fastforce
  define s1 where "s1 = (if c_state (conn s i) = TCP_LISTEN
     then put_conn (s\<lparr>mheap := h2\<rparr>) i ((conn s i)\<lparr>c_rx_buf := Some rx, c_tx_buf := Some tx\<rparr>) else s)"
  obtain s3 where s3: "keeps s1 s3" "s' = put_conn s3 i ((conn s3 i)\<lparr>c_state := TCP_SYN_RCVD\<rparr>)"
    using assms unfolding init_tcp_connect_rcvd_def Let_def m1 m2 prod.case s1_def [symmetric]
    by (auto dest!: keeps_ops intro: keeps_trans)
  show thesis
  proof (cases "c_state (conn s i) = TCP_LISTEN")
    case True
    then show ?thesis using s3 by (intro new [OF True m1 m2]) (simp_all add: s1_def)
  next
    case False
    then show ?thesis using s3 by (intro old [OF False]) (simp_all add: s1_def)
  qed
qed

lemma init_rcvd_moves:
  assumes "init_tcp_connect_rcvd s i = Inr s'"
  shows "moves s s' i TCP_SYN_RCVD"
  using assms
proof (cases rule: init_rcvd_cases)
  case (new h1 h2 rx tx s3)
  have "moves s (put_conn (s\<lparr>mheap := h2\<rparr>) i ((conn s i)\<lparr>c_rx_buf := Some rx, c_tx_buf := Some tx\<rparr>)) i
      (c_state (conn s i))"
    by (intro moves_put_conn [where st = "c_state (conn s i)"]) (simp_all add: moves_refl)
  then have "moves s s3 i (c_state (conn s i))" by (rule moves_keeps_right [OF _ new(4)])
  then show ?thesis unfolding new(5) by (rule moves_put_conn) simp
next
  case (old s3)
  then show ?thesis unfolding old(3) by (intro moves_put_conn [OF moves_keeps [OF old(2)]]) simp
qed

subsection \<open>Receiving refines the machine\<close>

lemma map_val_set_others:
  assumes "map_set m now k v = (m', st)" and "map_get m now (Some k) = None"
    and "map_get m' now (Some k) = Some i" and "j \<noteq> i"
  shows "map_val m' j = map_val m j"
proof -
  have none: "\<not> (map_entry_valid m now (m_data m i) \<and> k = ent_key (m_data m i))" if "i < m_max_size m" for i
    using assms(2) that by (auto simp: map_get_def map_scan_None_iff)
  have hit: "i < m_max_size m'" "map_entry_valid m' now (m_data m' i)" "k = ent_key (m_data m' i)"
    using assms(3) by (auto simp: map_get_def dest: map_scan_SomeD)
  show ?thesis
  proof (cases "m' = m")
    case False
    then obtain x e n where m': "m' = m\<lparr>m_data := (m_data m)(x := e), m_size := n\<rparr>"
      using assms(1,2) by (auto simp: map_set_def split: if_splits option.splits)
    have "i = x"
      using hit none [of i] by (rule_tac ccontr) (simp add: m' map_entry_valid_def)
    with assms(4) show ?thesis by (simp add: m' map_val_def)
  qed simp
qed

lemma tcp_find_connect_others:
  "tcp_find_connect s key src h = Inr (s', i) \<Longrightarrow> j \<noteq> i \<Longrightarrow> conn s' j = conn s j"
  by (auto simp: tcp_find_connect_def Let_def conn_def deref_def intro: map_val_set_others split: option.splits prod.splits)

lemma tcp_in_listen_moves:
  assumes "tcp_in_listen s i p src = Inr (s', reset)" and st: "c_state (conn s i) = TCP_LISTEN"
  shows "moves s s' i (tcp_next ok (th_flags p) TCP_LISTEN)" and "reset \<Longrightarrow> tcp_next ok (th_flags p) TCP_LISTEN = TCP_LISTEN"
proof -
  show "moves s s' i (tcp_next ok (th_flags p) TCP_LISTEN)"
  proof (cases "fl_rst (th_flags p) \<or> \<not> fl_syn (th_flags p)")
    case True
    then show ?thesis
      using assms moves_refl [of s i] by (auto simp: tcp_in_listen_def tcp_next_def dest!: tcp_connect_close_moves split: if_splits)
  next
    case False
    then obtain s1 s4 c r where i: "init_tcp_connect_rcvd s i = Inr s1"
      and c: "own_view c = own_view (conn s1 i)" and k: "keeps (put_conn (s1\<lparr>rand_seq := r\<rparr>) i c) s4" "keeps s4 s'"
      using assms(1) by (auto simp: tcp_in_listen_def Let_def dest!: keeps_ops split: if_splits)
    have "keeps s1 (s1\<lparr>rand_seq := r\<rparr>)" by (simp add: keeps_def)
    then have "keeps s1 s'"
      using k c by (simp, blast intro: keeps_trans)
    with init_rcvd_moves [OF i] show ?thesis
      using False by (auto simp: tcp_next_def intro: moves_keeps_right)
  qed
  show "reset \<Longrightarrow> tcp_next ok (th_flags p) TCP_LISTEN = TCP_LISTEN"
    using assms(1) by (auto simp: tcp_in_listen_def tcp_next_def Let_def split: if_splits)
qed

lemma tcp_in_syn_rcvd_moves:
  "tcp_in_syn_rcvd run_tcp s i p = Inr s' \<Longrightarrow>
    moves s s' i (if fl_ack (th_flags p) then TCP_ESTABLISHED else c_state (conn s i))"
  by (auto simp: tcp_in_syn_rcvd_def Let_def moves_refl dest!: keeps_ops split: if_splits;
      erule moves_keeps_right [rotated]; simp add: moves_put_conn [OF moves_refl])

lemma tcp_in_established_cases:
  assumes "tcp_in_established run_tcp s r i p = Inr s'"
  obtains (same) "keeps s s'" "\<not> fl_fin (th_flags p)"
    | (fin) s3 where "keeps s s3" "fl_fin (th_flags p)"
      "keeps (put_conn s3 i ((conn s3 i)\<lparr>c_state := TCP_LAST_ACK, c_ack := c_ack (conn s3 i) + 1\<rparr>)) s'"
proof (cases "fl_fin (th_flags p)")
  case True
  then obtain s1 s2 n s3 where "tcp_acknowledge s i p = Inr s1" "tcp_read_from_buf s1 i r = Inr (s2, n)"
    "buf_do (\<lambda>b. buf_init b 0) s2 Txbuf = Inr s3" and t: "tcp_send (put_conn s3 i ((conn s3 i)
       \<lparr>c_state := TCP_LAST_ACK, c_ack := c_ack (conn s3 i) + 1\<rparr>)) Txbuf i tcp_flags_ack_fin = Inr s'"
    using assms by (auto simp: tcp_in_established_def Let_def)
  then have "keeps s s3" by (auto dest!: keeps_ops intro: keeps_trans)
  then show thesis using True keeps_tcp_send [OF t] by (rule fin)
next
  case False
  then have "keeps s s'"
    using assms
    by (auto simp: tcp_in_established_def Let_def dest!: keeps_ops split: if_splits prod.splits;
        blast intro: keeps_trans)
  then show thesis using False by (rule same)
qed

lemma tcp_in_established_moves:
  assumes "tcp_in_established run_tcp s r i p = Inr s'" and st: "c_state (conn s i) = TCP_ESTABLISHED"
  shows "moves s s' i (if fl_fin (th_flags p) then TCP_LAST_ACK else TCP_ESTABLISHED)"
  using assms(1)
proof (cases rule: tcp_in_established_cases)
  case same
  then show ?thesis using moves_keeps [of s s' i] by (simp add: st)
next
  case (fin s3)
  have "moves s (put_conn s3 i ((conn s3 i)\<lparr>c_state := TCP_LAST_ACK, c_ack := c_ack (conn s3 i) + 1\<rparr>)) i TCP_LAST_ACK"
    by (rule moves_put_conn [OF moves_keeps [OF fin(1)]]) simp
  with fin show ?thesis by (auto intro: moves_keeps_right)
qed

lemma tcp_in_fin_wait_1_moves:
  "tcp_in_fin_wait_1 s i p = Inr s' \<Longrightarrow> c_state (conn s i) = TCP_FIN_WAIT_1 \<Longrightarrow>
    moves s s' i (if fl_fin (th_flags p) \<and> fl_ack (th_flags p) then TCP_LISTEN
                  else if fl_ack (th_flags p) then TCP_FIN_WAIT_2 else TCP_FIN_WAIT_1)"
  using moves_refl [of s i]
  by (auto simp: tcp_in_fin_wait_1_def dest!: tcp_connect_close_moves split: if_splits
      intro: moves_put_conn [OF moves_refl])

lemma tcp_in_fin_wait_2_moves:
  "tcp_in_fin_wait_2 s i p = Inr s' \<Longrightarrow> c_state (conn s i) = TCP_FIN_WAIT_2 \<Longrightarrow>
    moves s s' i (if fl_fin (th_flags p) then TCP_LISTEN else TCP_FIN_WAIT_2)"
  using moves_refl [of s i]
  by (auto simp: tcp_in_fin_wait_2_def Let_def keeps_state dest!: keeps_ops tcp_connect_close_moves split: if_splits;
      blast intro: moves_keeps_left)

lemma tcp_in_last_ack_moves:
  "tcp_in_last_ack run_tcp s i h p = Inr s' \<Longrightarrow> c_state (conn s i) = TCP_LAST_ACK \<Longrightarrow>
    moves s s' i (if fl_ack (th_flags p) then TCP_LISTEN else TCP_LAST_ACK)"
  using moves_refl [of s i]
  by (auto simp: tcp_in_last_ack_def keeps_state dest!: keeps_ops tcp_connect_close_moves split: if_splits
      intro: moves_keeps_left keeps_trans)

lemmas tcp_state_moves = tcp_in_syn_rcvd_moves tcp_in_established_moves tcp_in_fin_wait_1_moves
  tcp_in_fin_wait_2_moves tcp_in_last_ack_moves

lemma tcp_in_state_moves:
  assumes "tcp_in_state run_tcp s r i h p = Inr s'" and "\<not> fl_rst (th_flags p)" and "c_state (conn s i) \<noteq> TCP_LISTEN"
  shows "moves s s' i (tcp_next True (th_flags p) (c_state (conn s i)))"
  using assms by (cases "c_state (conn s i)")
    (auto simp: tcp_in_state_def tcp_next_def dest!: tcp_state_moves split: if_splits)

lemma tcp_in_conn_moves:
  assumes "tcp_in_conn run_tcp s r i h p src = Inr (s', reset)"
    and ok: "ok = (swap32 (th_seq_number32 p) = c_ack (conn s i))"
  shows "moves s s' i (if reset then c_state (conn s' i) else tcp_next ok (th_flags p) (c_state (conn s i)))"
    and "reset \<Longrightarrow> tcp_next ok (th_flags p) (c_state (conn s i)) = TCP_LISTEN"
proof -
  let ?next = "tcp_next ok (th_flags p) (c_state (conn s i))"
  have "moves s s' i (if reset then c_state (conn s' i) else ?next) \<and> (reset \<longrightarrow> ?next = TCP_LISTEN)"
  proof (cases "c_state (conn s i) = TCP_LISTEN")
    case True
    then have "tcp_in_listen s i p src = Inr (s', reset)" using assms(1) by (simp add: tcp_in_conn_def)
    from tcp_in_listen_moves [OF this True, of ok] show ?thesis by (auto simp: True moves_def)
  next
    case live: False
    show ?thesis
    proof (cases "ok \<and> \<not> fl_rst (th_flags p)")
      case True
      then obtain s1 where 1: "buf_do (\<lambda>b. buf_remove_header b 20) s r = Inr s1"
        and 2: "tcp_in_state run_tcp s1 r i h p = Inr s'" and "\<not> reset"
        using assms live by (auto simp: tcp_in_conn_def)
      have k: "keeps s s1" using 1 by (rule keeps_buf_do)
      have "moves s s' i (tcp_next True (th_flags p) (c_state (conn s i)))"
        using tcp_in_state_moves [OF 2] True live k by (auto simp: keeps_state intro: moves_keeps_left)
      with True \<open>\<not> reset\<close> show ?thesis by simp
    next
      case False
      then have "?next = TCP_LISTEN" using live by (cases "c_state (conn s i)") (auto simp: tcp_next_def)
      moreover have "reset" "moves s s' i (c_state (conn s' i))"
        using assms False live by (auto simp: tcp_in_conn_def moves_refl dest!: tcp_connect_close_moves split: if_splits)
          (auto simp: moves_def)
      ultimately show ?thesis by simp
    qed
  qed
  then show "moves s s' i (if reset then c_state (conn s' i) else ?next)" "reset \<Longrightarrow> ?next = TCP_LISTEN"
    by simp_all
qed

subsection \<open>Every connection owns its buffers\<close>

text \<open>The states the program uses; the other four end in \<^verbatim>\<open>panic\<close>.\<close>

definition handled :: "tcp_state \<Rightarrow> bool" where
  "handled st \<longleftrightarrow> st \<in> {TCP_LISTEN, TCP_SYN_RCVD, TCP_ESTABLISHED, TCP_LAST_ACK, TCP_FIN_WAIT_1, TCP_FIN_WAIT_2}"

definition conn_bufs :: "tcp_connect \<Rightarrow> nat set" where
  "conn_bufs c = (if c_state c = TCP_LISTEN then {} else set_option (c_rx_buf c) \<union> set_option (c_tx_buf c))"

definition conn_ok :: "tcp_connect \<Rightarrow> bool" where
  "conn_ok c \<longleftrightarrow> handled (c_state c) \<and>
     (c_state c = TCP_LISTEN \<or> (\<exists>rx tx. c_rx_buf c = Some rx \<and> c_tx_buf c = Some tx \<and> rx \<noteq> tx))"

text \<open>The queue nodes of the heap carry an item, too: freeing an empty queue then frees no buffer.\<close>

definition owned :: "heap \<Rightarrow> (nat \<Rightarrow> tcp_connect) \<Rightarrow> bool" where
  "owned h f \<longleftrightarrow> items_some h \<and> (\<forall>a \<in> dom (h_bufs h). a < h_next h) \<and>
     (\<forall>i. conn_ok (f i) \<and> conn_bufs (f i) \<subseteq> dom (h_bufs h)) \<and>
     (\<forall>i j. i \<noteq> j \<longrightarrow> conn_bufs (f i) \<inter> conn_bufs (f j) = {})"

lemma own_view_cong:
  "own_view c = own_view d \<Longrightarrow> conn_bufs c = conn_bufs d" "own_view c = own_view d \<Longrightarrow> conn_ok c = conn_ok d"
  by (simp_all add: own_view_def conn_bufs_def conn_ok_def)

lemma owned_keeps:
  assumes "owned (mheap s) (conn s)" and "keeps s s'"
  shows "owned (mheap s') (conn s')"
proof -
  have v: "own_view (conn s' i) = own_view (conn s i)" for i using assms(2) by (simp add: keeps_def)
  have g: "heap_grows (mheap s) (mheap s')" using assms(2) by (simp add: keeps_def)
  have "a < h_next (mheap s')" if "a \<in> dom (h_bufs (mheap s'))" for a
  proof -
    have "a \<in> dom (h_bufs (mheap s)) \<or> a < h_next (mheap s')" "h_next (mheap s) \<le> h_next (mheap s')"
      using that g unfolding heap_grows_def by auto
    then show ?thesis using assms(1) unfolding owned_def by (auto simp only: intro: less_le_trans)
  qed
  moreover have "conn_bufs (conn s i) \<subseteq> dom (h_bufs (mheap s'))" for i
  proof -
    have "conn_bufs (conn s i) \<subseteq> dom (h_bufs (mheap s))" using assms(1) unfolding owned_def by simp
    also have "\<dots> \<subseteq> dom (h_bufs (mheap s'))" using g unfolding heap_grows_def by simp
    finally show ?thesis .
  qed
  moreover have "items_some (mheap s')" using assms(1) g unfolding heap_grows_def owned_def by blast
  ultimately show ?thesis
    using assms(1) unfolding owned_def own_view_cong(1) [OF v] own_view_cong(2) [OF v] by blast
qed

text \<open>One connection changes: its new buffers are live and nobody else's.\<close>

lemma owned_update:
  assumes "owned h f" and "conn_ok c" and "conn_bufs c \<subseteq> dom (h_bufs h')"
    and "\<And>j. j \<noteq> i \<Longrightarrow> conn_bufs (f j) \<subseteq> dom (h_bufs h') \<and> conn_bufs (f j) \<inter> conn_bufs c = {}"
    and "\<And>a. a \<in> dom (h_bufs h') \<Longrightarrow> a < h_next h'" and "items_some h'"
  shows "owned h' (f(i := c))"
  unfolding owned_def
proof (intro conjI allI ballI impI)
  have disjoint: "conn_bufs (f j) \<inter> conn_bufs c = {}" if "j \<noteq> i" for j using assms(4) [OF that] by (rule conjunct2)
  show "a < h_next h'" if "a \<in> dom (h_bufs h')" for a using that by (rule assms(5))
  show "items_some h'" by (rule assms(6))
  show "conn_ok ((f(i := c)) j)" for j using assms(1,2) by (cases "j = i") (simp_all add: owned_def)
  show "conn_bufs ((f(i := c)) j) \<subseteq> dom (h_bufs h')" for j using assms(3,4) by (cases "j = i") simp_all
  show "conn_bufs ((f(i := c)) j) \<inter> conn_bufs ((f(i := c)) k) = {}" if "j \<noteq> k" for j k
  proof (cases "j = i \<or> k = i")
    case True
    then show ?thesis using disjoint [of j] disjoint [of k] that by (cases "j = i") (simp_all add: Int_commute)
  next
    case False
    then show ?thesis using assms(1) that by (simp add: owned_def)
  qed
qed

lemma conn_put_fun: "conn (put_conn s i c) = (conn s)(i := c)"
  by (rule ext) (simp add: conn_put_conn_other)

lemma owned_restate:
  assumes "owned h f" and "c_state (f i) \<noteq> TCP_LISTEN" and "handled (c_state c)"
    and "c_rx_buf c = c_rx_buf (f i)" and "c_tx_buf c = c_tx_buf (f i)"
  shows "owned h (f(i := c))"
proof (rule owned_update [OF assms(1)])
  show "conn_ok c" using assms unfolding owned_def conn_ok_def by metis
  have sub: "conn_bufs c \<subseteq> conn_bufs (f i)" using assms(2,4,5) by (auto simp: conn_bufs_def)
  show "conn_bufs c \<subseteq> dom (h_bufs h)" using assms(1) sub unfolding owned_def by blast
  show "conn_bufs (f j) \<subseteq> dom (h_bufs h) \<and> conn_bufs (f j) \<inter> conn_bufs c = {}" if "j \<noteq> i" for j
    using assms(1) sub that unfolding owned_def by blast
  show "a < h_next h" if "a \<in> dom (h_bufs h)" for a using assms(1) that unfolding owned_def by blast
  show "items_some h" using assms(1) unfolding owned_def by blast
qed

lemma owned_listen:
  assumes "owned h f" and "c_state c = TCP_LISTEN"
  shows "owned h (f(i := c))"
  by (rule owned_update [OF assms(1)]) (use assms in \<open>auto simp: owned_def conn_ok_def conn_bufs_def handled_def\<close>)

text \<open>Releasing a connection frees two live buffers: it never fails, and frees nothing of another one.\<close>

lemma owned_release:
  assumes "owned h f"
  obtains h' c where "release_tcp_connect h (f i) = Inr (h', c)" and "owned h' (f(i := c))"
    and "c_state c = TCP_LISTEN"
proof (cases "c_state (f i) = TCP_LISTEN")
  case True
  then show ?thesis using assms by (intro that [of h "f i"]) (simp_all add: release_tcp_connect_def)
next
  case False
  then obtain rx tx where c: "c_rx_buf (f i) = Some rx" "c_tx_buf (f i) = Some tx" "rx \<noteq> tx"
  proof -
    have "conn_ok (f i)" using assms unfolding owned_def by simp
    then show ?thesis using False that unfolding conn_ok_def by blast
  qed
  then have bufs: "conn_bufs (f i) = {rx, tx}" using False by (auto simp: conn_bufs_def)
  have sub: "conn_bufs (f j) \<subseteq> dom (h_bufs h)" for j using assms unfolding owned_def by simp
  have "rx \<in> dom (h_bufs h)" "tx \<in> dom (h_bufs h)" using sub [of i] by (simp_all only: bufs insert_subset)
  then obtain brx btx where live: "h_bufs h rx = Some brx" "h_bufs h tx = Some btx" by (simp only: domIff not_None_eq) blast
  let ?c = "(f i)\<lparr>c_state := TCP_LISTEN\<rparr>" and ?h = "h\<lparr>h_bufs := (h_bufs h)(rx := None, tx := None)\<rparr>"
  have "release_tcp_connect h (f i) = Inr (?h, ?c)"
    using False c live by (simp add: release_tcp_connect_def free_ptr_def free_buf_def)
  moreover have "owned ?h (f(i := ?c))"
  proof (rule owned_update [OF assms])
    show "conn_ok ?c" "conn_bufs ?c \<subseteq> dom (h_bufs ?h)" by (simp_all add: conn_ok_def conn_bufs_def handled_def)
    show "conn_bufs (f j) \<subseteq> dom (h_bufs ?h) \<and> conn_bufs (f j) \<inter> conn_bufs ?c = {}" if "j \<noteq> i" for j
    proof -
      have "conn_bufs (f j) \<subseteq> dom (h_bufs h)" "conn_bufs (f j) \<inter> {rx, tx} = {}"
        using assms that sub [of j] unfolding owned_def bufs [symmetric] by simp_all
      moreover have "conn_bufs ?c = {}" by (simp add: conn_bufs_def)
      moreover have "dom (h_bufs ?h) = dom (h_bufs h) - {rx, tx}" by auto
      ultimately show ?thesis by blast
    qed
    show "a < h_next ?h" if "a \<in> dom (h_bufs ?h)" for a
    proof -
      have "a \<in> dom (h_bufs h)" using that by (simp add: dom_def split: if_splits)
      then show ?thesis using assms unfolding owned_def by simp
    qed
    show "items_some ?h" using assms by (simp add: owned_def items_some_def)
  qed
  ultimately show ?thesis by (rule that) simp
qed

definition own_inv :: "net \<Rightarrow> bool" where
  "own_inv s \<longleftrightarrow> owned (mheap s) (conn s) \<and> map_inv (clock s) (connect_table s)"

named_theorems own_ops \<open>operations that preserve the ownership of the buffers\<close>

lemma own_keeps: "keeps s s' \<Longrightarrow> own_inv s \<Longrightarrow> own_inv s'"
  unfolding own_inv_def using owned_keeps by (auto simp: keeps_def ports_def)

lemma own_inv_delete:
  assumes "own_inv s"
  shows "own_inv (s\<lparr>connect_table := map_delete (connect_table s) (clock s) k\<rparr>)"
proof -
  have "conn (s\<lparr>connect_table := map_delete (connect_table s) (clock s) k\<rparr>) = conn s" by (rule ext) simp
  then show ?thesis using assms by (simp add: own_inv_def nm.inv_delete)
qed

lemma own_restate:
  "own_inv s \<Longrightarrow> c_state (conn s i) \<noteq> TCP_LISTEN \<Longrightarrow> handled (c_state c) \<Longrightarrow>
    c_rx_buf c = c_rx_buf (conn s i) \<Longrightarrow> c_tx_buf c = c_tx_buf (conn s i) \<Longrightarrow> own_inv (put_conn s i c)"
  by (simp add: own_inv_def conn_put_fun owned_restate)

lemma conn_fun_simps [simp]: "conn (s\<lparr>mheap := h\<rparr>) = conn s" "conn (s\<lparr>rand_seq := q\<rparr>) = conn s"
  "conn (s\<lparr>connect_table := t\<rparr>) = map_val t"
  by (rule ext, simp add: conn_def)+

lemma release_at_owned:
  assumes "own_inv s"
  obtains s' where "release_at s i = Inr s'" and "own_inv s'" and "c_state (conn s' i) = TCP_LISTEN"
proof -
  obtain h c where "release_tcp_connect (mheap s) (conn s i) = Inr (h, c)" "owned h ((conn s)(i := c))"
    "c_state c = TCP_LISTEN"
    using owned_release [of "mheap s" "conn s" i] assms unfolding own_inv_def by blast
  then show thesis
    using assms by (intro that [of "put_conn (s\<lparr>mheap := h\<rparr>) i c"])
      (simp_all add: release_at_def own_inv_def conn_put_fun)
qed

lemma own_release_at [own_ops]: "release_at s i = Inr s' \<Longrightarrow> own_inv s \<Longrightarrow> own_inv s'"
  by (metis release_at_owned sum.inject(2))

lemma own_close [own_ops]:
  assumes "tcp_connect_close s i = Inr s'" and "own_inv s"
  shows "own_inv s'"
proof (cases "c_state (conn s i) = TCP_ESTABLISHED")
  case True
  then obtain s2 where k: "keeps s s2" and s': "s' = put_conn s2 i ((conn s2 i)\<lparr>c_state := TCP_FIN_WAIT_1\<rparr>)"
    using assms(1) by (auto simp: tcp_connect_close_def dest!: keeps_ops intro: keeps_trans)
  show ?thesis
    unfolding s' by (rule own_restate [OF own_keeps [OF k assms(2)]])
      (simp_all add: keeps_state [OF k] True handled_def)
next
  case False
  then show ?thesis using assms by (auto simp: tcp_connect_close_def Let_def dest: own_ops intro: own_inv_delete)
qed

lemma own_reset [own_ops]:
  assumes "tcp_reset s i key n = Inr s'" and "own_inv s"
  shows "own_inv s'"
proof -
  obtain s3 s4 where k: "keeps s s3" "release_at s3 i = Inr s4"
    and s': "s' = s4\<lparr>connect_table := map_delete (connect_table s4) (clock s4) key\<rparr>"
    using assms(1) by (auto simp: tcp_reset_def Let_def dest!: keeps_ops; blast intro: keeps_trans)
  then show ?thesis using own_release_at [OF k(2) own_keeps [OF k(1) assms(2)]] by (simp add: own_inv_delete)
qed

lemma own_init_rcvd [own_ops]:
  assumes "init_tcp_connect_rcvd s i = Inr s'" and own: "own_inv s"
  shows "own_inv s'"
  using assms(1)
proof (cases rule: init_rcvd_cases)
  case (new h1 h2 rx tx s3)
  let ?c1 = "(conn s i)\<lparr>c_rx_buf := Some rx, c_tx_buf := Some tx\<rparr>"
  let ?s1 = "put_conn (s\<lparr>mheap := h2\<rparr>) i ?c1" and ?c = "(conn s3 i)\<lparr>c_state := TCP_SYN_RCVD\<rparr>"
  have o: "owned (mheap s) (conn s)" "map_inv (clock s) (connect_table s)" using own by (simp_all add: own_inv_def)
  have "heap_grows (mheap s) h1" "heap_grows h1 h2" using new(2,3) by (auto dest!: heap_frames)
  then have "keeps s (s\<lparr>mheap := h2\<rparr>)" unfolding keeps_def by (auto intro: heap_grows_trans)
  from owned_keeps [OF o(1) this] have "owned h2 (conn s)" by simp
  then have "own_inv ?s1" using new(1) o(2) by (simp add: own_inv_def conn_put_fun owned_listen)
  then have o3: "owned (mheap s3) (conn s3)" "map_inv (clock s3) (connect_table s3)" using own_keeps [OF new(4)] by (simp_all add: own_inv_def)
  have v: "own_view (conn s3 i) = own_view ?c1" "\<And>j. j \<noteq> i \<Longrightarrow> own_view (conn s3 j) = own_view (conn s j)"
    using new(4) by (auto simp: keeps_def conn_put_conn_other)
  have c: "c_rx_buf ?c = Some rx" "c_tx_buf ?c = Some tx" using v(1) by (simp_all add: own_view_def)
  have fresh: "rx = h_next (mheap s)" "tx = Suc (h_next (mheap s))" "{rx, tx} \<subseteq> dom (h_bufs h2)"
    using new(2,3) by (auto simp: malloc_buf_def)
  have bufs: "conn_bufs ?c = {rx, tx}" using c by (auto simp: conn_bufs_def)
  have "owned (mheap s3) ((conn s3)(i := ?c))"
  proof (rule owned_update [OF o3(1)])
    show "conn_ok ?c" using c fresh(1,2) by (simp add: conn_ok_def handled_def)
    have "dom (h_bufs h2) \<subseteq> dom (h_bufs (mheap s3))" using new(4) by (simp add: keeps_def heap_grows_def)
    with fresh(3) show "conn_bufs ?c \<subseteq> dom (h_bufs (mheap s3))" unfolding bufs by (rule order_trans)
    show "items_some (mheap s3)" using o3(1) unfolding owned_def by simp
    show "a < h_next (mheap s3)" if "a \<in> dom (h_bufs (mheap s3))" for a
      using o3(1) that unfolding owned_def by simp
    show "conn_bufs (conn s3 j) \<subseteq> dom (h_bufs (mheap s3)) \<and> conn_bufs (conn s3 j) \<inter> conn_bufs ?c = {}"
      if "j \<noteq> i" for j
    proof -
      have "conn_bufs (conn s j) \<subseteq> dom (h_bufs (mheap s))" "\<forall>a \<in> dom (h_bufs (mheap s)). a < h_next (mheap s)"
        using o(1) unfolding owned_def by simp_all
      then have "rx \<notin> conn_bufs (conn s j)" "tx \<notin> conn_bufs (conn s j)"
        unfolding fresh(1,2) by (metis less_irrefl subsetD, metis Suc_n_not_le_n less_imp_le subsetD)
      then show ?thesis
        using o3(1) unfolding owned_def bufs own_view_cong(1) [OF v(2) [OF that]] by (metis own_view_cong(1) that v(2)
            Int_insert_right inf_bot_right)
    qed
  qed
  then show ?thesis using o3(2) unfolding new(5) own_inv_def conn_put_fun by simp
next
  case (old s3)
  show ?thesis unfolding old(3)
    by (rule own_restate [OF own_keeps [OF old(2) own]]) (simp_all add: keeps_state [OF old(2)] old(1) handled_def)
qed

lemma own_find_connect [own_ops]:
  assumes "tcp_find_connect s key src h = Inr (s', i)" and "own_inv s"
  shows "own_inv s'"
proof (cases "map_get (connect_table s) (clock s) (Some key)")
  case (Some j)
  then show ?thesis using assms by (simp add: tcp_find_connect_def)
next
  case None
  let ?v = "CONNECT_LISTEN\<lparr>c_ip := src, c_handler := Some h\<rparr>"
  have inv: "owned (mheap s) (conn s)" "map_inv (clock s) (connect_table s)"
    using assms(2) by (simp_all add: own_inv_def)
  show ?thesis
    using inv(2)
  proof (cases rule: map_set_cases [where k = key and v = ?v])
    case (miss j)
    then have "s' = s\<lparr>connect_table := fst (map_set (connect_table s) (clock s) key ?v)\<rparr>"
      using assms(1) None by (auto simp: tcp_find_connect_def Let_def deref_def split: option.splits)
    moreover have "map_val (fst (map_set (connect_table s) (clock s) key ?v)) = (conn s)(j := ?v)"
      unfolding miss(6) by (rule ext) (simp add: map_val_def conn_def)
    moreover have "c_state ?v = TCP_LISTEN" by (simp add: CONNECT_LISTEN_def)
    ultimately show ?thesis
      using owned_listen [OF inv(1)] nm.inv_set [OF inv(2)] by (simp add: own_inv_def)
  qed (use assms(1) None in \<open>auto simp: tcp_find_connect_def\<close>)
qed

lemma own_listen [own_ops]:
  assumes "tcp_in_listen s i p src = Inr (s', reset)" and own: "own_inv s"
  shows "own_inv s'"
proof (cases "fl_rst (th_flags p) \<or> \<not> fl_syn (th_flags p)")
  case True
  then show ?thesis using assms by (auto simp: tcp_in_listen_def dest: own_ops split: if_splits)
next
  case False
  then obtain s1 s4 c r where i: "init_tcp_connect_rcvd s i = Inr s1"
    and c: "own_view c = own_view (conn s1 i)" and k: "keeps (put_conn (s1\<lparr>rand_seq := r\<rparr>) i c) s4" "keeps s4 s'"
    using assms(1) by (auto simp: tcp_in_listen_def Let_def dest!: keeps_ops split: if_splits)
  have "keeps s1 (s1\<lparr>rand_seq := r\<rparr>)" by (simp add: keeps_def)
  then have "keeps s1 s'"
    using k c by (simp, blast intro: keeps_trans)
  with own_init_rcvd [OF i own] show ?thesis by (rule own_keeps [rotated])
qed

lemma own_syn_rcvd [own_ops]:
  "tcp_in_syn_rcvd run_tcp s i p = Inr s' \<Longrightarrow> own_inv s \<Longrightarrow> c_state (conn s i) \<noteq> TCP_LISTEN \<Longrightarrow> own_inv s'"
  by (auto simp: tcp_in_syn_rcvd_def Let_def dest!: keeps_ops split: if_splits
      elim!: own_keeps intro!: own_restate) (simp_all add: handled_def)

lemma own_established [own_ops]:
  assumes "tcp_in_established run_tcp s r i p = Inr s'" and own: "own_inv s"
    and st: "c_state (conn s i) = TCP_ESTABLISHED"
  shows "own_inv s'"
  using assms(1)
proof (cases rule: tcp_in_established_cases)
  case same
  then show ?thesis using own by (auto intro: own_keeps)
next
  case (fin s3)
  have "own_inv (put_conn s3 i ((conn s3 i)\<lparr>c_state := TCP_LAST_ACK, c_ack := c_ack (conn s3 i) + 1\<rparr>))"
    by (rule own_restate [OF own_keeps [OF fin(1) own]]) (simp_all add: keeps_state [OF fin(1)] st handled_def)
  with fin(3) show ?thesis by (rule own_keeps)
qed

lemma own_fin_wait_1 [own_ops]:
  "tcp_in_fin_wait_1 s i p = Inr s' \<Longrightarrow> own_inv s \<Longrightarrow> c_state (conn s i) \<noteq> TCP_LISTEN \<Longrightarrow> own_inv s'"
  by (auto simp: tcp_in_fin_wait_1_def handled_def dest: own_ops intro: own_restate split: if_splits)

lemma own_fin_wait_2 [own_ops]:
  "tcp_in_fin_wait_2 s i p = Inr s' \<Longrightarrow> own_inv s \<Longrightarrow> own_inv s'"
  by (auto simp: tcp_in_fin_wait_2_def Let_def dest!: keeps_ops split: if_splits) (metis own_keeps own_close)

lemma own_last_ack [own_ops]:
  "tcp_in_last_ack run_tcp s i h p = Inr s' \<Longrightarrow> own_inv s \<Longrightarrow> own_inv s'"
  by (auto simp: tcp_in_last_ack_def dest!: keeps_ops split: if_splits) (metis own_keeps own_close)

lemma own_state [own_ops]:
  "tcp_in_state run_tcp s r i h p = Inr s' \<Longrightarrow> own_inv s \<Longrightarrow> c_state (conn s i) \<noteq> TCP_LISTEN \<Longrightarrow> own_inv s'"
  by (cases "c_state (conn s i)") (auto simp: tcp_in_state_def dest: own_ops)

lemma own_conn [own_ops]:
  assumes "tcp_in_conn run_tcp s r i h p src = Inr (s', reset)" and "own_inv s"
  shows "own_inv s'"
proof -
  have step: "own_inv t'" if "buf_do f s r = Inr t" "tcp_in_state run_tcp t r i h p = Inr t'"
    "c_state (conn s i) \<noteq> TCP_LISTEN" for f t t'
    using keeps_buf_do [OF that(1)] that(2,3) assms(2)
    by (metis keeps_state own_keeps own_state)
  show ?thesis
    using assms step by (auto simp: tcp_in_conn_def dest: own_ops split: if_splits)
qed

lemma own_segment:
  assumes "tcp_in run_tcp s r src = Inr s'" and "own_inv s"
  shows "own_inv s'"
proof -
  obtain s1 hdr where 1: "tcp_in_check s r (ip_of src) = Inr (s1, hdr)"
    using assms(1) by (cases "tcp_in_check s r (ip_of src)") (auto simp: tcp_in_def)
  have own1: "own_inv s1" using own_keeps [OF keeps_tcp_in_check [OF 1] assms(2)] .
  show ?thesis
  proof (cases hdr)
    case None
    then show ?thesis using assms(1) 1 own1 by (simp add: tcp_in_def)
  next
    case (Some p)
    then show ?thesis
      using assms(1) 1 own1
      by (auto simp: tcp_in_def Let_def split: option.splits prod.splits if_splits;
        metis own_find_connect own_conn own_reset)
  qed
qed

text \<open>Memory safety of the connections: receiving a segment, whatever it holds and whatever the
  outcome of the checks, keeps every connection outside LISTEN with two live buffers of its own,
  and no buffer is shared by two connections.\<close>

lemma tcp_in_keeps_ownership:
  assumes "own_inv s" and "tcp_in run_tcp s r src = Inr s'"
  shows "owned (mheap s') (conn s') \<and> map_inv (clock s') (connect_table s')"
  using own_segment [OF assms(2,1)] by (simp add: own_inv_def)

lemma owned_demo_listen: "own_inv (demo_listen f)"
proof -
  have "conn (demo_listen f) i = CONNECT_LISTEN" for i
    by (simp add: conn_def demo_listen_def demo_ports_def map_val_def)
  moreover have "c_state CONNECT_LISTEN = TCP_LISTEN" by (simp add: CONNECT_LISTEN_def)
  moreover have "h_bufs (mheap (demo_listen f)) = Map.empty" "items_some (mheap (demo_listen f))"
    by (simp_all add: items_some_def demo_listen_def demo_ports_def demo_peer_def demo_state_def heap_empty_def)
  ultimately show ?thesis
    by (simp add: own_inv_def owned_def conn_ok_def conn_bufs_def handled_def demo_listen_fields)
qed

lemma tcp_in_keeps_ownership_example:
  "\<exists>s' i. tcp_in run_tcp (demo_listen (tcp_flags_null\<lparr>fl_syn := True\<rparr>)) Rxbuf (ip_bytes (10, 0, 0, 9)) = Inr s' \<and>
    c_state (conn s' i) = TCP_SYN_RCVD \<and> conn_bufs (conn s' i) \<subseteq> dom (h_bufs (mheap s'))"
proof -
  obtain s' i where s': "tcp_in run_tcp (demo_listen (tcp_flags_null\<lparr>fl_syn := True\<rparr>)) Rxbuf (ip_bytes (10, 0, 0, 9)) = Inr s'"
    "c_state (conn s' i) = TCP_SYN_RCVD"
    by (rule demo_syn_reply)
  then show ?thesis using tcp_in_keeps_ownership [OF owned_demo_listen s'(1)] unfolding owned_def by blast
qed

lemma moves_ports: "moves s s' i st \<Longrightarrow> ports s' = ports s"
  by (simp add: moves_def)

lemma keeps_ports: "keeps s s' \<Longrightarrow> ports s' = ports s"
  by (simp add: keeps_def)

lemma ports_find_connect: "tcp_find_connect s key src h = Inr (s', i) \<Longrightarrow> ports s' = ports s"
  by (auto simp: tcp_find_connect_def Let_def split: option.splits prod.splits)

lemma ports_tcp_in:
  assumes "tcp_in run_tcp s r src = Inr s'"
  shows "ports s' = ports s"
  using assms
  by (auto simp: tcp_in_def Let_def split: option.splits prod.splits if_splits
      dest!: keeps_tcp_in_check ports_find_connect tcp_in_conn_moves(1) [OF _ refl] tcp_reset_moves keeps_ports moves_ports)

subsection \<open>Closing a port\<close>

lemma release_effect:
  assumes "release_tcp_connect h c = Inr (h', c')"
  shows "h_bufs h' = h_bufs h |` (- conn_bufs c)" and "c' = c\<lparr>c_state := TCP_LISTEN\<rparr>"
  using assms
  by (auto simp: release_tcp_connect_def conn_bufs_def free_ptr_def free_buf_def restrict_map_def fun_eq_iff
      split: if_splits option.splits)

lemma close_port_fn_owned:
  assumes "owned h (map_val m)"
  obtains c h' where "close_port_fn port (m_data m i) (Inr h) = ((m_data m i)\<lparr>ent_val := c\<rparr>, Inr h')"
    and "owned h' (map_val (map_poke m i c))"
    and "c = (if key_dst_port (ent_key (m_data m i)) = port then (map_val m i)\<lparr>c_state := TCP_LISTEN\<rparr> else map_val m i)"
    and "h_bufs h' = h_bufs h |` (- (if key_dst_port (ent_key (m_data m i)) = port then conn_bufs (map_val m i) else {}))"
proof -
  obtain h' c where rel: "release_tcp_connect h (map_val m i) = Inr (h', c)" "owned h' ((map_val m)(i := c))"
    "c_state c = TCP_LISTEN"
    by (rule owned_release [OF assms])
  have poke: "map_val (map_poke m i c) = (map_val m)(i := c)" for c
    by (rule ext) (simp add: map_val_def map_poke_def)
  show thesis
  proof (cases "key_dst_port (ent_key (m_data m i)) = port")
    case True
    then show ?thesis
      using rel release_effect [OF rel(1)]
      by (intro that [of c h']) (simp_all add: close_port_fn_def map_val_def [symmetric] poke)
  next
    case False
    then show ?thesis
      using assms
      by (intro that [of "map_val m i" h]) (simp_all add: close_port_fn_def map_val_def [symmetric] poke restrict_map_def)
  qed
qed

lemma map_poke_data: "m\<lparr>m_data := (m_data m)(i := (m_data m i)\<lparr>ent_val := c\<rparr>)\<rparr> = map_poke m i c"
  by (simp add: map_poke_def)

text \<open>The slots from \<open>i\<close> on whose connections \<^verbatim>\<open>tcp_close\<close> releases, and their buffers.\<close>

definition closing :: "(tcp_key, tcp_connect) map_t \<Rightarrow> int \<Rightarrow> u16 \<Rightarrow> nat \<Rightarrow> bool" where
  "closing m now port j \<longleftrightarrow> map_live m now j \<and> key_dst_port (ent_key (m_data m j)) = port"

definition closing_bufs :: "(tcp_key, tcp_connect) map_t \<Rightarrow> int \<Rightarrow> u16 \<Rightarrow> nat \<Rightarrow> nat set" where
  "closing_bufs m now port i = (\<Union>j \<in> {j. i \<le> j \<and> closing m now port j}. conn_bufs (map_val m j))"

lemma closing_bufs_step:
  "closing_bufs m now port i = (if closing m now port i then conn_bufs (map_val m i) else {}) \<union> closing_bufs m now port (Suc i)"
proof -
  have "{j. i \<le> j \<and> closing m now port j} = (if closing m now port i then {i} else {}) \<union> {j. Suc i \<le> j \<and> closing m now port j}"
    by (auto simp: Suc_le_eq le_less)
  then show ?thesis by (simp add: closing_bufs_def UN_Un)
qed

lemma close_port_loop:
  assumes "owned h (map_val m)"
  shows "\<exists>m' h'. map_foreach_from (close_port_fn port) now i m (Inr h) = (m', Inr h') \<and>
    owned h' (map_val m') \<and> (\<forall>t. map_inv t m' = map_inv t m) \<and>
    (\<forall>j. map_val m' j = (if i \<le> j \<and> closing m now port j then (map_val m j)\<lparr>c_state := TCP_LISTEN\<rparr> else map_val m j)) \<and>
    h_bufs h' = h_bufs h |` (- closing_bufs m now port i)"
  using assms
proof (induction "m_max_size m - i" arbitrary: i m h)
  case 0
  then have none: "{j. i \<le> j \<and> closing m now port j} = {}" by (auto simp: closing_def map_live_def)
  then have "\<not> (i \<le> j \<and> closing m now port j)" for j by blast
  moreover have "h_bufs h |` (- closing_bufs m now port i) = h_bufs h"
    unfolding closing_bufs_def none by (simp add: restrict_map_def)
  ultimately show ?case using 0 by (subst map_foreach_from.simps) auto
next
  case (Suc n)
  have i: "i < m_max_size m" using Suc(2) by simp
  show ?case
  proof (cases "map_entry_valid m now (m_data m i)")
    case True
    then have live: "closing m now port i \<longleftrightarrow> key_dst_port (ent_key (m_data m i)) = port"
      using i by (simp add: closing_def map_live_def)
    obtain c h1 where c: "close_port_fn port (m_data m i) (Inr h) = ((m_data m i)\<lparr>ent_val := c\<rparr>, Inr h1)"
      "owned h1 (map_val (map_poke m i c))"
      "c = (if closing m now port i then (map_val m i)\<lparr>c_state := TCP_LISTEN\<rparr> else map_val m i)"
      "h_bufs h1 = h_bufs h |` (- (if closing m now port i then conn_bufs (map_val m i) else {}))"
      unfolding live by (rule close_port_fn_owned [OF Suc(3)])
    let ?m = "map_poke m i c"
    have n: "n = m_max_size ?m - Suc i" using Suc(2) by simp
    from Suc(1) [OF n c(2)] obtain m' h' where m': "map_foreach_from (close_port_fn port) now (Suc i) ?m (Inr h1) = (m', Inr h')"
      "owned h' (map_val m')" "\<And>t. map_inv t m' = map_inv t ?m"
      "\<And>j. map_val m' j = (if Suc i \<le> j \<and> closing ?m now port j then (map_val ?m j)\<lparr>c_state := TCP_LISTEN\<rparr> else map_val ?m j)"
      "h_bufs h' = h_bufs h1 |` (- closing_bufs ?m now port (Suc i))"
      by blast
    have poke: "map_val ?m j = (if j = i then c else map_val m j)" "closing ?m now port j = closing m now port j" for j
      by (simp_all add: map_val_def map_poke_def closing_def map_live_def map_entry_valid_def)
    have "closing_bufs ?m now port (Suc i) = closing_bufs m now port (Suc i)"
      unfolding closing_bufs_def poke by (intro SUP_cong) auto
    then have "h_bufs h' = h_bufs h |` (- closing_bufs m now port i)"
      using m'(5) c(4) closing_bufs_step [of m now port i] by (auto simp: restrict_map_def fun_eq_iff)
    moreover have "map_val m' j = (if i \<le> j \<and> closing m now port j then (map_val m j)\<lparr>c_state := TCP_LISTEN\<rparr> else map_val m j)" for j
      using m'(4) [of j] c(3) unfolding poke by (cases "j = i") auto
    moreover have "map_foreach_from (close_port_fn port) now i m (Inr h) = (m', Inr h')"
      using True i c(1) m'(1) by (subst map_foreach_from.simps) (simp add: map_poke_data)
    ultimately show ?thesis using m'(2,3) by auto
  next
    case False
    then have no: "\<not> closing m now port i" by (simp add: closing_def map_live_def)
    then have less: "i \<le> j \<and> closing m now port j \<longleftrightarrow> Suc i \<le> j \<and> closing m now port j" for j
      by (cases "j = i") auto
    have "closing_bufs m now port i = closing_bufs m now port (Suc i)"
      using closing_bufs_step [of m now port i] no by simp
    moreover have n: "n = m_max_size m - Suc i" using Suc(2) by simp
    ultimately show ?thesis
      using Suc(1) [OF n Suc(3)] i False unfolding less
      by (subst map_foreach_from.simps) simp
  qed
qed

lemma tcp_close_frees:
  assumes "own_inv s"
  obtains t h where "tcp_close s port = Inr (s\<lparr>delete_port := port, connect_table := t, mheap := h,
      tcp_table := map_delete (tcp_table s) (clock s) port\<rparr>)"
    and "owned h (map_val t)" and "\<And>n. map_inv n t = map_inv n (connect_table s)"
    and "\<And>j. map_val t j = (if closing (connect_table s) (clock s) port j
         then (conn s j)\<lparr>c_state := TCP_LISTEN\<rparr> else conn s j)"
    and "h_bufs h = h_bufs (mheap s) |` (- closing_bufs (connect_table s) (clock s) port 0)"
proof -
  have c: "conn s = map_val (connect_table s)" by (rule ext) (simp add: conn_def)
  then have "owned (mheap s) (map_val (connect_table s))" using assms by (simp add: own_inv_def)
  from close_port_loop [OF this, of port "clock s" 0] obtain t h
    where loop: "map_foreach_from (close_port_fn port) (clock s) 0 (connect_table s) (Inr (mheap s)) = (t, Inr h)"
      "owned h (map_val t)" "\<And>n. map_inv n t = map_inv n (connect_table s)"
      "\<And>j. map_val t j = (if closing (connect_table s) (clock s) port j
         then (conn s j)\<lparr>c_state := TCP_LISTEN\<rparr> else conn s j)"
      "h_bufs h = h_bufs (mheap s) |` (- closing_bufs (connect_table s) (clock s) port 0)"
    unfolding c by auto
  from loop(1) have "tcp_close s port = Inr (s\<lparr>delete_port := port, connect_table := t, mheap := h,
      tcp_table := map_delete (tcp_table s) (clock s) port\<rparr>)"
    by (simp add: tcp_close_def map_foreach_def)
  then show thesis using loop(2-5) by (rule that)
qed

lemma tcp_close_owned:
  assumes "own_inv s"
  obtains s' where "tcp_close s port = Inr s'" and "own_inv s'"
proof -
  obtain t h where t: "tcp_close s port = Inr (s\<lparr>delete_port := port, connect_table := t, mheap := h,
      tcp_table := map_delete (tcp_table s) (clock s) port\<rparr>)"
    "owned h (map_val t)" "\<And>n. map_inv n t = map_inv n (connect_table s)"
    by (rule tcp_close_frees [OF assms, where port = port]) blast
  have "conn (s\<lparr>delete_port := port, connect_table := t, mheap := h,
      tcp_table := map_delete (tcp_table s) (clock s) port\<rparr>) = map_val t"
    by (rule ext) (simp add: conn_def)
  with t show thesis using assms by (intro that [OF t(1)]) (simp add: own_inv_def)
qed

text \<open>C23. Closing a port always succeeds: every connection to it is released (its state becomes
  LISTEN, nothing else of it changes), the others are untouched, the buffers of the released
  connections are freed, each exactly once, and no other packet buffer is freed or changed; the
  invariant holds afterwards, and the port has no handler any more.\<close>

theorem tcp_close_releases:
  assumes "own_inv s" and "map_inv (clock s) (tcp_table s)"
  shows "\<exists>s'. tcp_close s port = Inr s' \<and> own_inv s' \<and>
    map_lookup (clock s') (tcp_table s') = (map_lookup (clock s) (tcp_table s))(port := None) \<and>
    (\<forall>j. conn s' j = (if map_live (connect_table s) (clock s) j \<and> key_dst_port (ent_key (m_data (connect_table s) j)) = port
         then (conn s j)\<lparr>c_state := TCP_LISTEN\<rparr> else conn s j)) \<and>
    (\<forall>a. h_bufs (mheap s') a =
      (if \<exists>j. map_live (connect_table s) (clock s) j \<and> key_dst_port (ent_key (m_data (connect_table s) j)) = port \<and>
            a \<in> conn_bufs (conn s j)
       then None else h_bufs (mheap s) a))"
proof -
  obtain t h where t: "tcp_close s port = Inr (s\<lparr>delete_port := port, connect_table := t, mheap := h,
      tcp_table := map_delete (tcp_table s) (clock s) port\<rparr>)"
    "owned h (map_val t)" "\<And>n. map_inv n t = map_inv n (connect_table s)"
    "\<And>j. map_val t j = (if closing (connect_table s) (clock s) port j
         then (conn s j)\<lparr>c_state := TCP_LISTEN\<rparr> else conn s j)"
    "h_bufs h = h_bufs (mheap s) |` (- closing_bufs (connect_table s) (clock s) port 0)"
    by (rule tcp_close_frees [OF assms(1), where port = port]) blast
  let ?s' = "s\<lparr>delete_port := port, connect_table := t, mheap := h,
     tcp_table := map_delete (tcp_table s) (clock s) port\<rparr>"
  have "own_inv ?s'" using tcp_close_owned [OF assms(1), of port] t(1) by (metis sum.inject(2))
  moreover have "conn ?s' j = map_val t j" for j by (simp add: conn_def)
  moreover have "h_bufs h a = (if \<exists>j. closing (connect_table s) (clock s) port j \<and> a \<in> conn_bufs (conn s j)
      then None else h_bufs (mheap s) a)" for a
    unfolding t(5) by (auto simp: restrict_map_def closing_bufs_def conn_def)
  ultimately show ?thesis
    using t(1,4) nm.lookup_delete [OF assms(2)] unfolding closing_def by (intro exI [of _ ?s']) simp
qed

definition demo_busy :: net where
  "demo_busy = demo_ports (demo_state\<lparr>
     mheap := heap_empty\<lparr>h_next := 9, h_bufs := [7 \<mapsto> demo_buf [], 8 \<mapsto> demo_buf []]\<rparr>,
     connect_table := \<lparr>m_key_len = 8, m_value_len = 56, m_size = 1, m_max_size = 2, m_timeout = 0,
       m_ctor = (\<lambda>_ v. v), m_data = (\<lambda>i. if i = 0
         then \<lparr>ent_key = new_tcp_key (10, 0, 0, 9) 1234 61000, ent_val = CONNECT_LISTEN\<lparr>c_state := TCP_ESTABLISHED,
                c_local_port := 61000, c_remote_port := 1234, c_ip := (10, 0, 0, 9), c_handler := Some 0,
                c_rx_buf := Some 7, c_tx_buf := Some 8\<rparr>, ent_time = 1\<rparr>
         else \<lparr>ent_key = new_tcp_key (0, 0, 0, 0) 0 0, ent_val = CONNECT_LISTEN, ent_time = 0\<rparr>)\<rparr>\<rparr>)"

theorem tcp_close_releases_witness:
  "\<exists>s'. tcp_close demo_busy 61000 = Inr s' \<and> c_state (conn demo_busy 0) = TCP_ESTABLISHED \<and>
    c_state (conn s' 0) = TCP_LISTEN \<and> map_lookup (clock s') (tcp_table s') 61000 = None \<and>
    h_bufs (mheap demo_busy) 7 \<noteq> None \<and> h_bufs (mheap s') 7 = None"
proof -
  have conn: "conn demo_busy i = (if i = 0 then CONNECT_LISTEN\<lparr>c_state := TCP_ESTABLISHED,
                c_local_port := 61000, c_remote_port := 1234, c_ip := (10, 0, 0, 9), c_handler := Some 0,
                c_rx_buf := Some 7, c_tx_buf := Some 8\<rparr> else CONNECT_LISTEN)" for i
    by (simp add: conn_def map_val_def demo_busy_def demo_ports_def)
  have heap: "h_next (mheap demo_busy) = 9" "dom (h_bufs (mheap demo_busy)) = {7, 8}"
    "items_some (mheap demo_busy)"
    by (auto simp: demo_busy_def demo_ports_def items_some_def heap_empty_def)
  have table: "map_inv (clock demo_busy) (connect_table demo_busy)" "map_inv (clock demo_busy) (tcp_table demo_busy)"
    "map_live (connect_table demo_busy) (clock demo_busy) 0" "key_dst_port (ent_key (m_data (connect_table demo_busy) 0)) = 61000"
    by (auto simp: demo_busy_def demo_ports_def demo_state_def map_inv_def map_live_def map_entry_valid_def
        map_used_def new_tcp_key_def split: if_splits)
  have bufs: "conn_bufs (conn demo_busy i) = (if i = 0 then {7, 8} else {})" for i
    by (auto simp: conn conn_bufs_def CONNECT_LISTEN_def)
  have "conn_ok (conn demo_busy i)" for i
    by (simp add: conn conn_ok_def handled_def CONNECT_LISTEN_def)
  then have "own_inv demo_busy"
    using heap table(1) bufs by (auto simp: own_inv_def owned_def)
  from tcp_close_releases [OF this table(2), of 61000] obtain s' where s': "tcp_close demo_busy 61000 = Inr s'"
    "map_lookup (clock s') (tcp_table s') 61000 = None" "c_state (conn s' 0) = TCP_LISTEN"
    and freed: "h_bufs (mheap s') 7 = (if \<exists>j. map_live (connect_table demo_busy) (clock demo_busy) j \<and>
      key_dst_port (ent_key (m_data (connect_table demo_busy) j)) = 61000 \<and> 7 \<in> conn_bufs (conn demo_busy j)
      then None else h_bufs (mheap demo_busy) 7)"
    using table(3,4) by auto
  have "h_bufs (mheap s') 7 = None"
    unfolding freed using table(3,4) bufs [of 0] by (intro if_P exI [of _ 0]) simp
  moreover have "h_bufs (mheap demo_busy) 7 \<noteq> None" using heap(2) by auto
  ultimately show ?thesis using s' by (intro exI [of _ s']) (simp add: conn)
qed

subsection \<open>Reachable states\<close>

text \<open>
  What can happen to the connections once TCP is initialised: a port is opened, a segment arrives
  in some buffer, the application reads, writes or closes a connection or closes a port, time
  passes, or another layer works (none of them frees a packet buffer, see \<open>System\<close>).
\<close>

inductive tcp_run :: "net \<Rightarrow> bool" where
  init: "clock s \<noteq> 0 \<Longrightarrow> items_some (mheap s) \<Longrightarrow> \<forall>a \<in> dom (h_bufs (mheap s)). a < h_next (mheap s) \<Longrightarrow> tcp_run (tcp_init s)"
| opens: "tcp_run s \<Longrightarrow> tcp_open s port h = (s', st) \<Longrightarrow> tcp_run s'"
| segment: "tcp_run s \<Longrightarrow> tcp_in run_tcp s r src = Inr s' \<Longrightarrow> tcp_run s'"
| reads: "tcp_run s \<Longrightarrow> tcp_connect_read s i len = Inr (s', data) \<Longrightarrow> tcp_run s'"
| writes: "tcp_run s \<Longrightarrow> tcp_connect_write s i data len = Inr (s', n) \<Longrightarrow> tcp_run s'"
| closes: "tcp_run s \<Longrightarrow> tcp_connect_close s i = Inr s' \<Longrightarrow> tcp_run s'"
| close_port: "tcp_run s \<Longrightarrow> tcp_close s port = Inr s' \<Longrightarrow> tcp_run s'"
| time: "tcp_run s \<Longrightarrow> clock s \<le> t \<Longrightarrow> t \<noteq> 0 \<Longrightarrow> tcp_run (s\<lparr>clock := t\<rparr>)"
| other: "tcp_run s \<Longrightarrow> upper s' = upper s \<Longrightarrow> heap_grows (mheap s) (mheap s') \<Longrightarrow> tcp_run s'"

lemma conn_tcp_init: "conn (tcp_init s) i = CONNECT_LISTEN"
  by (simp add: conn_def tcp_init_def net_add_protocol_def map_init_def map_val_def)

lemma own_tcp_init:
  assumes "clock s \<noteq> 0" and "items_some (mheap s)"
    and "\<forall>a \<in> dom (h_bufs (mheap s)). a < h_next (mheap s)"
  shows "own_inv (tcp_init s)"
proof -
  have "conn (tcp_init s) = (\<lambda>_. CONNECT_LISTEN)" by (rule ext) (rule conn_tcp_init)
  moreover have "c_state CONNECT_LISTEN = TCP_LISTEN" by (simp add: CONNECT_LISTEN_def)
  moreover have "map_inv (clock s) (connect_table (tcp_init s))"
    using assms(1) by (simp add: tcp_init_def net_add_protocol_def map_inv_init)
  moreover have "mheap (tcp_init s) = mheap s" "clock (tcp_init s) = clock s"
    by (simp_all add: tcp_init_def net_add_protocol_def)
  ultimately show ?thesis
    using assms(2,3) by (simp add: own_inv_def owned_def conn_ok_def conn_bufs_def handled_def)
qed

lemma own_close_port: "tcp_close s port = Inr s' \<Longrightarrow> own_inv s \<Longrightarrow> own_inv s'"
  by (metis tcp_close_owned sum.inject(2))

lemma own_time:
  assumes "own_inv s" and "clock s \<le> t" and "t \<noteq> 0"
  shows "own_inv (s\<lparr>clock := t\<rparr>)"
proof -
  have "conn (s\<lparr>clock := t\<rparr>) = conn s" by (rule ext) (simp add: conn_def)
  then show ?thesis using assms map_inv_later [of "clock s" "connect_table s" t] by (simp add: own_inv_def)
qed

lemma own_open: "tcp_open s port h = (s', st) \<Longrightarrow> own_inv s \<Longrightarrow> own_inv s'"
proof -
  have "conn (s\<lparr>tcp_table := t\<rparr>) = conn s" for t by (rule ext) (simp add: conn_def)
  then show "tcp_open s port h = (s', st) \<Longrightarrow> own_inv s \<Longrightarrow> own_inv s'"
    by (auto simp: tcp_open_def own_inv_def split: prod.splits)
qed

lemma tcp_run_owned: "tcp_run s \<Longrightarrow> own_inv s"
  by (induction rule: tcp_run.induct)
    (auto intro: own_tcp_init own_open own_close own_close_port own_time own_keeps keepsI own_segment dest: keeps_ops)

text \<open>C7. Whatever happens to a connection, it is well formed: in every reachable state each
  connection is in one of the six states \<open>tcp_in\<close> handles (its \<^verbatim>\<open>panic\<close> cases are unreachable), has
  two distinct live buffers unless it is in LISTEN, and can be released without a double free.\<close>

theorem tcp_connections_well_formed:
  assumes "tcp_run s"
  shows "conn_ok (conn s i) \<and> conn_bufs (conn s i) \<subseteq> dom (h_bufs (mheap s)) \<and>
    (\<exists>s'. release_at s i = Inr s' \<and> own_inv s')"
proof -
  have own: "own_inv s" using assms by (rule tcp_run_owned)
  then have "conn_ok (conn s i) \<and> conn_bufs (conn s i) \<subseteq> dom (h_bufs (mheap s))"
    by (simp add: own_inv_def owned_def)
  with release_at_owned [OF own] show ?thesis by metis
qed

theorem tcp_connections_well_formed_witness:
  "\<exists>s i. tcp_run s \<and> c_state (conn s i) = TCP_SYN_RCVD \<and> conn_ok (conn s i) \<and>
    conn_bufs (conn s i) \<subseteq> dom (h_bufs (mheap s))"
proof -
  define f where "f = tcp_flags_null\<lparr>fl_syn := True\<rparr>"
  define p where "p = sent_hdr (10, 0, 0, 9) demo_client f []"
  let ?b = "demo_buf (tcp_segment (10, 0, 0, 9) demo_client f [])"
  let ?s0 = "tcp_init (demo_peer\<lparr>rxbuf := ?b\<rparr>)"
  obtain s1 st where s1: "tcp_open ?s0 61000 H_tcp_handler = (s1, st)" by fastforce
  have "tcp_run ?s0"
    by (rule tcp_run.init) (simp_all add: demo_peer_def demo_state_def heap_empty_def items_some_def)
  then have run: "tcp_run s1" using s1 by (rule tcp_run.opens)
  have f1: "clock s1 = 1" "rxbuf s1 = ?b" "arp_table s1 = arp_table demo_peer"
    "connect_table s1 = map_init \<lparr>ent_key = new_tcp_key (0, 0, 0, 0) 0 0, ent_val = CONNECT_LISTEN, ent_time = 0\<rparr> 8 56 0 0 None"
    "tcp_table s1 = fst (map_set (map_init \<lparr>ent_key = 0, ent_val = H_tcp_handler, ent_time = 0\<rparr> 2 8 0 0 None) 1 61000 H_tcp_handler)"
    using s1 by (auto simp: tcp_open_def tcp_init_def net_add_protocol_def split: prod.splits)
  have "map_lookup 1 (tcp_table s1) 61000 = Some H_tcp_handler"
  proof -
    define m0 where "m0 = map_init \<lparr>ent_key = 0 :: u16, ent_val = H_tcp_handler, ent_time = 0\<rparr> 2 8 0 0 None"
    have inv: "map_inv 1 m0" by (simp add: m0_def map_inv_init)
    have "m_size m0 = 0" "0 < m_max_size m0" by (simp_all add: m0_def) (simp add: map_init_def MAP_MAX_LEN_def)
    then have "snd (map_set m0 1 61000 H_tcp_handler) = 0" by (simp add: map_set_status [OF inv])
    from nm.lookup_set [OF inv this] show ?thesis unfolding f1(5) m0_def by simp
  qed
  then obtain h where h: "map_get (tcp_table s1) (clock s1) (Some 61000) = Some h"
    by (auto simp: map_lookup_def f1(1))
  have prem: "segment_arrives s1 Rxbuf ?b (10, 0, 0, 9) p []" "fl_syn (th_flags p)" "\<not> fl_rst (th_flags p)"
    "map_get (tcp_table s1) (clock s1) (Some (swap16 (th_dst_port16 p))) = Some h"
    "map_inv (clock s1) (connect_table s1)"
    "map_get (connect_table s1) (clock s1) (Some (segment_key (10, 0, 0, 9) p)) = None"
    "m_size (connect_table s1) \<noteq> m_max_size (connect_table s1)"
    "map_lookup (clock s1) (arp_table s1) (10, 0, 0, 9) = Some (2, 0, 0, 0, 0, 9)"
  proof -
    show "segment_arrives s1 Rxbuf ?b (10, 0, 0, 9) p []"
      unfolding p_def by (rule demo_segment_arrives [OF f1(2)])
    show "fl_syn (th_flags p)" "\<not> fl_rst (th_flags p)"
      by (simp_all add: p_def f_def tcp_flags_defs)
    show "map_get (tcp_table s1) (clock s1) (Some (swap16 (th_dst_port16 p))) = Some h"
      using h by (simp add: p_def demo_client_def)
    show "map_inv (clock s1) (connect_table s1)" by (simp add: f1(1,4) map_inv_init)
    show "map_get (connect_table s1) (clock s1) (Some (segment_key (10, 0, 0, 9) p)) = None"
      unfolding map_lookup_None_iff [symmetric] f1(4) by simp
    show "m_size (connect_table s1) \<noteq> m_max_size (connect_table s1)"
      unfolding f1(4) by (simp add: map_init_def MAP_MAX_LEN_def)
    show "map_lookup (clock s1) (arp_table s1) (10, 0, 0, 9) = Some (2, 0, 0, 0, 0, 9)"
      by (simp add: f1(1,3))
  qed
  from syn_reply [OF prem, of run_tcp] obtain s' i c where s': "tcp_in run_tcp s1 Rxbuf (ip_bytes (10, 0, 0, 9)) = Inr s'"
    "conn s' i = c" "c_state c = TCP_SYN_RCVD" by force
  from run s'(1) have "tcp_run s'" by (rule tcp_run.segment)
  moreover from tcp_connections_well_formed [OF this, of i]
  have "conn_ok (conn s' i)" "conn_bufs (conn s' i) \<subseteq> dom (h_bufs (mheap s'))" by simp_all
  moreover have "c_state (conn s' i) = TCP_SYN_RCVD" using s'(2,3) by simp
  ultimately show ?thesis by (intro exI [of _ s'] exI [of _ i] conjI)
qed

end
