(* ===== verification/Confined.thy ===== *)
theory Confined
  imports TcpStates
begin

text \<open>
  What a segment leaves alone. \<open>confined R i s s'\<close>: from \<open>s\<close> to \<open>s'\<close> no connection but \<open>i\<close> changes, in
  any field, and no packet buffer that existed changes, is freed or moves, except the buffers of
  connection \<open>i\<close> and those in \<open>R\<close>; buffers that \<open>i\<close> has afterwards and had not before are new. Every
  operation on connection \<open>i\<close> is confined to it, so \<open>tcp_in\<close> is.
\<close>

subsection \<open>Packet buffers that stay as they are\<close>

definition bufs_kept :: "nat set \<Rightarrow> heap \<Rightarrow> heap \<Rightarrow> bool" where
  "bufs_kept A h h' \<longleftrightarrow> h_next h \<le> h_next h' \<and> (\<forall>a < h_next h. a \<notin> A \<longrightarrow> h_bufs h' a = h_bufs h a)"

definition ref_bufs :: "bufref \<Rightarrow> nat set" where
  "ref_bufs r = (case r of Heapbuf a \<Rightarrow> {a} | _ \<Rightarrow> {})"

lemma ref_bufs_simps [simp]: "ref_bufs Txbuf = {}" "ref_bufs Rxbuf = {}" "ref_bufs (Heapbuf a) = {a}"
  by (simp_all add: ref_bufs_def)

named_theorems kept_frames \<open>the packet buffers an operation leaves alone\<close>

lemma bufs_kept_refl [simp]: "bufs_kept A h h"
  by (simp add: bufs_kept_def)

lemma bufs_kept_trans [trans]: "bufs_kept A h h1 \<Longrightarrow> bufs_kept A h1 h2 \<Longrightarrow> bufs_kept A h h2"
  by (simp add: bufs_kept_def)

lemma bufs_kept_mono: "bufs_kept A h h' \<Longrightarrow> A \<subseteq> B \<Longrightarrow> bufs_kept B h h'"
  by (auto simp: bufs_kept_def)

lemma bufs_kept_any: "bufs_kept {} h h' \<Longrightarrow> bufs_kept A h h'"
  by (erule bufs_kept_mono) simp

lemma bufs_kept_queues [simp]: "bufs_kept A h (h'\<lparr>h_queues := q\<rparr>) = bufs_kept A h h'"
  "bufs_kept A (h\<lparr>h_queues := q\<rparr>) h' = bufs_kept A h h'"
  by (simp_all add: bufs_kept_def)

lemma kept_put_buf [simp]: "bufs_kept (ref_bufs r) (mheap s) (mheap (put_buf s r b))"
  by (cases r) (simp_all add: bufs_kept_def put_buf_def)

lemma kept_buf_op [kept_frames]: "buf_op f s r = Inr (s', st) \<Longrightarrow> bufs_kept (ref_bufs r) (mheap s) (mheap s')"
  by (auto simp: buf_op_def split: prod.splits)

lemma kept_buf_do [kept_frames]: "buf_do f s r = Inr s' \<Longrightarrow> bufs_kept (ref_bufs r) (mheap s) (mheap s')"
  by (auto simp: buf_do_def dest: kept_buf_op split: prod.splits)

lemma kept_mem_write [kept_frames]: "mem_write s r off bs = Inr s' \<Longrightarrow> bufs_kept (ref_bufs r) (mheap s) (mheap s')"
  by (auto simp: mem_write_def)

lemma kept_driver_send [kept_frames]: "driver_send s r = Inr (s', st) \<Longrightarrow> bufs_kept (ref_bufs r) (mheap s) (mheap s')"
  by (auto simp: driver_send_def Let_def split: if_splits)

lemma kept_ethernet_out [kept_frames]:
  "ethernet_out s r mac p = Inr s' \<Longrightarrow> bufs_kept (ref_bufs r) (mheap s) (mheap s')"
  by (auto simp: ethernet_out_def Let_def dest!: kept_frames split: if_splits prod.splits;
      blast intro: bufs_kept_trans)

lemma kept_arp_req [kept_frames]: "arp_req s ip = Inr s' \<Longrightarrow> bufs_kept {} (mheap s) (mheap s')"
  by (auto simp: arp_req_def dest!: kept_frames; blast intro: bufs_kept_trans)

lemma kept_malloc [kept_frames]: "malloc_buf h b = (h', a) \<Longrightarrow> bufs_kept {} h h' \<and> a = h_next h"
  by (auto simp: malloc_buf_def bufs_kept_def)

lemma kept_push [kept_frames]: "queue_push h q x = Inr (h', q') \<Longrightarrow> bufs_kept {} h h'"
  by (auto simp: queue_push_def malloc_node_def bufs_kept_def split: option.splits)

lemma kept_queue_new [kept_frames]: "queue_new h x = (h', a) \<Longrightarrow> bufs_kept {} h h'"
  by (auto simp: queue_new_def malloc_node_def bufs_kept_def Let_def)

lemma kept_arp_out [kept_frames]: "arp_out s r ip = Inr s' \<Longrightarrow> bufs_kept (ref_bufs r) (mheap s) (mheap s')"
  by (auto simp: arp_out_def Let_def dest!: kept_frames split: prod.splits option.splits if_splits;
      (blast intro: bufs_kept_trans bufs_kept_any))

lemma kept_ip_fragment_out [kept_frames]:
  "ip_fragment_out s r ip p i off mf = Inr s' \<Longrightarrow> bufs_kept (ref_bufs r) (mheap s) (mheap s')"
  by (auto simp: ip_fragment_out_def Let_def dest!: kept_frames split: prod.splits if_splits;
      blast intro: bufs_kept_trans)

lemma kept_ip_out_loop [kept_frames]:
  "ip_out_loop s r ip p len off = Inr s' \<Longrightarrow> bufs_kept (ref_bufs r) (mheap s) (mheap s')"
proof (induction s r ip p len off arbitrary: s' rule: ip_out_loop.induct)
  case (1 s r ip p len off)
  from 1(2) show ?case
    by (subst (asm) ip_out_loop.simps)
      (auto simp: Let_def dest!: kept_frames 1(1) split: if_splits; blast intro: bufs_kept_trans)
qed

lemma kept_ip_out [kept_frames]: "ip_out s r ip p = Inr s' \<Longrightarrow> bufs_kept (ref_bufs r) (mheap s) (mheap s')"
  by (auto simp: ip_out_def Let_def dest!: kept_frames split: if_splits; blast intro: bufs_kept_trans)

lemma kept_tcp_checksum [kept_frames]:
  "tcp_checksum s r a b = Inr (s', c) \<Longrightarrow> bufs_kept (ref_bufs r) (mheap s) (mheap s')"
  by (auto simp: tcp_checksum_def Let_def dest!: kept_frames; blast intro: bufs_kept_trans)

subsection \<open>Operations on one connection\<close>

definition bufs_of :: "tcp_connect \<Rightarrow> nat set" where
  "bufs_of c = set_option (c_rx_buf c) \<union> set_option (c_tx_buf c)"

definition confined :: "nat set \<Rightarrow> nat \<Rightarrow> net \<Rightarrow> net \<Rightarrow> bool" where
  "confined R i s s' \<longleftrightarrow> bufs_kept (bufs_of (conn s i) \<union> R) (mheap s) (mheap s') \<and>
     (\<forall>j. j \<noteq> i \<longrightarrow> conn s' j = conn s j) \<and> bufs_of (conn s' i) \<subseteq> bufs_of (conn s i) \<union> {h_next (mheap s)..}"

named_theorems confined_ops \<open>operations confined to one connection\<close>

lemma bufs_of_view: "own_view c = own_view d \<Longrightarrow> bufs_of c = bufs_of d"
  by (simp add: own_view_def bufs_of_def)

lemma confined_refl [simp]: "confined R i s s"
  by (simp add: confined_def)

lemma confined_trans [trans]:
  assumes 1: "confined R i s s1" and 2: "confined R i s1 s2"
  shows "confined R i s s2"
proof -
  have sub: "bufs_of (conn s1 i) \<subseteq> bufs_of (conn s i) \<union> {h_next (mheap s)..}" using 1 by (simp add: confined_def)
  have k1: "bufs_kept (bufs_of (conn s i) \<union> R) (mheap s) (mheap s1)" using 1 by (simp add: confined_def)
  have le: "h_next (mheap s) \<le> h_next (mheap s1)" "h_next (mheap s1) \<le> h_next (mheap s2)"
    using 1 2 by (simp_all add: confined_def bufs_kept_def)
  have "h_bufs (mheap s2) a = h_bufs (mheap s) a" if a: "a < h_next (mheap s)" "a \<notin> bufs_of (conn s i) \<union> R" for a
  proof -
    have "a \<notin> bufs_of (conn s1 i) \<union> R" using a sub by (auto simp: subset_iff)
    then show ?thesis using 1 2 a le by (simp add: confined_def bufs_kept_def)
  qed
  moreover have "bufs_of (conn s2 i) \<subseteq> bufs_of (conn s i) \<union> {h_next (mheap s)..}"
    using sub le 2 by (fastforce simp: confined_def)
  ultimately show ?thesis using 1 2 le by (simp add: confined_def bufs_kept_def)
qed

lemma confined_put_conn [simp]:
  "bufs_of c = bufs_of (conn t i) \<Longrightarrow> confined R i s (put_conn t i c) = confined R i s t"
  "bufs_of c = bufs_of (conn s i) \<Longrightarrow> confined R i (put_conn s i c) t = confined R i s t"
  by (simp_all add: confined_def conn_put_conn_other)

lemma confinedI: "upper s' = upper s \<Longrightarrow> bufs_kept B (mheap s) (mheap s') \<Longrightarrow> B \<subseteq> bufs_of (conn s i) \<union> R \<Longrightarrow> confined R i s s'"
  by (auto simp: confined_def upper_def conn_def intro: bufs_kept_mono)


text \<open>The two halves: the other connections, and the packet buffers.\<close>

definition others :: "nat \<Rightarrow> net \<Rightarrow> net \<Rightarrow> bool" where
  "others i s s' \<longleftrightarrow> (\<forall>j. j \<noteq> i \<longrightarrow> conn s' j = conn s j)"

named_theorems others_ops \<open>operations that leave the other connections alone\<close>

lemma others_refl [simp]: "others i s s"
  by (simp add: others_def)

lemma others_trans [trans]: "others i s s1 \<Longrightarrow> others i s1 s2 \<Longrightarrow> others i s s2"
  by (simp add: others_def)

lemma others_upper: "upper s' = upper s \<Longrightarrow> others i s s'"
  by (simp add: others_def upper_def conn_def)

lemma others_put_conn [simp]:
  "others i s (put_conn t i c) = others i s t" "others i (put_conn s i c) t = others i s t"
  by (simp_all add: others_def conn_put_conn_other)

lemma others_buf_op [others_ops]: "buf_op f s r = Inr (s', st) \<Longrightarrow> others i s s'"
  by (intro others_upper upper_frames)

lemma others_buf_do [others_ops]: "buf_do f s r = Inr s' \<Longrightarrow> others i s s'"
  by (intro others_upper upper_frames)

lemma others_mem_write [others_ops]: "mem_write s r off bs = Inr s' \<Longrightarrow> others i s s'"
  by (intro others_upper upper_frames)

lemma others_ip_out [others_ops]: "ip_out s r ip p = Inr s' \<Longrightarrow> others i s s'"
  by (intro others_upper upper_frames)

lemma others_tcp_checksum [others_ops]: "tcp_checksum s r a b = Inr (s', c) \<Longrightarrow> others i s s'"
  by (auto simp: tcp_checksum_def Let_def dest!: others_ops [where i = i]; blast intro: others_trans)

lemma others_tcp_read_from_buf [others_ops]: "tcp_read_from_buf s i r = Inr (s', n) \<Longrightarrow> others i s s'"
  by (auto simp: tcp_read_from_buf_def Let_def dest!: others_ops [where i = i]; blast intro: others_trans)

lemma others_tcp_write_to_buf [others_ops]: "tcp_write_to_buf s i r = Inr (s', n) \<Longrightarrow> others i s s'"
  by (auto simp: tcp_write_to_buf_def Let_def dest!: others_ops [where i = i]; blast intro: others_trans)

lemma others_tcp_send [others_ops]: "tcp_send s r i flags = Inr s' \<Longrightarrow> others i s s'"
  by (auto simp: tcp_send_def Let_def dest!: others_ops [where i = i] split: prod.splits if_splits; blast intro: others_trans)

lemma others_tcp_connect_read [others_ops]: "tcp_connect_read s i len = Inr (s', data) \<Longrightarrow> others i s s'"
  by (auto simp: tcp_connect_read_def Let_def dest!: others_ops [where i = i] split: prod.splits if_splits; blast intro: others_trans)

lemma others_tcp_connect_write [others_ops]: "tcp_connect_write s i data len = Inr (s', n) \<Longrightarrow> others i s s'"
  by (auto simp: tcp_connect_write_def Let_def dest!: others_ops [where i = i] split: prod.splits if_splits; blast intro: others_trans)

lemma others_tcp_acknowledge [others_ops]: "tcp_acknowledge s i p = Inr s' \<Longrightarrow> others i s s'"
  by (auto simp: tcp_acknowledge_def Let_def dest!: others_ops [where i = i] split: if_splits; blast intro: others_trans)

lemma kept_own:
  "bufs_kept {a} h h' \<Longrightarrow> c_rx_buf c = Some a \<or> c_tx_buf c = Some a \<Longrightarrow> bufs_kept (bufs_of c) h h'"
  by (erule bufs_kept_mono) (auto simp: bufs_of_def)

lemma kept_tcp_read_from_buf [kept_frames]:
  "tcp_read_from_buf s i r = Inr (s', n) \<Longrightarrow> bufs_kept (bufs_of (conn s i)) (mheap s) (mheap s')"
  by (auto simp: tcp_read_from_buf_def Let_def conn_buf_eq_Inr dest!: kept_frames;
      rule kept_own, (blast intro: bufs_kept_trans), simp)

lemma kept_tcp_write_to_buf [kept_frames]:
  "tcp_write_to_buf s i r = Inr (s', n) \<Longrightarrow> bufs_kept (ref_bufs r) (mheap s) (mheap s')"
  by (auto simp: tcp_write_to_buf_def Let_def dest!: kept_frames; blast intro: bufs_kept_trans)

lemma kept_tcp_send [kept_frames]: "tcp_send s r i flags = Inr s' \<Longrightarrow> bufs_kept (ref_bufs r) (mheap s) (mheap s')"
  by (auto simp: tcp_send_def Let_def dest!: kept_frames split: prod.splits if_splits; blast intro: bufs_kept_trans)

lemma kept_tcp_connect_read [kept_frames]:
  "tcp_connect_read s i len = Inr (s', data) \<Longrightarrow> bufs_kept (bufs_of (conn s i)) (mheap s) (mheap s')"
  by (auto simp: tcp_connect_read_def Let_def conn_buf_eq_Inr dest!: kept_frames split: prod.splits if_splits;
      rule kept_own, (blast intro: bufs_kept_trans), simp)

lemma kept_tcp_connect_write [kept_frames]:
  "tcp_connect_write s i data len = Inr (s', n) \<Longrightarrow> bufs_kept (bufs_of (conn s i)) (mheap s) (mheap s')"
  by (auto simp: tcp_connect_write_def Let_def conn_buf_eq_Inr dest!: kept_frames split: prod.splits if_splits;
      rule kept_own, (blast intro: bufs_kept_trans bufs_kept_any), simp)

lemma kept_tcp_acknowledge [kept_frames]:
  "tcp_acknowledge s i p = Inr s' \<Longrightarrow> bufs_kept (bufs_of (conn s i)) (mheap s) (mheap s')"
  by (auto simp: tcp_acknowledge_def Let_def conn_buf_eq_Inr dest!: kept_frames split: if_splits;
      rule kept_own, (blast intro: bufs_kept_trans), simp)


subsection \<open>A segment is confined to its connection\<close>

lemma confined_keeps:
  assumes "keeps s s'" and "others i s s'" and "bufs_kept A (mheap s) (mheap s')" and "A \<subseteq> bufs_of (conn s i) \<union> R"
  shows "confined R i s s'"
proof -
  have "bufs_of (conn s' i) = bufs_of (conn s i)" using assms(1) by (intro bufs_of_view) (simp add: keeps_def)
  then show ?thesis using assms(2-4) by (auto simp: confined_def others_def intro: bufs_kept_mono)
qed

lemma confined_own:
  "keeps s s' \<Longrightarrow> others i s s' \<Longrightarrow> bufs_kept (bufs_of (conn s i)) (mheap s) (mheap s') \<Longrightarrow> confined R i s s'"
  by (erule confined_keeps) auto

lemma confined_none:
  "keeps s s' \<Longrightarrow> others i s s' \<Longrightarrow> bufs_kept (ref_bufs Txbuf) (mheap s) (mheap s') \<Longrightarrow> confined R i s s'"
  by (erule confined_keeps) auto

lemma confined_buf_do_Txbuf [confined_ops]: "buf_do f s Txbuf = Inr s' \<Longrightarrow> confined R i s s'"
  by (intro confined_none keeps_ops others_ops kept_frames)

lemma confined_buf_do_arg: "buf_do f s r = Inr s' \<Longrightarrow> confined (ref_bufs r) i s s'"
  by (intro confined_keeps [OF keeps_ops(2) others_ops(2) kept_frames(2)]) auto

lemma confined_tcp_read_from_buf [confined_ops]: "tcp_read_from_buf s i r = Inr (s', n) \<Longrightarrow> confined R i s s'"
  by (intro confined_own keeps_ops others_ops kept_frames)

lemma confined_tcp_write_to_buf [confined_ops]: "tcp_write_to_buf s i Txbuf = Inr (s', n) \<Longrightarrow> confined R i s s'"
  by (intro confined_none keeps_ops others_ops kept_frames)

lemma confined_tcp_send [confined_ops]: "tcp_send s Txbuf i flags = Inr s' \<Longrightarrow> confined R i s s'"
  by (intro confined_none keeps_ops others_ops kept_frames)

lemma confined_tcp_connect_read [confined_ops]: "tcp_connect_read s i len = Inr (s', data) \<Longrightarrow> confined R i s s'"
  by (intro confined_own keeps_ops others_ops kept_frames)

lemma confined_tcp_connect_write [confined_ops]: "tcp_connect_write s i data len = Inr (s', n) \<Longrightarrow> confined R i s s'"
  by (intro confined_own keeps_ops others_ops kept_frames)

lemma confined_tcp_acknowledge [confined_ops]: "tcp_acknowledge s i p = Inr s' \<Longrightarrow> confined R i s s'"
  by (intro confined_own keeps_ops others_ops kept_frames)

lemma confined_simps [simp]:
  "confined R i s (t\<lparr>connect_table := map_delete (connect_table t) now k\<rparr>) = confined R i s t"
  "confined R i s (t\<lparr>rand_seq := q\<rparr>) = confined R i s t" "confined R i s (t\<lparr>http_fifo_v := f\<rparr>) = confined R i s t"
  by (simp_all add: confined_def conn_def)

lemma bufs_of_update [simp]:
  "bufs_of (c\<lparr>c_ack := x\<rparr>) = bufs_of c" "bufs_of (c\<lparr>c_next_seq := x\<rparr>) = bufs_of c"
  "bufs_of (c\<lparr>c_unack_seq := x\<rparr>) = bufs_of c" "bufs_of (c\<lparr>c_state := st\<rparr>) = bufs_of c"
  "bufs_of (c\<lparr>c_remote_win := y\<rparr>) = bufs_of c" "bufs_of (c\<lparr>c_local_port := y\<rparr>) = bufs_of c"
  "bufs_of (c\<lparr>c_remote_port := y\<rparr>) = bufs_of c" "bufs_of (c\<lparr>c_ip := z\<rparr>) = bufs_of c"
  by (simp_all add: bufs_of_def)

lemma confined_tcp_handler [confined_ops]: "tcp_handler s i st = Inr s' \<Longrightarrow> confined R i s s'"
  by (auto simp: tcp_handler_def dest!: confined_ops [where R = R and i = i] split: prod.splits if_splits; blast intro: confined_trans)

lemma confined_http_handler [confined_ops]: "http_handler s i st = Inr s' \<Longrightarrow> confined R i s s'"
  by (auto simp: http_handler_def split: connect_state.splits prod.splits)

lemma confined_run_tcp [confined_ops]: "run_tcp h s i st = Inr s' \<Longrightarrow> confined R i s s'"
  by (cases h) (auto dest!: confined_ops [where R = R and i = i])

lemma confined_call_handler [confined_ops]: "call_handler run_tcp h s i st = Inr s' \<Longrightarrow> confined R i s s'"
  by (auto simp: call_handler_def dest!: confined_ops [where R = R and i = i] split: option.splits)

lemma kept_free_buf: "free_buf h a = Inr h' \<Longrightarrow> bufs_kept {a} h h'"
  by (auto simp: free_buf_def bufs_kept_def split: option.splits)

lemma kept_free_ptr: "free_ptr h p = Inr h' \<Longrightarrow> set_option p \<subseteq> A \<Longrightarrow> bufs_kept A h h'"
  by (auto simp: free_ptr_def intro: bufs_kept_mono dest!: kept_free_buf split: option.splits)

lemma kept_release:
  assumes "release_tcp_connect h c = Inr (h', c')"
  shows "bufs_kept (bufs_of c) h h'" and "bufs_of c' = bufs_of c"
  using assms by (auto simp: release_tcp_connect_def bufs_of_def intro: bufs_kept_trans dest!: kept_free_ptr [where A = "bufs_of c"] split: if_splits)

lemma confined_release_at [confined_ops]:
  assumes "release_at s i = Inr s'"
  shows "confined R i s s'"
proof -
  obtain h c where r: "release_tcp_connect (mheap s) (conn s i) = Inr (h, c)" "s' = put_conn (s\<lparr>mheap := h\<rparr>) i c"
    using assms by (auto simp: release_at_def)
  have "bufs_kept (bufs_of (conn s i) \<union> R) (mheap s) h" using kept_release(1) [OF r(1)] by (rule bufs_kept_mono) simp
  then show ?thesis using kept_release(2) [OF r(1)] by (auto simp: r(2) confined_def conn_put_conn_other)
qed

lemma confined_tcp_connect_close [confined_ops]: "tcp_connect_close s i = Inr s' \<Longrightarrow> confined R i s s'"
  by (auto simp: tcp_connect_close_def Let_def dest!: confined_ops [where R = R and i = i] split: if_splits prod.splits
      intro: confined_trans)

lemma confined_tcp_in_syn_rcvd [confined_ops]: "tcp_in_syn_rcvd run_tcp s i p = Inr s' \<Longrightarrow> confined R i s s'"
  by (auto simp: tcp_in_syn_rcvd_def Let_def dest!: confined_ops [where R = R and i = i] split: if_splits)

lemma confined_tcp_in_established [confined_ops]: "tcp_in_established run_tcp s r i p = Inr s' \<Longrightarrow> confined R i s s'"
  by (auto simp: tcp_in_established_def Let_def dest!: confined_ops [where R = R and i = i] split: if_splits prod.splits;
      blast intro: confined_trans)

lemma confined_tcp_in_fin_wait_1 [confined_ops]: "tcp_in_fin_wait_1 s i p = Inr s' \<Longrightarrow> confined R i s s'"
  by (auto simp: tcp_in_fin_wait_1_def dest!: confined_ops [where R = R and i = i] split: if_splits)

lemma confined_tcp_in_fin_wait_2 [confined_ops]: "tcp_in_fin_wait_2 s i p = Inr s' \<Longrightarrow> confined R i s s'"
  by (auto simp: tcp_in_fin_wait_2_def Let_def dest!: confined_ops [where R = R and i = i] split: if_splits; blast intro: confined_trans)

lemma confined_tcp_in_last_ack [confined_ops]: "tcp_in_last_ack run_tcp s i h p = Inr s' \<Longrightarrow> confined R i s s'"
  by (auto simp: tcp_in_last_ack_def dest!: confined_ops [where R = R and i = i] split: if_splits; blast intro: confined_trans)

lemma confined_tcp_in_state [confined_ops]: "tcp_in_state run_tcp s r i h p = Inr s' \<Longrightarrow> confined R i s s'"
  by (cases "c_state (conn s i)") (auto simp: tcp_in_state_def dest!: confined_ops [where R = R and i = i])

lemma confined_tcp_reset [confined_ops]: "tcp_reset s i key n = Inr s' \<Longrightarrow> confined R i s s'"
  by (auto simp: tcp_reset_def Let_def dest!: confined_ops [where R = R and i = i]; blast intro: confined_trans)


text \<open>A connection in state LISTEN owns no buffer, whatever its pointers say: nothing that existed changes.\<close>

lemma release_at_listen: "c_state (conn s i) = TCP_LISTEN \<Longrightarrow> release_at s i = Inr (put_conn s i (conn s i))"
  by (simp add: release_at_def release_tcp_connect_def)

lemma others_delete [simp]:
  "others i s (t\<lparr>connect_table := map_delete (connect_table t) now k\<rparr>) = others i s t"
  by (simp add: others_def conn_def)

lemma close_listen:
  assumes "tcp_connect_close s i = Inr s'" and "c_state (conn s i) = TCP_LISTEN"
  shows "bufs_kept {} (mheap s) (mheap s') \<and> others i s s'"
  using assms by (auto simp: tcp_connect_close_def Let_def release_at_listen)

lemma reset_listen:
  assumes "tcp_reset s i key n = Inr s'" and st: "c_state (conn s i) = TCP_LISTEN"
  shows "bufs_kept {} (mheap s) (mheap s') \<and> others i s s'"
proof -
  let ?s1 = "put_conn s i ((conn s i)\<lparr>c_next_seq := 0, c_ack := n + 1\<rparr>)"
  obtain s2 s3 s4 where 2: "buf_do (\<lambda>b. buf_init b 0) ?s1 Txbuf = Inr s2" and 3: "tcp_send s2 Txbuf i tcp_flags_ack_rst = Inr s3"
    and 4: "release_at s3 i = Inr s4" "s' = s4\<lparr>connect_table := map_delete (connect_table s4) (clock s4) key\<rparr>"
    using assms(1) by (auto simp: tcp_reset_def Let_def)
  have "keeps ?s1 s3" using keeps_buf_do [OF 2] keeps_tcp_send [OF 3] by (rule keeps_trans)
  then have "c_state (conn s3 i) = TCP_LISTEN" using st by (simp add: keeps_state)
  then have "s4 = put_conn s3 i (conn s3 i)" using 4(1) by (simp add: release_at_listen)
  moreover have "others i ?s1 s3" using others_buf_do [OF 2] others_tcp_send [OF 3] by (rule others_trans)
  moreover have "bufs_kept {} (mheap s) (mheap s3)"
    using kept_buf_do [OF 2] kept_tcp_send [OF 3] by (auto intro: bufs_kept_trans)
  ultimately show ?thesis by (simp add: 4(2))
qed

lemma confined_fresh:
  assumes "bufs_kept {} (mheap s) (mheap s1)" and "others i s s1"
    and "bufs_of (conn s1 i) \<subseteq> {h_next (mheap s)..}" and "confined {} i s1 s'"
  shows "bufs_kept {} (mheap s) (mheap s') \<and> others i s s'"
proof -
  have "h_bufs (mheap s') a = h_bufs (mheap s) a" if "a < h_next (mheap s)" for a
  proof -
    have "a \<notin> bufs_of (conn s1 i)" using assms(3) that by auto
    then show ?thesis using assms(1,4) that by (auto simp: confined_def bufs_kept_def)
  qed
  then show ?thesis using assms(1,2,4) by (auto simp: confined_def bufs_kept_def others_def)
qed

lemma confined_buf_do_own:
  "buf_do f s (Heapbuf a) = Inr s' \<Longrightarrow> c_rx_buf (conn s i) = Some a \<or> c_tx_buf (conn s i) = Some a \<Longrightarrow> confined R i s s'"
  by (intro confined_own keeps_ops(2) others_ops(2) kept_own [of a]) (auto dest: kept_buf_do)

lemma init_rcvd_fresh:
  assumes "init_tcp_connect_rcvd s i = Inr s'" and "c_state (conn s i) = TCP_LISTEN"
  obtains s1 where "bufs_kept {} (mheap s) (mheap s1)" and "others i s s1"
    and "bufs_of (conn s1 i) \<subseteq> {h_next (mheap s)..}" and "confined {} i s1 s'"
proof -
  obtain h1 rx where m1: "malloc_buf (mheap s) fresh_buf = (h1, rx)" by fastforce
  obtain h2 tx where m2: "malloc_buf h1 fresh_buf = (h2, tx)" by fastforce
  let ?s1 = "put_conn (s\<lparr>mheap := h2\<rparr>) i ((conn s i)\<lparr>c_rx_buf := Some rx, c_tx_buf := Some tx\<rparr>)"
  have k: "bufs_kept {} (mheap s) h1" "rx = h_next (mheap s)" "bufs_kept {} h1 h2" "tx = h_next h1"
    using kept_malloc [OF m1] kept_malloc [OF m2] by simp_all
  obtain s2 s3 where 2: "buf_do (\<lambda>b. buf_init b 0) ?s1 (Heapbuf rx) = Inr s2"
    and 3: "ebind (conn_buf (c_tx_buf (conn s2 i))) (buf_do (\<lambda>b. buf_init b 0) s2) = Inr s3"
    and s': "s' = put_conn s3 i ((conn s3 i)\<lparr>c_state := TCP_SYN_RCVD\<rparr>)"
    using assms by (auto simp: init_tcp_connect_rcvd_def Let_def m1 m2)
  have c2: "confined {} i ?s1 s2" by (rule confined_buf_do_own [OF 2]) simp
  have c3: "confined {} i s2 s3" using 3 by (auto simp: conn_buf_eq_Inr intro: confined_buf_do_own)
  have "confined {} i ?s1 s'" using confined_trans [OF c2 c3] by (simp add: s')
  moreover have "bufs_kept {} (mheap s) (mheap ?s1)" using bufs_kept_trans [OF k(1,3)] by simp
  moreover have "others i s (s\<lparr>mheap := h2\<rparr>)" by (simp add: others_def)
  then have "others i s ?s1" by simp
  moreover have "bufs_of (conn ?s1 i) \<subseteq> {h_next (mheap s)..}"
    using k by (auto simp: bufs_of_def bufs_kept_def)
  ultimately show thesis by (intro that)
qed

lemma listen_fresh:
  assumes "tcp_in_listen s i p src = Inr (s', reset)" and st: "c_state (conn s i) = TCP_LISTEN"
  shows "bufs_kept {} (mheap s) (mheap s') \<and> others i s s' \<and> (reset \<longrightarrow> s' = s)"
proof (cases "fl_rst (th_flags p) \<or> \<not> fl_syn (th_flags p)")
  case True
  then show ?thesis
    using assms(1) close_listen [OF _ st] by (auto simp: tcp_in_listen_def split: if_splits)
next
  case False
  then obtain s1 where i: "init_tcp_connect_rcvd s i = Inr s1"
    using assms(1) by (auto simp: tcp_in_listen_def)
  define c where "c = (conn s1 i)\<lparr>c_local_port := swap16 (th_dst_port16 p), c_remote_port := swap16 (th_src_port16 p),
    c_ip := src, c_unack_seq := rand_seq s1 0, c_next_seq := rand_seq s1 0,
    c_ack := swap32 (th_seq_number32 p) + 1, c_remote_win := swap16 (th_window_size16 p)\<rparr>"
  let ?s2 = "put_conn (s1\<lparr>rand_seq := \<lambda>n. rand_seq s1 (Suc n)\<rparr>) i c"
  obtain s4 where k: "buf_do (\<lambda>b. buf_init b 0) ?s2 Txbuf = Inr s4" "tcp_send s4 Txbuf i tcp_flags_ack_syn = Inr s'"
    and "\<not> reset"
    using assms(1) False i by (auto simp: tcp_in_listen_def Let_def c_def)
  obtain s0 where s0: "bufs_kept {} (mheap s) (mheap s0)" "others i s s0"
    "bufs_of (conn s0 i) \<subseteq> {h_next (mheap s)..}" "confined {} i s0 s1"
    by (rule init_rcvd_fresh [OF i st])
  note s0(4)
  also have "confined {} i s1 ?s2" by (simp add: c_def)
  also note confined_buf_do_Txbuf [OF k(1)]
  also note confined_tcp_send [OF k(2)]
  finally show ?thesis using confined_fresh [OF s0(1-3)] \<open>\<not> reset\<close> by simp
qed

lemma find_connect_heap: "tcp_find_connect s key src h = Inr (s2, i) \<Longrightarrow> mheap s2 = mheap s"
  by (auto simp: tcp_find_connect_def Let_def split: option.splits prod.splits)

lemma find_connect_bufs:
  assumes "tcp_find_connect s key src h = Inr (s2, i)" and inv: "map_inv (clock s) (connect_table s)"
  shows "conn_bufs (conn s2 i) \<subseteq> conn_bufs (conn s i)"
proof (cases "map_get (connect_table s) (clock s) (Some key)")
  case None
  let ?v = "CONNECT_LISTEN\<lparr>c_ip := src, c_handler := Some h\<rparr>"
  obtain t where t: "map_set (connect_table s) (clock s) key ?v = (t, 0)" "map_get t (clock s) (Some key) = Some i"
    "s2 = s\<lparr>connect_table := t\<rparr>"
    using assms(1) None by (auto simp: tcp_find_connect_def Let_def deref_def split: option.splits prod.splits)
  then have "map_lookup (clock s) t key = Some ?v" using nm.lookup_set [OF inv, of key ?v] by simp
  then have "conn s2 i = ?v" using t(2,3) by (simp add: map_lookup_def conn_def map_val_def)
  then show ?thesis by (simp add: conn_bufs_def CONNECT_LISTEN_def)
qed (use assms(1) in \<open>simp add: tcp_find_connect_def\<close>)

text \<open>Everything behind the lookup of the connection, the reset included.\<close>

lemma tcp_in_confined:
  assumes "tcp_in_conn run_tcp s r i h p src = Inr (s1, reset)"
    and "(if reset then tcp_reset s1 i key n else Inr s1) = Inr s'"
  shows "bufs_kept (conn_bufs (conn s i) \<union> ref_bufs r) (mheap s) (mheap s') \<and> others i s s'"
proof (cases "c_state (conn s i) = TCP_LISTEN")
  case True
  then have l: "bufs_kept {} (mheap s) (mheap s1) \<and> others i s s1 \<and> (reset \<longrightarrow> s1 = s)"
    using assms(1) by (intro listen_fresh) (simp_all add: tcp_in_conn_def)
  then have "bufs_kept {} (mheap s) (mheap s') \<and> others i s s'"
    using assms(2) True by (cases reset) (auto dest: reset_listen)
  then show ?thesis by (auto intro: bufs_kept_any)
next
  case False
  have "confined (ref_bufs r) i s s1"
    using assms(1) False
    by (auto simp: tcp_in_conn_def dest!: confined_buf_do_arg confined_ops [where R = "ref_bufs r" and i = i]
        split: if_splits intro: confined_trans)
  moreover have "confined (ref_bufs r) i s1 s'"
    using assms(2) by (auto dest: confined_tcp_reset split: if_splits)
  ultimately have "confined (ref_bufs r) i s s'" by (rule confined_trans)
  moreover have "bufs_of (conn s i) = conn_bufs (conn s i)" using False by (simp add: bufs_of_def conn_bufs_def)
  ultimately show ?thesis by (simp add: confined_def others_def)
qed


subsection \<open>Receiving refines the machine and touches one connection\<close>

text \<open>C6. The state machine: a segment that passes the checks moves the connection it belongs to,
  found or newly created, exactly as \<open>tcp_next\<close> says and takes it back to no state but LISTEN. It touches
  no other connection: all their fields stay, whatever is in the tables, and so does every packet buffer
  that existed before, except the two of this connection and the one the segment is in, if that is on
  the heap; so when every connection owns its buffers, the data of the others stays, byte for byte.\<close>

theorem tcp_in_refines_machine:
  assumes "segment_arrives s r b src p data"
    and "map_get (tcp_table s) (clock s) (Some (swap16 (th_dst_port16 p))) = Some h"
    and "tcp_find_connect s (segment_key src p) src h = Inr (s2, i)"
    and "tcp_in run_tcp s r (ip_bytes src) = Inr s'"
  shows "c_state (conn s' i) =
      tcp_next (swap32 (th_seq_number32 p) = c_ack (conn s2 i)) (th_flags p) (c_state (conn s2 i)) \<and>
    (c_state (conn s' i) = TCP_LISTEN \<or> c_state (conn s2 i) \<le> c_state (conn s' i)) \<and>
    (\<forall>j. j \<noteq> i \<longrightarrow> conn s' j = conn s j) \<and>
    (\<forall>a < h_next (mheap s). a \<notin> conn_bufs (conn s2 i) \<and> r \<noteq> Heapbuf a \<longrightarrow> h_bufs (mheap s') a = h_bufs (mheap s) a) \<and>
    (own_inv s \<longrightarrow> (\<forall>j. j \<noteq> i \<longrightarrow> (\<forall>a \<in> conn_bufs (conn s j). r \<noteq> Heapbuf a \<longrightarrow>
      h_bufs (mheap s') a = h_bufs (mheap s) a)))"
proof -
  obtain s3 reset where 3: "tcp_in_conn run_tcp s2 r i h p src = Inr (s3, reset)"
    and s': "(if reset then tcp_reset s3 i (segment_key src p) (swap32 (th_seq_number32 p)) else Inr s3) = Inr s'"
    using assms(4) unfolding tcp_in_arrives [OF assms(1-3)] by (auto split: prod.splits)
  let ?ok = "swap32 (th_seq_number32 p) = c_ack (conn s2 i)"
  note m = tcp_in_conn_moves [OF 3, of ?ok]
  have "moves s2 s' i (tcp_next ?ok (th_flags p) (c_state (conn s2 i)))"
    using m s' by (cases reset) (auto dest!: tcp_reset_moves intro: moves_trans)
  moreover note tcp_next_progress [of ?ok "th_flags p" "c_state (conn s2 i)"]
  moreover have c: "bufs_kept (conn_bufs (conn s2 i) \<union> ref_bufs r) (mheap s) (mheap s')" "others i s2 s'"
    using tcp_in_confined [OF 3 s'] find_connect_heap [OF assms(3)] by simp_all
  then have "conn s' j = conn s j" if "j \<noteq> i" for j
    using tcp_find_connect_others [OF assms(3) that] that by (simp add: others_def)
  moreover have kept: "h_bufs (mheap s') a = h_bufs (mheap s) a"
    if "a < h_next (mheap s)" "a \<notin> conn_bufs (conn s2 i)" "r \<noteq> Heapbuf a" for a
    using c(1) that by (cases r) (auto simp: bufs_kept_def)
  moreover have "h_bufs (mheap s') a = h_bufs (mheap s) a"
    if own: "own_inv s" and j: "j \<noteq> i" "a \<in> conn_bufs (conn s j)" "r \<noteq> Heapbuf a" for j a
  proof (rule kept [OF _ _ j(3)])
    show "a < h_next (mheap s)" using own j(2) unfolding own_inv_def owned_def by blast
    have "a \<notin> conn_bufs (conn s i)" using own j(1,2) unfolding own_inv_def owned_def by blast
    then show "a \<notin> conn_bufs (conn s2 i)"
      using find_connect_bufs [OF assms(3)] own by (auto simp: own_inv_def)
  qed
  ultimately show ?thesis by (simp add: moves_def)
qed

theorem tcp_in_refines_machine_witness:
  "\<exists>s' i. tcp_in run_tcp (demo_listen (tcp_flags_null\<lparr>fl_syn := True\<rparr>)) Rxbuf (ip_bytes (10, 0, 0, 9)) = Inr s' \<and>
    c_state (conn s' i) = TCP_SYN_RCVD"
proof -
  define f where "f = tcp_flags_null\<lparr>fl_syn := True\<rparr>"
  define p where "p = sent_hdr (10, 0, 0, 9) demo_client f []"
  note prem = demo_syn_premises [folded f_def, folded p_def]
  obtain t i where t: "tcp_find_connect (demo_listen f) (segment_key (10, 0, 0, 9) p) (10, 0, 0, 9) 0 =
      Inr ((demo_listen f)\<lparr>connect_table := t\<rparr>, i)"
    "map_val t i = CONNECT_LISTEN\<lparr>c_ip := (10, 0, 0, 9), c_handler := Some 0\<rparr>"
    by (rule tcp_find_connect_new [OF prem(5-7)])
  obtain s' where s': "tcp_in run_tcp (demo_listen f) Rxbuf (ip_bytes (10, 0, 0, 9)) = Inr s'"
    by (rule demo_syn_reply [folded f_def])
  have "c_state (conn ((demo_listen f)\<lparr>connect_table := t\<rparr>) i) = TCP_LISTEN"
    by (simp add: conn_def t(2) CONNECT_LISTEN_def)
  then have "c_state (conn s' i) = TCP_SYN_RCVD"
    using tcp_in_refines_machine [OF prem(1,4) t(1) s'] prem(2,3) by (simp add: tcp_next_def)
  with s' show ?thesis unfolding f_def by blast
qed

end
