(* ===== verification/Driver.thy ===== *)
theory Driver
  imports State
begin

text \<open>
  Opening the network interface (\<^verbatim>\<open>driver_open\<close> and \<^verbatim>\<open>driver_find\<close> of \<^verbatim>\<open>src/driver.c\<close>); sending and
  receiving are in \<open>State\<close>. libpcap is a parameter: a record \<open>pcap_lib\<close> of the functions the
  driver calls. The linked lists of interfaces and addresses that libpcap hands out are lists. On
  Windows the driver first loads the Npcap libraries; whether that succeeds is a parameter of
  \<open>driver_open\<close>, absent on other systems.

  Which interface is chosen is shown in \<open>DriverProps\<close>.
\<close>

subsection \<open>Interfaces and libpcap\<close>

definition AF_INET :: u16 where "AF_INET = 2"
definition PCAP_BUF_SIZE :: nat where "PCAP_BUF_SIZE = 1024"

text \<open>The bytes of the netmask \<^verbatim>\<open>0xffffffff\<close>.\<close>

definition PCAP_NETMASK_UNKNOWN :: ip_addr where
  "PCAP_NETMASK_UNKNOWN = (0xff, 0xff, 0xff, 0xff)"

text \<open>The status codes of libpcap, as their documentation gives them; 0 is success.\<close>

datatype pcap_error =
    PCAP_ERROR | PCAP_ERROR_BREAK | PCAP_ERROR_NOT_ACTIVATED | PCAP_ERROR_ACTIVATED
  | PCAP_ERROR_NO_SUCH_DEVICE | PCAP_ERROR_RFMON_NOTSUP | PCAP_ERROR_NOT_RFMON
  | PCAP_ERROR_PERM_DENIED | PCAP_ERROR_IFACE_NOT_UP | PCAP_ERROR_CANTSET_TSTAMP_TYPE
  | PCAP_ERROR_PROMISC_PERM_DENIED | PCAP_ERROR_TSTAMP_PRECISION_NOTSUP

fun pcap_error_code :: "pcap_error \<Rightarrow> int" where
  "pcap_error_code PCAP_ERROR = -1"
| "pcap_error_code PCAP_ERROR_BREAK = -2"
| "pcap_error_code PCAP_ERROR_NOT_ACTIVATED = -3"
| "pcap_error_code PCAP_ERROR_ACTIVATED = -4"
| "pcap_error_code PCAP_ERROR_NO_SUCH_DEVICE = -5"
| "pcap_error_code PCAP_ERROR_RFMON_NOTSUP = -6"
| "pcap_error_code PCAP_ERROR_NOT_RFMON = -7"
| "pcap_error_code PCAP_ERROR_PERM_DENIED = -8"
| "pcap_error_code PCAP_ERROR_IFACE_NOT_UP = -9"
| "pcap_error_code PCAP_ERROR_CANTSET_TSTAMP_TYPE = -10"
| "pcap_error_code PCAP_ERROR_PROMISC_PERM_DENIED = -11"
| "pcap_error_code PCAP_ERROR_TSTAMP_PRECISION_NOTSUP = -12"

datatype pcap_warning =
  PCAP_WARNING | PCAP_WARNING_PROMISC_NOTSUP | PCAP_WARNING_TSTAMP_TYPE_NOTSUP

fun pcap_warning_code :: "pcap_warning \<Rightarrow> int" where
  "pcap_warning_code PCAP_WARNING = 1"
| "pcap_warning_code PCAP_WARNING_PROMISC_NOTSUP = 2"
| "pcap_warning_code PCAP_WARNING_TSTAMP_TYPE_NOTSUP = 3"

lemma pcap_error_code_neg: "pcap_error_code e < 0"
  by (cases e) simp_all

lemma pcap_warning_code_pos: "0 < pcap_warning_code w"
  by (cases w) simp_all

record sockaddr =
  sa_family :: u16
  sin_addr :: ip_addr

record pcap_addr =
  pa_addr :: "sockaddr option"
  pa_netmask :: "sockaddr option"

record pcap_if =
  pi_name :: string
  pi_addresses :: "pcap_addr list"

record ('p, 'prog) pcap_lib =
  pcap_findalldevs :: "int \<times> pcap_if list"
  pcap_open_live :: "string \<Rightarrow> int \<Rightarrow> int \<Rightarrow> int \<Rightarrow> 'p option"
  pcap_setnonblock :: "'p \<Rightarrow> int \<Rightarrow> int"
  pcap_compile :: "'p \<Rightarrow> string \<Rightarrow> int \<Rightarrow> ip_addr \<Rightarrow> int \<times> 'prog"
  pcap_setfilter :: "'p \<Rightarrow> 'prog \<Rightarrow> int"

subsection \<open>The Npcap libraries on Windows\<close>

text \<open>
  \<open>get_dir\<close> and \<open>set_dir\<close> are \<^verbatim>\<open>GetSystemDirectory\<close> (its result and the directory it writes) and
  \<^verbatim>\<open>SetDllDirectory\<close>. \<^verbatim>\<open>_tcscat_s\<close> stops the program when the result and its NUL do not fit.
\<close>

definition LoadNpcapDlls :: "(nat \<Rightarrow> nat \<times> string) \<Rightarrow> (string \<Rightarrow> int) \<Rightarrow> bool res" where
  "LoadNpcapDlls get_dir set_dir =
     (case get_dir 480 of (len, npcap_dir) \<Rightarrow>
        if len = 0 then Inr False
        else
          let dir = npcap_dir @ [CHR 0x5C] @ ''Npcap'' in
          ebind (guard_else (length dir + 1 \<le> 512) AssertFailed) (\<lambda>_.
          Inr (set_dir dir \<noteq> 0)))"

subsection \<open>Choosing the interface\<close>

text \<open>The inner loop: the entry of \<^verbatim>\<open>match\<close> for one interface, from its addresses in turn.\<close>

definition is_inet :: "pcap_addr \<Rightarrow> bool" where
  "is_inet a = (case pa_addr a of None \<Rightarrow> False | Some sa \<Rightarrow> sa_family sa = AF_INET)"

fun match_addrs :: "ip_addr \<Rightarrow> pcap_addr list \<Rightarrow> u8 \<Rightarrow> u8 res" where
  "match_addrs ip [] m = Inr m"
| "match_addrs ip (a # as) m =
     (case pa_addr a of
        None \<Rightarrow> match_addrs ip as m
      | Some sa \<Rightarrow>
          if sa_family sa = AF_INET then
            ebind (deref (pa_netmask a) NullDeref) (\<lambda>mask_v.
            let m1 = ip_prefix_match ip (sin_addr sa) in
            match_addrs ip as
              (if m1 < ip_prefix_match PCAP_NETMASK_UNKNOWN (sin_addr mask_v) then 0 else m1))
          else match_addrs ip as m)"

text \<open>The outer loop: \<^verbatim>\<open>match\<close> has \<^verbatim>\<open>PCAP_BUF_SIZE\<close> entries.\<close>

fun match_devs :: "ip_addr \<Rightarrow> nat \<Rightarrow> pcap_if list \<Rightarrow> u8 list res" where
  "match_devs ip if_num [] = Inr []"
| "match_devs ip if_num (d # ds) =
     ebind (guard_else (list_ex is_inet (pi_addresses d) \<longrightarrow> if_num < PCAP_BUF_SIZE) OutOfBounds) (\<lambda>_.
     ebind (match_addrs ip (pi_addresses d) 0) (\<lambda>m.
     ebind (match_devs ip (Suc if_num) ds) (\<lambda>ms. Inr (m # ms))))"

text \<open>The largest entry and where it stands.\<close>

fun max_match_loop :: "u8 list \<Rightarrow> nat \<Rightarrow> u8 \<Rightarrow> nat \<Rightarrow> u8 \<times> nat" where
  "max_match_loop [] i max_match max_if = (max_match, max_if)"
| "max_match_loop (m # ms) i max_match max_if =
     (if m > max_match then max_match_loop ms (Suc i) m i
      else max_match_loop ms (Suc i) max_match max_if)"

fun last_mask :: "pcap_addr list \<Rightarrow> ip_addr \<Rightarrow> ip_addr res" where
  "last_mask [] mask_v = Inr mask_v"
| "last_mask (a # as) mask_v =
     (if is_inet a then ebind (deref (pa_netmask a) NullDeref) (\<lambda>m. last_mask as (sin_addr m))
      else last_mask as mask_v)"

text \<open>
  The result is the status with what was left in \<^verbatim>\<open>if_name\<close> (none when it was not written) and
  in \<^verbatim>\<open>mask\<close>.
\<close>

definition driver_find ::
  "('p, 'prog) pcap_lib \<Rightarrow> ip_addr \<Rightarrow> ip_addr \<Rightarrow> (int \<times> string option \<times> ip_addr) res" where
  "driver_find lib ip mask_v =
     (case pcap_findalldevs lib of (st, alldevs) \<Rightarrow>
        if st = -1 then Inr (-1, None, mask_v)
        else
          ebind (match_devs ip 0 alldevs) (\<lambda>match.
          let if_num = length alldevs in
          if if_num = 0 then Inr (-1, None, mask_v)
          else
            ebind (guard_else (if_num \<le> PCAP_BUF_SIZE) OutOfBounds) (\<lambda>_.
            case max_match_loop match 0 0 0 of (max_match, max_if) \<Rightarrow>
              if max_match = 0 then Inr (-1, None, mask_v)
              else if max_match = 32 then Inr (-1, None, mask_v)
              else
                let d = alldevs ! max_if in
                ebind (last_mask (pi_addresses d) mask_v) (\<lambda>mask_v'.
                ebind (guard_else (length (pi_name d) + 1 \<le> PCAP_BUF_SIZE) OutOfBounds) (\<lambda>_.
                Inr (0, Some (pi_name d), mask_v'))))))"

subsection \<open>Opening\<close>

text \<open>\<open>fmt_02x\<close> is \<^verbatim>\<open>%02x\<close> of a byte.\<close>

definition hex_char :: "nat \<Rightarrow> char" where
  "hex_char d = (if d < 10 then char_of (48 + d) else char_of (87 + d))"

definition fmt_02x :: "u8 \<Rightarrow> string" where
  "fmt_02x b = [hex_char (unat b div 16), hex_char (unat b mod 16)]"

definition mac_02x :: "mac_addr \<Rightarrow> string" where
  "mac_02x mac = (case mac of (a, b, c, d, e, f) \<Rightarrow>
     fmt_02x a @ '':'' @ fmt_02x b @ '':'' @ fmt_02x c @ '':'' @
     fmt_02x d @ '':'' @ fmt_02x e @ '':'' @ fmt_02x f)"

definition filter_exp :: string where
  "filter_exp = ''(ether dst '' @ mac_02x NET_IF_MAC @
     '' or ether broadcast) and (not ether src '' @ mac_02x NET_IF_MAC @ '')''"

text \<open>The status, and the handle left in the global \<^verbatim>\<open>pcap\<close>.\<close>

definition driver_open :: "bool option \<Rightarrow> ('p, 'prog) pcap_lib \<Rightarrow> ip_addr \<Rightarrow> (int \<times> 'p option) res" where
  "driver_open npcap_loaded lib mask0 =
     (if npcap_loaded = Some False then Inr (-1, None)
      else
        ebind (driver_find lib net_if_ip mask0) (\<lambda>(st, if_name, mask_v).
        if st < 0 then Inr (-1, None)
        else
          (case pcap_open_live lib (the if_name) 65536 1 10 of
             None \<Rightarrow> Inr (-1, None)
           | Some pcap \<Rightarrow>
               if pcap_setnonblock lib pcap 1 < 0 then Inr (-1, Some pcap)
               else
                 ebind (guard_else (length filter_exp + 1 \<le> PCAP_BUF_SIZE) OutOfBounds) (\<lambda>_.
                 case pcap_compile lib pcap filter_exp 0 mask_v of (st2, fp) \<Rightarrow>
                   if st2 < 0 then Inr (-1, Some pcap)
                   else if pcap_setfilter lib pcap fp < 0 then Inr (-1, Some pcap)
                   else Inr (0, Some pcap)))))"

end
