(* ===== verification/Net.thy ===== *)
theory Net
  imports App Driver
begin

text \<open>
  The protocol dispatcher, initialisation and polling (\<^verbatim>\<open>src/net.c\<close>). \<open>net_in\<close> calls the handlers
  and one of them, \<open>ip_in\<close>, calls \<open>net_in\<close> again: the first argument bounds the depth of these
  calls. Two levels are enough in every state the program reaches (\<open>net_in_depth\<close> in \<open>Dispatch\<close>): a protocol
  number of an IP header has 8 bits, and the number that \<open>ip_in\<close> is registered under does not
  fit them.
\<close>

fun net_in :: "nat \<Rightarrow> net \<Rightarrow> bufref \<Rightarrow> u16 \<Rightarrow> u8 list \<Rightarrow> (net \<times> int) res" where
  "net_in 0 s r protocol src = Inl OutOfFuel"
| "net_in (Suc depth) s r protocol src =
     (case map_get (net_table s) (clock s) (Some protocol) of
        None \<Rightarrow> Inr (s, -1)
      | Some i \<Rightarrow>
          ebind (case map_val (net_table s) i of
                   H_arp_in \<Rightarrow> arp_in s r src
                 | H_ip_in \<Rightarrow> ip_in (net_in depth) s r src
                 | H_icmp_in \<Rightarrow> icmp_in s r src
                 | H_udp_in \<Rightarrow> udp_in run_udp s r src
                 | H_tcp_in \<Rightarrow> tcp_in run_tcp s r src) (\<lambda>s'.
          Inr (s', 0)))"

definition net_poll :: "net \<Rightarrow> net res" where
  "net_poll s = ethernet_poll (net_in 2) s"

text \<open>All protocols of \<^verbatim>\<open>include/config.h\<close> are switched on.\<close>

definition net_init :: "bool option \<Rightarrow> ('p, 'prog) pcap_lib \<Rightarrow> ip_addr \<Rightarrow> net \<Rightarrow> (net \<times> int) res" where
  "net_init npcap_loaded lib mask0 s =
     (let s1 = s\<lparr>net_table := map_init \<lparr>ent_key = 0, ent_val = H_arp_in, ent_time = 0\<rparr> 2 8 0 0 None\<rparr> in
      ebind (driver_open npcap_loaded lib mask0) (\<lambda>(st, _).
      if st = -1 then Inr (s1, -1)
      else
        ebind (ethernet_init s1) (\<lambda>s2.
        ebind (arp_init s2) (\<lambda>s3.
        Inr (tcp_init (udp_init (icmp_init (ip_init s3))), 0)))))"

end
