(* ===== verification/Http.thy ===== *)
theory Http
  imports Net
begin

text \<open>
  The web server of \<^verbatim>\<open>src/http.c\<close>. A C string is the list of its bytes, without the terminating
  NUL. \<open>fopen_rb\<close> stands for the file system: the contents of the file of a name, if it can be
  opened. The loops that wait for the network may run for ever; \<open>fuel\<close> bounds the number of their
  rounds, and running out of it is the fault \<open>OutOfFuel\<close>.
\<close>

definition text_bytes :: "string \<Rightarrow> u8 list" where
  "text_bytes s = map of_char s"

definition NEWLINE :: u8 where "NEWLINE = 10"
definition RETURN :: u8 where "RETURN = 13"

subsection \<open>Reading and writing a connection\<close>

text \<open>\<open>line\<close> is what stands in \<^verbatim>\<open>buf\<close> so far; its length is \<^verbatim>\<open>i\<close>.\<close>

fun get_line_loop :: "nat \<Rightarrow> net \<Rightarrow> nat \<Rightarrow> nat \<Rightarrow> u8 list \<Rightarrow> (net \<times> u8 list) res" where
  "get_line_loop fuel s tcp sz line =
     (if length line < sz then
        (case fuel of
           0 \<Rightarrow> Inl OutOfFuel
         | Suc fuel' \<Rightarrow>
             ebind (tcp_connect_read s tcp 1) (\<lambda>(s1, cs).
             case cs of
               [] \<Rightarrow> ebind (net_poll s1) (\<lambda>s2. get_line_loop fuel' s2 tcp sz line)
             | c # _ \<Rightarrow>
                 if c = NEWLINE then Inr (s1, line)
                 else ebind (net_poll s1) (\<lambda>s2.
                   get_line_loop fuel' s2 tcp sz (if c \<noteq> RETURN then line @ [c] else line))))
      else Inr (s, line))"

declare get_line_loop.simps [simp del]

text \<open>The terminating NUL goes to \<^verbatim>\<open>buf[i]\<close>, which is outside when the line fills the buffer.\<close>

definition get_line :: "nat \<Rightarrow> net \<Rightarrow> nat \<Rightarrow> nat \<Rightarrow> (net \<times> u8 list) res" where
  "get_line fuel s tcp sz =
     ebind (get_line_loop fuel s tcp sz []) (\<lambda>(s1, line).
     ebind (guard_else (length line < sz) OutOfBounds) (\<lambda>_. Inr (s1, line)))"

fun http_send :: "nat \<Rightarrow> net \<Rightarrow> nat \<Rightarrow> u8 list \<Rightarrow> nat \<Rightarrow> nat \<Rightarrow> (net \<times> nat) res" where
  "http_send fuel s tcp buf sz sent_n =
     (if sent_n < sz then
        (case fuel of
           0 \<Rightarrow> Inl OutOfFuel
         | Suc fuel' \<Rightarrow>
             ebind (tcp_connect_write s tcp (drop sent_n buf) (sz - sent_n)) (\<lambda>(s1, n).
             ebind (net_poll s1) (\<lambda>s2.
             http_send fuel' s2 tcp buf sz (sent_n + n))))
      else Inr (s, sent_n))"

declare http_send.simps [simp del]

definition content_header :: "nat \<Rightarrow> string \<Rightarrow> string \<Rightarrow> u8 list" where
  "content_header sz content_type server =
     text_bytes (''HTTP/1.1 200 OK'') @ [NEWLINE] @
     text_bytes (''Content-Length: '' @ fmt_d sz) @ [NEWLINE] @
     text_bytes (''Content-Type: '' @ content_type) @ [NEWLINE] @
     text_bytes (''Server: '' @ server) @ [NEWLINE]"

text \<open>\<^verbatim>\<open>http_send_content\<close> ends its header without the empty line; nothing calls it.\<close>

definition http_send_content :: "nat \<Rightarrow> net \<Rightarrow> nat \<Rightarrow> string \<Rightarrow> u8 list \<Rightarrow> nat \<Rightarrow> net res" where
  "http_send_content fuel s tcp content_type content sz =
     (let header = content_header sz content_type ''ChiServer''; len = length header in
      ebind (guard_else (len + 1 \<le> 4096) OutOfBounds) (\<lambda>_.
      ebind (guard_else (sz \<le> length content \<and> len + sz \<le> 4096) OutOfBounds) (\<lambda>_.
      ebind (http_send fuel s tcp (header @ take sz content) (len + sz) 0) (\<lambda>(s1, _).
      Inr s1))))"

definition close_http :: "net \<Rightarrow> nat \<Rightarrow> net res" where
  "close_http s tcp = tcp_connect_close s tcp"

subsection \<open>Sending a file\<close>

text \<open>The loop over the blocks that \<^verbatim>\<open>fread\<close> returns; the last one may be shorter than the buffer.\<close>

function send_blocks :: "nat \<Rightarrow> net \<Rightarrow> nat \<Rightarrow> u8 list \<Rightarrow> net res" where
  "send_blocks fuel s tcp rest =
     (if rest = [] then Inr s
      else
        let block = take 1024 rest in
        ebind (http_send fuel s tcp block (length block) 0) (\<lambda>(s1, _).
        send_blocks fuel s1 tcp (drop 1024 rest)))"
  by pat_completeness auto
termination
  by (relation "measure (\<lambda>(fuel, s, tcp, rest). length rest)") auto

declare send_blocks.simps [simp del]

definition send_local_file :: "nat \<Rightarrow> net \<Rightarrow> nat \<Rightarrow> u8 list option \<Rightarrow> string \<Rightarrow> (net \<times> bool) res" where
  "send_local_file fuel s tcp f content_type =
     (case f of
        None \<Rightarrow> Inr (s, False)
      | Some bytes \<Rightarrow>
          let header = content_header (length bytes) content_type ''ChiServer/0.1'' @ [NEWLINE];
              len = length header in
          ebind (guard_else (len + 1 \<le> 1024) OutOfBounds) (\<lambda>_.
          ebind (http_send fuel s tcp header len 0) (\<lambda>(s1, n).
          ebind (guard_else (n = len) AssertFailed) (\<lambda>_.
          ebind (send_blocks fuel s1 tcp bytes) (\<lambda>s2.
          Inr (s2, True))))))"

text \<open>The two pointers advance together; \<open>str_same\<close> is the loop and the final test.\<close>

fun str_same :: "u8 list \<Rightarrow> u8 list \<Rightarrow> bool" where
  "str_same (x # xs) (y # ys) = (if x = y then str_same xs ys else False)"
| "str_same [] [] = True"
| "str_same _ _ = False"

definition str_endswith :: "u8 list option \<Rightarrow> u8 list option \<Rightarrow> bool res" where
  "str_endswith s patten =
     (case (patten, s) of
        (Some p, Some t) \<Rightarrow>
          ebind (guard_else (length p \<le> length t) OutOfBounds) (\<lambda>_.
          Inr (str_same (drop (length t - length p) t) p))
      | _ \<Rightarrow> Inr False)"

definition XHTTP_DOC_DIR :: string where "XHTTP_DOC_DIR = ''../htmldocs''"

definition SLASH :: u8 where "SLASH = 47"

definition file_path_of :: "u8 list \<Rightarrow> u8 list" where
  "file_path_of url =
     text_bytes XHTTP_DOC_DIR @ [SLASH] @
     (if url = [SLASH] then text_bytes ''index.html''
      else if hd url = SLASH then tl url else url)"

text \<open>\<^verbatim>\<open>sizeof(content_404)\<close> counts the terminating NUL.\<close>

definition content_404 :: "u8 list" where
  "content_404 =
     text_bytes ''HTTP/1.1 404 NOT FOUND'' @ [NEWLINE] @
     text_bytes ''Content-Type: text/html'' @ [NEWLINE] @
     text_bytes ''Content-Length: 233'' @ [NEWLINE] @
     text_bytes ''Server: ChiServer/0.1'' @ [NEWLINE] @ [NEWLINE] @
     text_bytes ''<!DOCTYPE HTML PUBLIC '' @ [34] @
     text_bytes ''-//W3C//DTD HTML 3.2 Final//EN'' @ [34] @ text_bytes ''>'' @ [NEWLINE] @
     text_bytes ''<title>404 Not Found</title>'' @ [NEWLINE] @
     text_bytes ''<h1>Not Found</h1>'' @ [NEWLINE] @
     text_bytes ''<p>The requested URL was not found on the server.  If you entered the URL manually please check your spelling and try again.</p>'' @
     [0]"

definition send_file ::
  "(u8 list \<Rightarrow> u8 list option) \<Rightarrow> nat \<Rightarrow> net \<Rightarrow> nat \<Rightarrow> u8 list \<Rightarrow> net res" where
  "send_file fopen_rb fuel s tcp url =
     (if url = [] then Inr s
      else
        let file_path = file_path_of url in
        ebind (guard_else (length file_path + 1 \<le> 255) OutOfBounds) (\<lambda>_.
        let f = fopen_rb file_path in
        ebind (str_endswith (Some file_path) (Some (text_bytes ''.jpg''))) (\<lambda>jpg.
        ebind (str_endswith (Some file_path) (Some (text_bytes ''.css''))) (\<lambda>css.
        let content_type = (if jpg then ''image/jpeg'' else if css then ''text/css'' else ''text/html'') in
        ebind (send_local_file fuel s tcp f content_type) (\<lambda>(s1, ok).
        if \<not> ok then
          ebind (http_send fuel s1 tcp content_404 (length content_404) 0) (\<lambda>(s2, _). Inr s2)
        else Inr s1)))))"

subsection \<open>The server\<close>

text \<open>\<^verbatim>\<open>tcp_open\<close> returns 0 when it succeeds, and the test takes that for a failure.\<close>

definition http_server_open :: "net \<Rightarrow> u16 \<Rightarrow> net \<times> int" where
  "http_server_open s port =
     (case tcp_open s port H_http_handler of (s1, st) \<Rightarrow>
        if st = 0 then (s1, -1)
        else (s1\<lparr>http_fifo_v := http_fifo_init (http_fifo_v s1)\<rparr>, 0))"

text \<open>\<^verbatim>\<open>strstr\<close>: what follows from the first occurrence of \<open>pat\<close> on.\<close>

fun strstr :: "u8 list \<Rightarrow> u8 list \<Rightarrow> u8 list option" where
  "strstr [] pat = (if pat = [] then Some [] else None)"
| "strstr (x # xs) pat =
     (if take (length pat) (x # xs) = pat then Some (x # xs) else strstr xs pat)"

definition SPACE :: u8 where "SPACE = 32"

text \<open>The path of a request line, if the line contains \<^verbatim>\<open>GET\<close>; a C string ends at its first NUL.\<close>

definition request_path :: "u8 list \<Rightarrow> u8 list option" where
  "request_path rx_buffer =
     (case strstr (takeWhile (\<lambda>c. c \<noteq> 0) rx_buffer) (text_bytes ''GET'') of
        None \<Rightarrow> None
      | Some p \<Rightarrow> Some (takeWhile (\<lambda>c. c \<noteq> SPACE) (dropWhile (\<lambda>c. c = SPACE) (drop 3 p))))"

definition http_serve ::
  "(u8 list \<Rightarrow> u8 list option) \<Rightarrow> nat \<Rightarrow> net \<Rightarrow> nat \<Rightarrow> net res" where
  "http_serve fopen_rb fuel s tcp =
     ebind (get_line fuel s tcp 1024) (\<lambda>(s1, rx_buffer).
     if length rx_buffer = 0 then close_http s1 tcp
     else
       (case request_path rx_buffer of
          None \<Rightarrow> close_http s1 tcp
        | Some path \<Rightarrow>
            ebind (send_file fopen_rb fuel s1 tcp path) (\<lambda>s2.
            close_http s2 tcp)))"

fun http_server_run :: "(u8 list \<Rightarrow> u8 list option) \<Rightarrow> nat \<Rightarrow> net \<Rightarrow> net res" where
  "http_server_run fopen_rb fuel s =
     ebind (http_fifo_out (http_fifo_v s)) (\<lambda>(f, tcp).
     let s1 = s\<lparr>http_fifo_v := f\<rparr> in
     case tcp of
       None \<Rightarrow> Inr s1
     | Some i \<Rightarrow>
         (case fuel of
            0 \<Rightarrow> Inl OutOfFuel
          | Suc fuel' \<Rightarrow>
              ebind (http_serve fopen_rb fuel s1 i) (\<lambda>s2. http_server_run fopen_rb fuel' s2)))"

declare http_server_run.simps [simp del]

end
