(* ===== verification/Main_Loop.thy ===== *)
theory Main_Loop
  imports Http
begin

text \<open>
  The main program (\<^verbatim>\<open>src/main.c\<close>). The clock advances between the rounds of the main loop: the
  readings are a list, one for each round, and the model runs as many rounds. \<open>srand_seq\<close> gives the
  sequence of \<^verbatim>\<open>rand()\<close> for a seed.
\<close>

subsection \<open>The static variables at program start\<close>

text \<open>
  Static memory is zero: tables without slots, no queues, and buffers with their \<^verbatim>\<open>data\<close> pointer
  not yet pointing anywhere (offset 0 here; every buffer is initialised before its first use).
\<close>

definition zero_map :: "'k \<Rightarrow> 'v \<Rightarrow> ('k, 'v) map_t" where
  "zero_map k v = \<lparr>m_key_len = 0, m_value_len = 0, m_size = 0, m_max_size = 0, m_timeout = 0,
     m_ctor = (\<lambda>_ w. w), m_data = (\<lambda>_. \<lparr>ent_key = k, ent_val = v, ent_time = 0\<rparr>)\<rparr>"

definition arp_static :: "net \<Rightarrow> net" where
  "arp_static s = s\<lparr>arp_table := zero_map (0, 0, 0, 0) (0, 0, 0, 0, 0, 0),
     arp_buf := zero_map (0, 0, 0, 0) \<lparr>q_head = None, q_tail = None\<rparr>\<rparr>"

definition ip_static :: "net \<Rightarrow> net" where
  "ip_static s = s\<lparr>ip_id := 0\<rparr>"

definition udp_static :: "net \<Rightarrow> net" where
  "udp_static s = s\<lparr>udp_table := zero_map 0 H_udp_handler\<rparr>"

definition tcp_static :: "net \<Rightarrow> net" where
  "tcp_static s = s\<lparr>tcp_table := zero_map 0 H_tcp_handler,
     connect_table := zero_map (new_tcp_key (0, 0, 0, 0) 0 0) CONNECT_LISTEN\<rparr>"

definition delete_port_static :: "net \<Rightarrow> net" where
  "delete_port_static s = s\<lparr>delete_port := 0\<rparr>"

definition http_static :: "net \<Rightarrow> net" where
  "http_static s = s\<lparr>http_fifo_v := \<lparr>f_buffer = (\<lambda>_. 0), f_front = 0, f_tail = 0, f_count = 0\<rparr>\<rparr>"

subsection \<open>Initialisation and the main loop\<close>

definition main_init ::
  "(u32 \<Rightarrow> nat \<Rightarrow> u32) \<Rightarrow> bool option \<Rightarrow> ('p, 'prog) pcap_lib \<Rightarrow> ip_addr \<Rightarrow> net \<Rightarrow> (net \<times> int) res" where
  "main_init srand_seq npcap_loaded lib mask0 s =
     (let s0 = s\<lparr>rand_seq := srand_seq 0x55aa\<rparr> in
      ebind (net_init npcap_loaded lib mask0 s0) (\<lambda>(s1, st).
      if st \<noteq> 0 then Inr (s1, -1)
      else
        let s2 = fst (udp_open s1 60000 H_udp_handler);
            s3 = fst (tcp_open s2 61000 H_tcp_handler);
            s4 = fst (http_server_open s3 62000)
        in Inr (s4, 0)))"

definition main_step :: "(u8 list \<Rightarrow> u8 list option) \<Rightarrow> nat \<Rightarrow> net \<Rightarrow> net res" where
  "main_step fopen_rb fuel s =
     ebind (net_poll s) (\<lambda>s1. http_server_run fopen_rb fuel s1)"

fun main_loop :: "(u8 list \<Rightarrow> u8 list option) \<Rightarrow> nat \<Rightarrow> int list \<Rightarrow> net \<Rightarrow> net res" where
  "main_loop fopen_rb fuel [] s = Inr s"
| "main_loop fopen_rb fuel (t # ts) s =
     ebind (main_step fopen_rb fuel (s\<lparr>clock := t\<rparr>)) (\<lambda>s1. main_loop fopen_rb fuel ts s1)"

end
