(* ===== verification/System.thy ===== *)
theory System
  imports Main_Loop TcpStates
begin

text \<open>
  The whole program. \<open>safe s s'\<close>: from \<open>s\<close> to \<open>s'\<close> the tables of handlers and the clock stay, and if
  every open connection owned its buffers before, it does so after. Every operation that can run
  in the main loop is safe, whatever the packets, the files and the fuel, and so is the loop.
\<close>

subsection \<open>The layers below TCP free no packet buffer\<close>

lemma heap_free_node: "free_node h a = Inr h' \<Longrightarrow> heap_grows h h'"
  by (auto simp: free_node_def heap_grows_def items_some_def node_read_def split: option.splits if_splits)

lemma heap_free_nodes [heap_frames]: "free_nodes_loop fuel h p = Inr h' \<Longrightarrow> heap_grows h h'"
  by (induction fuel h p rule: free_nodes_loop.induct)
    (auto dest!: heap_free_node intro: heap_grows_trans)

lemma heap_queue_pop [heap_frames]: "queue_pop h q = Inr (h', q', x) \<Longrightarrow> heap_grows h h'"
  by (auto simp: queue_pop_def Let_def dest!: heap_free_node split: option.splits if_splits)

lemma queue_pop_None: "queue_pop h q = Inr (h', q', None) \<Longrightarrow> items_some h \<Longrightarrow> q_head q' = None"
  by (auto simp: queue_pop_def node_read_def free_node_def items_some_def Let_def split: option.splits if_splits; force)

text \<open>
  Freeing a queue with its items frees nothing when the queue is empty, and it always is when
  \<open>arp_in\<close> does that: the loop before has taken everything out.
\<close>

lemma heap_arp_flush:
  "arp_flush n s i mac = Inr s' \<Longrightarrow> items_some (mheap s) \<Longrightarrow>
    heap_grows (mheap s) (mheap s') \<and> q_head (map_val (arp_buf s') i) = None"
proof (induction n s i mac rule: arp_flush.induct)
  case (2 n s i mac)
  from 2(2) obtain h q item where pop: "queue_pop (mheap s) (Some (map_val (arp_buf s) i)) = Inr (h, q, item)"
    by (auto split: prod.splits)
  let ?s1 = "s\<lparr>mheap := h, arp_buf := map_poke (arp_buf s) i q\<rparr>"
  have g: "heap_grows (mheap s) h" using pop by (rule heap_queue_pop)
  then have some: "items_some h" using 2(3) by (simp add: heap_grows_def)
  show ?case
  proof (cases item)
    case None
    then show ?thesis using 2(2,3) pop g queue_pop_None [of "mheap s"] by auto
  next
    case (Some a)
    then obtain s2 where s2: "ethernet_out ?s1 (Heapbuf a) mac NET_PROTOCOL_IP = Inr s2" "arp_flush n s2 i mac = Inr s'"
      using 2(2) pop by auto
    have g2: "heap_grows h (mheap s2)" using heap_ethernet_out [OF s2(1)] by simp
    then have "items_some (mheap s2)" using some by (simp add: heap_grows_def)
    from 2(1) [OF refl Some s2(2) this] show ?thesis using g g2 by (blast intro: heap_grows_trans)
  qed
qed simp

lemma heap_free_empty: "queue_free_data h (Some q) b = Inr h' \<Longrightarrow> q_head q = None \<Longrightarrow> h' = h"
  by (auto simp: queue_free_data_def split: if_splits)

lemma heap_arp_resp [heap_frames]: "arp_resp s ip mac = Inr s' \<Longrightarrow> heap_grows (mheap s) (mheap s')"
  by (auto simp: arp_resp_def dest!: heap_frames; blast intro: heap_grows_trans)

lemma heap_arp_in [heap_frames]:
  assumes "arp_in s r src = Inr s'" and "items_some (mheap s)"
  shows "heap_grows (mheap s) (mheap s')"
  using assms
  by (auto simp: arp_in_def Let_def simp del: arp_flush.simps dest!: heap_arp_resp
      split: option.splits if_splits)
    (frule heap_arp_flush, simp, drule heap_free_empty, simp, simp)

lemma heap_icmp_resp [heap_frames]: "icmp_resp s r ip = Inr s' \<Longrightarrow> heap_grows (mheap s) (mheap s')"
  by (auto simp: icmp_resp_def Let_def dest!: heap_frames; blast intro: heap_grows_trans)

lemma heap_icmp_in [heap_frames]: "icmp_in s r src = Inr s' \<Longrightarrow> heap_grows (mheap s) (mheap s')"
  by (auto simp: icmp_in_def Let_def dest!: heap_frames split: if_splits)

lemma heap_icmp_unreachable [heap_frames]:
  "icmp_unreachable s r ip code = Inr s' \<Longrightarrow> heap_grows (mheap s) (mheap s')"
  by (auto simp: icmp_unreachable_def Let_def dest!: heap_frames; blast intro: heap_grows_trans)

lemma heap_udp_checksum [heap_frames]: "udp_checksum s r a b = Inr (s', c) \<Longrightarrow> heap_grows (mheap s) (mheap s')"
  by (auto simp: udp_checksum_def Let_def dest!: heap_frames split: prod.splits if_splits; blast intro: heap_grows_trans)

lemma heap_udp_out [heap_frames]: "udp_out s r sp ip dp = Inr s' \<Longrightarrow> heap_grows (mheap s) (mheap s')"
  by (auto simp: udp_out_def Let_def dest!: heap_frames split: prod.splits; blast intro: heap_grows_trans)

lemma heap_udp_send [heap_frames]: "udp_send s data len sp ip dp = Inr s' \<Longrightarrow> heap_grows (mheap s) (mheap s')"
  by (auto simp: udp_send_def Let_def dest!: heap_frames split: prod.splits; blast intro: heap_grows_trans)

subsection \<open>Safe operations\<close>

definition safe :: "net \<Rightarrow> net \<Rightarrow> bool" where
  "safe s s' \<longleftrightarrow> ports s' = ports s \<and> (own_inv s \<longrightarrow> own_inv s')"

named_theorems safe_ops \<open>operations that are safe\<close>

lemma safe_refl [simp]: "safe s s"
  by (simp add: safe_def)

lemma safe_trans [trans]: "safe s s1 \<Longrightarrow> safe s1 s2 \<Longrightarrow> safe s s2"
  by (simp add: safe_def)

lemma safe_keeps: "keeps s s' \<Longrightarrow> safe s s'"
  by (auto simp: safe_def keeps_ports intro: own_keeps)

lemma safe_below: "upper s' = upper s \<Longrightarrow> (items_some (mheap s) \<Longrightarrow> heap_grows (mheap s) (mheap s')) \<Longrightarrow> safe s s'"
  unfolding safe_def using ports_upper by (metis keepsI own_inv_def own_keeps owned_def)

lemma safe_buf_do [safe_ops]: "buf_do f s r = Inr s' \<Longrightarrow> safe s s'"
  by (intro safe_keeps keeps_ops)

lemma safe_mem_write [safe_ops]: "mem_write s r off bs = Inr s' \<Longrightarrow> safe s s'"
  by (intro safe_keeps keeps_ops)

lemma safe_arp_in [safe_ops]: "arp_in s r src = Inr s' \<Longrightarrow> safe s s'"
  by (intro safe_below upper_arp_in heap_arp_in)

lemma safe_icmp_in [safe_ops]: "icmp_in s r src = Inr s' \<Longrightarrow> safe s s'"
  by (intro safe_below upper_icmp_in heap_icmp_in)

lemma safe_icmp_unreachable [safe_ops]: "icmp_unreachable s r ip code = Inr s' \<Longrightarrow> safe s s'"
  by (intro safe_below upper_icmp_unreachable heap_icmp_unreachable)

lemma safe_udp_checksum [safe_ops]: "udp_checksum s r a b = Inr (s', c) \<Longrightarrow> safe s s'"
  by (intro safe_below upper_udp_checksum heap_udp_checksum)

lemma safe_run_udp [safe_ops]: "run_udp h s data ip port = Inr s' \<Longrightarrow> safe s s'"
  by (cases h) (auto simp: udp_handler_def intro: safe_below upper_udp_send heap_udp_send)

lemma safe_udp_in [safe_ops]: "udp_in run_udp s r src = Inr s' \<Longrightarrow> safe s s'"
  by (auto simp: udp_in_def Let_def dest!: safe_ops split: if_splits option.splits prod.splits;
      blast intro: safe_trans)

lemma safe_tcp_in [safe_ops]: "tcp_in run_tcp s r src = Inr s' \<Longrightarrow> safe s s'"
  by (auto simp: safe_def intro: own_segment ports_tcp_in)

lemma safe_ip_in:
  assumes "ip_in dispatch s r src = Inr s'"
    and "\<And>s p x s' st. dispatch s r p x = Inr (s', st) \<Longrightarrow> safe s s'"
  shows "safe s s'"
  using assms(1)
  by (auto simp: ip_in_def Let_def dest!: safe_ops assms(2) split: if_splits prod.splits;
      blast intro: safe_trans)

lemma safe_net_in [safe_ops]: "net_in n s r p src = Inr (s', st) \<Longrightarrow> safe s s'"
proof (induction n arbitrary: s p src s' st)
  case (Suc n)
  then show ?case
    by (auto dest!: safe_ops safe_ip_in split: option.splits net_handler.splits)
qed simp

lemma upper_driver_recv [upper_frames]: "driver_recv s r = Inr (s', n) \<Longrightarrow> upper s' = upper s"
  by (auto simp: driver_recv_def Let_def dest!: upper_frames split: list.splits pcap_event.splits)

lemma heap_driver_recv [heap_frames]: "driver_recv s r = Inr (s', n) \<Longrightarrow> heap_grows (mheap s) (mheap s')"
  by (auto simp: driver_recv_def Let_def dest!: heap_frames intro: heap_grows_trans
      split: list.splits pcap_event.splits)

lemma safe_driver_recv [safe_ops]: "driver_recv s r = Inr (s', n) \<Longrightarrow> safe s s'"
  by (intro safe_below upper_driver_recv heap_driver_recv)

lemma safe_ethernet_in [safe_ops]: "ethernet_in (net_in n) s r = Inr s' \<Longrightarrow> safe s s'"
  by (auto simp: ethernet_in_def Let_def dest!: safe_ops split: if_splits prod.splits;
      blast intro: safe_trans)

lemma safe_net_poll [safe_ops]: "net_poll s = Inr s' \<Longrightarrow> safe s s'"
  by (auto simp: net_poll_def ethernet_poll_def dest!: safe_ops split: if_splits prod.splits;
      blast intro: safe_trans)

lemma safe_read [safe_ops]: "tcp_connect_read s i len = Inr (s', data) \<Longrightarrow> safe s s'"
  by (intro safe_keeps keeps_ops)

lemma safe_write [safe_ops]: "tcp_connect_write s i data len = Inr (s', n) \<Longrightarrow> safe s s'"
  by (intro safe_keeps keeps_ops)

lemma safe_close [safe_ops]: "tcp_connect_close s i = Inr s' \<Longrightarrow> safe s s'"
  by (auto simp: safe_def intro: own_close dest: tcp_connect_close_moves moves_ports)

lemma safe_close_http [safe_ops]: "close_http s i = Inr s' \<Longrightarrow> safe s s'"
  by (simp add: close_http_def safe_close)

subsection \<open>The web server\<close>

lemma safe_get_line_loop [safe_ops]: "get_line_loop fuel s i sz line = Inr (s', l) \<Longrightarrow> safe s s'"
proof (induction fuel arbitrary: s line)
  case 0
  then show ?case by (subst (asm) get_line_loop.simps) (auto split: if_splits)
next
  case (Suc fuel)
  from Suc(2) show ?case
    by (subst (asm) get_line_loop.simps)
      (auto dest!: safe_ops Suc(1) split: if_splits list.splits; blast intro: safe_trans)
qed

lemma safe_get_line [safe_ops]: "get_line fuel s i sz = Inr (s', l) \<Longrightarrow> safe s s'"
  by (auto simp: get_line_def dest!: safe_ops split: prod.splits)

lemma safe_http_send [safe_ops]: "http_send fuel s i buf sz n = Inr (s', m) \<Longrightarrow> safe s s'"
proof (induction fuel arbitrary: s n)
  case 0
  then show ?case by (subst (asm) http_send.simps) (auto split: if_splits)
next
  case (Suc fuel)
  from Suc(2) show ?case
    by (subst (asm) http_send.simps)
      (auto dest!: safe_ops Suc(1) split: if_splits; blast intro: safe_trans)
qed

lemma safe_send_blocks [safe_ops]: "send_blocks fuel s i rest = Inr s' \<Longrightarrow> safe s s'"
proof (induction fuel s i rest rule: send_blocks.induct)
  case (1 fuel s i rest)
  from 1(2) show ?case
    by (subst (asm) send_blocks.simps)
      (auto simp: Let_def dest!: safe_ops 1(1) [OF _ refl] split: if_splits; blast intro: safe_trans)
qed

lemma safe_send_local_file [safe_ops]: "send_local_file fuel s i f ct = Inr (s', ok) \<Longrightarrow> safe s s'"
  by (auto simp: send_local_file_def Let_def dest!: safe_ops split: option.splits; blast intro: safe_trans)

lemma safe_send_file [safe_ops]: "send_file fopen_rb fuel s i url = Inr s' \<Longrightarrow> safe s s'"
  by (auto simp: send_file_def Let_def dest!: safe_ops split: if_splits; blast intro: safe_trans)

lemma safe_http_serve [safe_ops]: "http_serve fopen_rb fuel s i = Inr s' \<Longrightarrow> safe s s'"
  by (auto simp: http_serve_def dest!: safe_ops split: if_splits option.splits; blast intro: safe_trans)

lemma safe_fifo [simp]: "safe s (t\<lparr>http_fifo_v := f\<rparr>) = safe s t" "safe (s\<lparr>http_fifo_v := f\<rparr>) t = safe s t"
proof -
  have "own_inv (t\<lparr>http_fifo_v := f\<rparr>) = own_inv t" for t
  proof -
    have "conn (t\<lparr>http_fifo_v := f\<rparr>) = conn t" by (rule ext) (simp add: conn_def)
    then show ?thesis by (simp add: own_inv_def)
  qed
  then show "safe s (t\<lparr>http_fifo_v := f\<rparr>) = safe s t" "safe (s\<lparr>http_fifo_v := f\<rparr>) t = safe s t"
    by (simp_all add: safe_def ports_def)
qed

lemma safe_server_run [safe_ops]: "http_server_run fopen_rb fuel s = Inr s' \<Longrightarrow> safe s s'"
proof (induction fuel arbitrary: s)
  case 0
  then show ?case by (subst (asm) http_server_run.simps) (auto simp: Let_def split: option.splits)
next
  case (Suc fuel)
  from Suc(2) show ?case
    by (subst (asm) http_server_run.simps)
      (auto simp: Let_def dest!: safe_ops Suc(1) split: option.splits; blast intro: safe_trans)
qed

lemma safe_main_step [safe_ops]: "main_step fopen_rb fuel s = Inr s' \<Longrightarrow> safe s s'"
  by (auto simp: main_step_def dest!: safe_ops intro: safe_trans)

end
