(* ===== verification/Ring.thy ===== *)
theory Ring
  imports App
begin

text \<open>
  The ring of accepted connections of the web server is a queue. \<open>ring_rep f xs\<close>: the ring holds
  \<open>xs\<close>, oldest first, from its tail on. The ring interprets the interface of a queue that the linked
  queue interprets too; there is room for 40 connections.
\<close>

definition ring_rep :: "http_fifo \<Rightarrow> nat list \<Rightarrow> bool" where
  "ring_rep f xs \<longleftrightarrow>
     unat (f_count f) = length xs \<and> length xs \<le> 40 \<and> unat (f_tail f) < 40 \<and>
     unat (f_front f) = (unat (f_tail f) + length xs) mod 40 \<and>
     (\<forall>i < length xs. f_buffer f ((unat (f_tail f) + i) mod 40) = xs ! i)"

definition ring_push :: "http_fifo \<Rightarrow> nat \<Rightarrow> http_fifo res" where
  "ring_push f x = ebind (http_fifo_in f x) (\<lambda>(f', st). Inr f')"

lemma ring_rep_init: "ring_rep (http_fifo_init f) []"
  by (simp add: ring_rep_def http_fifo_init_def)

lemma unat_next_place: "unat (i :: u8) < 40 \<Longrightarrow> unat (if i + 1 \<ge> TCP_FIFO_SIZE then 0 else i + 1) = (unat i + 1) mod 40"
proof -
  assume i: "unat i < 40"
  then have "unat (i + 1) = unat i + 1"
    by (simp add: unat_word_ariths)
  with i show ?thesis by (cases "unat i = 39") (auto simp: TCP_FIFO_SIZE_def word_le_nat_alt)
qed

lemma fifo_in_full: "ring_rep f xs \<Longrightarrow> length xs = 40 \<Longrightarrow> http_fifo_in f x = Inr (f, -1)"
  by (simp add: ring_rep_def http_fifo_in_def TCP_FIFO_SIZE_def word_le_nat_alt)

lemma fifo_in_room:
  assumes rep: "ring_rep f xs" and room: "length xs < 40"
  obtains f' where "http_fifo_in f x = Inr (f', 0)" and "ring_rep f' (xs @ [x])"
proof -
  let ?t = "unat (f_tail f)" and ?fr = "unat (f_front f)"
  have r: "unat (f_count f) = length xs" "?t < 40" "?fr = (?t + length xs) mod 40"
    "\<And>i. i < length xs \<Longrightarrow> f_buffer f ((?t + i) mod 40) = xs ! i"
    using rep by (simp_all add: ring_rep_def)
  have front: "?fr < 40" using r(3) by simp
  let ?f = "f\<lparr>f_buffer := (f_buffer f)(?fr := x),
      f_front := (if f_front f + 1 \<ge> TCP_FIFO_SIZE then 0 else f_front f + 1), f_count := f_count f + 1\<rparr>"
  have "http_fifo_in f x = Inr (?f, 0)"
    using r(1) room front by (simp add: http_fifo_in_def TCP_FIFO_SIZE_def word_le_nat_alt word_less_nat_alt Let_def)
  moreover have "ring_rep ?f (xs @ [x])"
  proof -
    have count: "unat (f_count f + 1) = length xs + 1" using r(1) room by (simp add: unat_word_ariths)
    have "unat (f_front ?f) = (?t + length (xs @ [x])) mod 40"
      using unat_next_place [OF front] r(3) by (simp add: mod_Suc_eq)
    moreover have "f_buffer ?f ((?t + i) mod 40) = (xs @ [x]) ! i" if "i < length (xs @ [x])" for i
    proof (cases "i = length xs")
      case False
      then have i: "i < length xs" using that by simp
      then have "(?t + i) mod 40 \<noteq> (?t + length xs) mod 40"
      proof -
        have "\<not> 40 dvd (?t + length xs) - (?t + i)" using i room by (auto dest: dvd_imp_le)
        then show ?thesis using i mod_eq_dvd_iff_nat [of "?t + i" "?t + length xs" 40] by simp
      qed
      then show ?thesis using r(3,4) i by (simp add: nth_append)
    qed (simp add: r(3))
    ultimately show ?thesis using room r(2) count by (simp add: ring_rep_def)
  qed
  ultimately show thesis by (rule that)
qed

lemma fifo_out_empty: "ring_rep f [] \<Longrightarrow> http_fifo_out f = Inr (f, None)"
  by (simp add: ring_rep_def http_fifo_out_def word_eq_iff_unsigned unat_eq_0)

lemma fifo_out_some:
  assumes rep: "ring_rep f (x # xs)"
  obtains f' where "http_fifo_out f = Inr (f', Some x)" and "ring_rep f' xs"
proof -
  let ?t = "unat (f_tail f)"
  have r: "unat (f_count f) = Suc (length xs)" "length xs < 40" "?t < 40"
    "unat (f_front f) = (?t + Suc (length xs)) mod 40"
    "\<And>i. i < Suc (length xs) \<Longrightarrow> f_buffer f ((?t + i) mod 40) = (x # xs) ! i"
    using rep by (auto simp: ring_rep_def)
  let ?f = "f\<lparr>f_tail := (if f_tail f + 1 \<ge> TCP_FIFO_SIZE then 0 else f_tail f + 1), f_count := f_count f - 1\<rparr>"
  have ne: "f_count f \<noteq> 0" using r(1) by auto
  have "f_buffer f ?t = x" using r(5) [of 0] r(3) by simp
  then have "http_fifo_out f = Inr (?f, Some x)"
    using ne r(3) by (simp add: http_fifo_out_def TCP_FIFO_SIZE_def word_less_nat_alt Let_def)
  moreover have "ring_rep ?f xs"
  proof -
    have tail: "unat (f_tail ?f) = (?t + 1) mod 40" using unat_next_place [OF r(3)] by simp
    have "unat (f_count f - 1) = length xs" using r(1) ne by (simp add: unat_minus_one)
    moreover have "f_buffer f (((?t + 1) mod 40 + i) mod 40) = xs ! i" if "i < length xs" for i
      using r(5) [of "Suc i"] that by (simp add: mod_simps)
    moreover have "unat (f_front f) = ((?t + 1) mod 40 + length xs) mod 40"
      using r(4) by (simp add: mod_simps)
    ultimately show ?thesis using r(2) tail by (simp add: ring_rep_def)
  qed
  ultimately show thesis by (rule that)
qed

interpretation ring: fifo ring_rep "\<lambda>xs. length xs < 40" ring_push http_fifo_out
proof unfold_locales
  fix f xs x
  assume "ring_rep f xs" "length xs < 40"
  then obtain f' where "http_fifo_in f x = Inr (f', 0)" "ring_rep f' (xs @ [x])" by (rule fifo_in_room)
  then show "\<exists>f'. ring_push f x = Inr f' \<and> ring_rep f' (xs @ [x])" by (simp add: ring_push_def)
next
  fix f assume "ring_rep f []"
  then show "\<exists>f'. http_fifo_out f = Inr (f', None) \<and> ring_rep f' []" by (simp add: fifo_out_empty)
next
  fix f x xs assume "ring_rep f (x # xs)"
  then show "\<exists>f'. http_fifo_out f = Inr (f', Some x) \<and> ring_rep f' xs" by (rule fifo_out_some) blast
qed

text \<open>C27. The ring of accepted connections is a queue with 40 places: a connection that finds room is
  put behind those already waiting, one that does not is refused and the ring is unchanged, and
  what is taken out is the connection that waited longest. Any 40 connections accepted one after
  the other come out in that order, wherever in the ring they start.\<close>

theorem http_fifo_refines_queue:
  assumes "ring_rep f xs"
  shows "(if length xs < 40 then \<exists>f'. http_fifo_in f x = Inr (f', 0) \<and> ring_rep f' (xs @ [x])
      else http_fifo_in f x = Inr (f, -1)) \<and>
    (case xs of [] \<Rightarrow> http_fifo_out f = Inr (f, None)
      | y # ys \<Rightarrow> \<exists>f'. http_fifo_out f = Inr (f', Some y) \<and> ring_rep f' ys) \<and>
    (length xs + length zs \<le> 40 \<longrightarrow> (\<exists>f1 f2. push_list ring_push f zs = Inr f1 \<and>
       pop_list http_fifo_out (length xs + length zs) f1 = Inr (f2, map Some (xs @ zs)) \<and> ring_rep f2 []))"
proof (intro conjI impI)
  show "if length xs < 40 then \<exists>f'. http_fifo_in f x = Inr (f', 0) \<and> ring_rep f' (xs @ [x])
      else http_fifo_in f x = Inr (f, -1)"
  proof (cases "length xs < 40")
    case True
    then show ?thesis using fifo_in_room [OF assms True, of x] by (simp only: if_True) metis
  next
    case False
    then have "length xs = 40" using assms by (simp add: ring_rep_def)
    then show ?thesis using fifo_in_full [OF assms, of x] by simp
  qed
  show "case xs of [] \<Rightarrow> http_fifo_out f = Inr (f, None)
      | y # ys \<Rightarrow> \<exists>f'. http_fifo_out f = Inr (f', Some y) \<and> ring_rep f' ys"
  proof (cases xs)
    case Nil
    then show ?thesis using assms fifo_out_empty by simp
  next
    case (Cons y ys)
    with fifo_out_some [of f y ys] assms show ?thesis by simp metis
  qed
  assume "length xs + length zs \<le> 40"
  then have "\<forall>i < length zs. length (xs @ take i zs) < 40" by auto
  from ring.push_then_pop [OF assms this] show "\<exists>f1 f2. push_list ring_push f zs = Inr f1 \<and>
      pop_list http_fifo_out (length xs + length zs) f1 = Inr (f2, map Some (xs @ zs)) \<and> ring_rep f2 []"
    by metis
qed

theorem http_fifo_refines_queue_witness:
  "\<exists>f1 f2. push_list ring_push (http_fifo_init \<lparr>f_buffer = \<lambda>_. 0, f_front = 7, f_tail = 9, f_count = 5\<rparr>) [3, 1, 2] = Inr f1 \<and>
     pop_list http_fifo_out 3 f1 = Inr (f2, [Some 3, Some 1, Some 2])"
  using http_fifo_refines_queue [OF ring_rep_init, of "\<lparr>f_buffer = \<lambda>_. 0, f_front = 7, f_tail = 9, f_count = 5\<rparr>" 0 "[3, 1, 2]"] by (auto simp: numeral_3_eq_3)

end
