(* ===== verification/DriverProps.thy ===== *)
theory DriverProps
  imports Driver
begin

text \<open>
  Which interface \<open>driver_find\<close> chooses. The score of an interface is the length of the prefix that
  its last IPv4 address shares with this host's, or 0 if that is shorter than the network mask; the
  first interface with the largest score is taken. The code overwrites the entry of an interface for
  each of its addresses, so that the earlier ones do not count: \<open>best_addr_score\<close>, the score that the
  comment at \<^verbatim>\<open>driver_find\<close> asks for, is the same only for interfaces with one IPv4 address.
\<close>

definition addr_score :: "ip_addr \<Rightarrow> pcap_addr \<Rightarrow> u8" where
  "addr_score ip a =
     (let m = ip_prefix_match ip (sin_addr (the (pa_addr a))) in
      if m < ip_prefix_match PCAP_NETMASK_UNKNOWN (sin_addr (the (pa_netmask a))) then 0 else m)"

definition inet_addrs :: "pcap_if \<Rightarrow> pcap_addr list" where
  "inet_addrs d = filter is_inet (pi_addresses d)"

definition last_addr_score :: "ip_addr \<Rightarrow> pcap_if \<Rightarrow> u8" where
  "last_addr_score ip d = (if inet_addrs d = [] then 0 else addr_score ip (last (inet_addrs d)))"

definition best_addr_score :: "ip_addr \<Rightarrow> pcap_if \<Rightarrow> u8" where
  "best_addr_score ip d = foldr max (map (addr_score ip) (inet_addrs d)) 0"

lemma scores_agree: "length (inet_addrs d) \<le> 1 \<Longrightarrow> last_addr_score ip d = best_addr_score ip d"
  by (cases "inet_addrs d") (simp_all add: last_addr_score_def best_addr_score_def)

text \<open>What the code takes for granted: every IPv4 address comes with its mask.\<close>

definition masks_given :: "pcap_if \<Rightarrow> bool" where
  "masks_given d \<longleftrightarrow> list_all (\<lambda>a. pa_netmask a \<noteq> None) (inet_addrs d)"

lemma match_addrs_spec:
  "list_all (\<lambda>a. pa_netmask a \<noteq> None) (filter is_inet as) \<Longrightarrow>
    match_addrs ip as m = Inr (if filter is_inet as = [] then m else addr_score ip (last (filter is_inet as)))"
proof (induction as arbitrary: m)
  case (Cons a as)
  show ?case
  proof (cases "is_inet a")
    case True
    then obtain sa where "pa_addr a = Some sa" "sa_family sa = AF_INET"
      by (auto simp: is_inet_def split: option.splits)
    moreover obtain mk where "pa_netmask a = Some mk" using Cons(2) True by auto
    ultimately have "match_addrs ip (a # as) m = match_addrs ip as (addr_score ip a)"
      by (simp add: addr_score_def Let_def)
    then show ?thesis using Cons True by auto
  next
    case False
    then have "match_addrs ip (a # as) m = match_addrs ip as m"
      by (auto simp: is_inet_def split: option.splits)
    then show ?thesis using Cons False by simp
  qed
qed simp

lemma match_devs_spec:
  "list_all masks_given ds \<Longrightarrow> n + length ds \<le> PCAP_BUF_SIZE \<Longrightarrow> match_devs ip n ds = Inr (map (last_addr_score ip) ds)"
  by (induction ds arbitrary: n)
    (auto simp: masks_given_def inet_addrs_def match_addrs_spec last_addr_score_def guard_else_def)

lemma last_mask_spec:
  "list_all (\<lambda>a. pa_netmask a \<noteq> None) (filter is_inet as) \<Longrightarrow>
    last_mask as m = Inr (if filter is_inet as = [] then m else sin_addr (the (pa_netmask (last (filter is_inet as)))))"
proof (induction as arbitrary: m)
  case (Cons a as)
  show ?case
  proof (cases "is_inet a")
    case True
    then obtain mk where "pa_netmask a = Some mk" using Cons(2) by auto
    then show ?thesis using Cons True by (simp del: split_paired_All)
  next
    case False
    then show ?thesis using Cons by simp
  qed
qed simp

text \<open>The search for the largest entry: it is never smaller than the start value and stands where it was first met.\<close>

lemma max_match_loop_spec:
  "max_match_loop ms i mm mi = (mm', mi') \<Longrightarrow>
    mm \<le> mm' \<and> (\<forall>j < length ms. ms ! j \<le> mm') \<and>
    (if mm' = mm then mi' = mi
     else \<exists>k < length ms. mi' = i + k \<and> ms ! k = mm' \<and> (\<forall>j < k. ms ! j < mm'))"
proof (induction ms i mm mi rule: max_match_loop.induct)
  case (2 m ms i mm mi)
  show ?case
  proof (cases "m > mm")
    case True
    then have "max_match_loop ms (Suc i) m i = (mm', mi')" using 2(3) by simp
    from 2(1) [OF True this] have ih: "m \<le> mm'" "\<forall>j < length ms. ms ! j \<le> mm'"
      "if mm' = m then mi' = i else \<exists>k < length ms. mi' = Suc i + k \<and> ms ! k = mm' \<and> (\<forall>j < k. ms ! j < mm')"
      by blast+
    have "\<exists>k < length (m # ms). mi' = i + k \<and> (m # ms) ! k = mm' \<and> (\<forall>j < k. (m # ms) ! j < mm')"
    proof (cases "mm' = m")
      case True
      with ih(3) show ?thesis by (intro exI [of _ 0]) simp
    next
      case False
      with ih obtain k where "k < length ms" "mi' = Suc i + k" "ms ! k = mm'" "\<forall>j < k. ms ! j < mm'" by auto
      moreover have "m < mm'" using ih(1) False by simp
      ultimately show ?thesis by (intro exI [of _ "Suc k"]) (auto simp: nth_Cons split: nat.splits)
    qed
    then show ?thesis using ih(1,2) True by (auto simp: nth_Cons split: nat.splits)
  next
    case False
    then have "max_match_loop ms (Suc i) mm mi = (mm', mi')" using 2(3) by simp
    from 2(2) [OF False this] have ih: "mm \<le> mm'" "\<forall>j < length ms. ms ! j \<le> mm'"
      "if mm' = mm then mi' = mi else \<exists>k < length ms. mi' = Suc i + k \<and> ms ! k = mm' \<and> (\<forall>j < k. ms ! j < mm')"
      by blast+
    have m: "m \<le> mm" using False by simp
    have "\<exists>k < length (m # ms). mi' = i + k \<and> (m # ms) ! k = mm' \<and> (\<forall>j < k. (m # ms) ! j < mm')" if "mm' \<noteq> mm"
    proof -
      from ih that obtain k where "k < length ms" "mi' = Suc i + k" "ms ! k = mm'" "\<forall>j < k. ms ! j < mm'" by auto
      moreover have "m < mm'" using ih(1) m that by simp
      ultimately show ?thesis by (intro exI [of _ "Suc k"]) (auto simp: nth_Cons split: nat.splits)
    qed
    then show ?thesis using ih m by (auto simp: nth_Cons split: nat.splits if_splits)
  qed
qed simp

text \<open>C33. Which interface is chosen: given the list of interfaces, \<open>driver_find\<close> fails if the last IPv4
  address of none of them is in the network of this host's address, or if the best one is that very
  address; otherwise it returns the name of the first interface whose last IPv4 address has the longest
  matching prefix, and the mask of that address. When no interface has two IPv4 addresses this is the
  interface with the longest prefix match, which the comment of the function promises; in general it
  is not: earlier addresses of an interface are forgotten, even when they match and the last does not
  (\<open>driver_find_forgets_addresses\<close> below).\<close>

theorem driver_find_longest_prefix:
  assumes "pcap_findalldevs lib = (st, ds)" and "st \<noteq> -1" and "length ds \<le> PCAP_BUF_SIZE"
    and "list_all masks_given ds" and "list_all (\<lambda>d. length (pi_name d) < PCAP_BUF_SIZE) ds"
  shows "(if \<forall>d \<in> set ds. last_addr_score ip d = 0 then driver_find lib ip m0 = Inr (-1, None, m0)
    else \<exists>k < length ds. (\<forall>j < length ds. last_addr_score ip (ds ! j) \<le> last_addr_score ip (ds ! k)) \<and>
      (\<forall>j < k. last_addr_score ip (ds ! j) < last_addr_score ip (ds ! k)) \<and>
      driver_find lib ip m0 = Inr (if last_addr_score ip (ds ! k) = 32 then (-1, None, m0)
        else (0, Some (pi_name (ds ! k)), sin_addr (the (pa_netmask (last (inet_addrs (ds ! k)))))))) \<and>
    (\<forall>d \<in> set ds. length (inet_addrs d) \<le> 1 \<longrightarrow> last_addr_score ip d = best_addr_score ip d)"
    (is "?choice \<and> _")
proof -
  let ?ms = "map (last_addr_score ip) ds"
  obtain mm mi where loop: "max_match_loop ?ms 0 0 0 = (mm, mi)" by fastforce
  note max = max_match_loop_spec [OF loop]
  have find: "driver_find lib ip m0 = (if length ds = 0 \<or> mm = 0 \<or> mm = 32 then Inr (-1, None, m0)
      else ebind (last_mask (pi_addresses (ds ! mi)) m0) (\<lambda>m.
           ebind (guard_else (length (pi_name (ds ! mi)) + 1 \<le> PCAP_BUF_SIZE) OutOfBounds) (\<lambda>_.
           Inr (0, Some (pi_name (ds ! mi)), m))))"
    using assms(1-4) match_devs_spec [of ds 0 ip] loop by (auto simp: driver_find_def Let_def)
  have ?choice
  proof (cases "\<forall>d \<in> set ds. last_addr_score ip d = 0")
    case True
    have "mm = 0"
    proof (rule ccontr)
      assume "mm \<noteq> 0"
      then obtain k where "k < length ds" "?ms ! k = mm" using max by auto
      with True \<open>mm \<noteq> 0\<close> show False by simp
    qed
    with True find show ?thesis by simp
  next
    case False
    then obtain j where "j < length ds" "last_addr_score ip (ds ! j) \<noteq> 0" by (auto simp: in_set_conv_nth)
    with max have pos: "mm \<noteq> 0" by auto
    with max have k: "mi < length ds" "last_addr_score ip (ds ! mi) = mm" "\<forall>j < length ds. last_addr_score ip (ds ! j) \<le> mm"
      "\<forall>j < mi. last_addr_score ip (ds ! j) < mm" by auto
    have ne: "inet_addrs (ds ! mi) \<noteq> []" using k(2) pos by (auto simp: last_addr_score_def)
    have d: "masks_given (ds ! mi)" "length (pi_name (ds ! mi)) < PCAP_BUF_SIZE"
      using assms(4,5) k(1) by (simp_all add: list_all_length)
    have "last_mask (pi_addresses (ds ! mi)) m0 = Inr (sin_addr (the (pa_netmask (last (inet_addrs (ds ! mi))))))"
      using last_mask_spec [of "pi_addresses (ds ! mi)" m0] ne d(1) by (simp add: masks_given_def inet_addrs_def)
    then have "driver_find lib ip m0 = Inr (if last_addr_score ip (ds ! mi) = 32 then (-1, None, m0)
        else (0, Some (pi_name (ds ! mi)), sin_addr (the (pa_netmask (last (inet_addrs (ds ! mi)))))))"
      using find pos k(1,2) d(2) by (auto simp: guard_else_def)
    with False k show ?thesis by (auto intro!: exI [of _ mi])
  qed
  then show ?thesis using scores_agree by blast
qed

definition demo_if :: "string \<Rightarrow> ip_addr \<Rightarrow> ip_addr \<Rightarrow> pcap_if" where
  "demo_if nm ip m = \<lparr>pi_name = nm, pi_addresses =
     [\<lparr>pa_addr = Some \<lparr>sa_family = AF_INET, sin_addr = ip\<rparr>, pa_netmask = Some \<lparr>sa_family = AF_INET, sin_addr = m\<rparr>\<rparr>]\<rparr>"

definition demo_lib :: "(unit, unit) pcap_lib" where
  "demo_lib = \<lparr>pcap_findalldevs = (0, [demo_if ''lo'' (127, 0, 0, 1) (255, 0, 0, 0),
       demo_if ''eth0'' (192, 168, 230, 1) (255, 255, 255, 0)]),
     pcap_open_live = (\<lambda>_ _ _ _. Some ()), pcap_setnonblock = (\<lambda>_ _. 0), pcap_compile = (\<lambda>_ _ _ _. (0, ())),
     pcap_setfilter = (\<lambda>_ _. 0)\<rparr>"

lemma demo_scores:
  "last_addr_score NET_IF_IP (demo_if ''lo'' (127, 0, 0, 1) (255, 0, 0, 0)) = 0"
  "last_addr_score NET_IF_IP (demo_if ''eth0'' (192, 168, 230, 1) (255, 255, 255, 0)) = 30"
  by code_simp+

theorem driver_find_longest_prefix_witness:
  "driver_find demo_lib NET_IF_IP (0, 0, 0, 0) = Inr (0, Some ''eth0'', (255, 255, 255, 0))"
proof -
  let ?lo = "demo_if ''lo'' (127, 0, 0, 1) (255, 0, 0, 0)" and ?eth = "demo_if ''eth0'' (192, 168, 230, 1) (255, 255, 255, 0)"
  have lib: "pcap_findalldevs demo_lib = (0, [?lo, ?eth])" by (simp add: demo_lib_def)
  have prem: "length [?lo, ?eth] \<le> PCAP_BUF_SIZE" "list_all masks_given [?lo, ?eth]"
    "list_all (\<lambda>d. length (pi_name d) < PCAP_BUF_SIZE) [?lo, ?eth]"
    by (simp_all add: PCAP_BUF_SIZE_def masks_given_def inet_addrs_def demo_if_def is_inet_def)
  have some: "\<not> (\<forall>d \<in> set [?lo, ?eth]. last_addr_score NET_IF_IP d = 0)" using demo_scores(2) by simp
  have "0 \<noteq> (-1 :: int)" by simp
  note found = if_not_P [OF some, THEN iffD1, OF driver_find_longest_prefix [OF lib this prem, THEN conjunct1]]
  from found [of "(0, 0, 0, 0)"] obtain k where k: "k < length [?lo, ?eth]"
    "\<forall>j < length [?lo, ?eth]. last_addr_score NET_IF_IP ([?lo, ?eth] ! j) \<le> last_addr_score NET_IF_IP ([?lo, ?eth] ! k)"
    "driver_find demo_lib NET_IF_IP (0, 0, 0, 0) = Inr (if last_addr_score NET_IF_IP ([?lo, ?eth] ! k) = 32 then (-1, None, (0, 0, 0, 0))
        else (0, Some (pi_name ([?lo, ?eth] ! k)), sin_addr (the (pa_netmask (last (inet_addrs ([?lo, ?eth] ! k)))))))"
    by blast
  have "k = 1"
  proof (rule ccontr)
    assume "k \<noteq> 1"
    with k(1) have "k = 0" by simp
    with k(2) [rule_format, of 1] show False by (simp add: demo_scores)
  qed
  with k(3) show ?thesis by (simp add: demo_scores) (simp add: inet_addrs_def demo_if_def is_inet_def)
qed


text \<open>An interface in the network of this host that has a second address in another one is not found.\<close>

definition demo_two_addrs :: pcap_if where
  "demo_two_addrs = \<lparr>pi_name = ''eth0'', pi_addresses =
     pi_addresses (demo_if ''eth0'' (192, 168, 230, 1) (255, 255, 255, 0)) @
     pi_addresses (demo_if ''eth0'' (10, 0, 0, 1) (255, 255, 255, 0))\<rparr>"

lemma driver_find_forgets_addresses:
  "best_addr_score NET_IF_IP demo_two_addrs = 30 \<and>
   driver_find (demo_lib\<lparr>pcap_findalldevs := (0, [demo_two_addrs])\<rparr>) NET_IF_IP (0, 0, 0, 0) = Inr (-1, None, (0, 0, 0, 0))"
  by code_simp

end
