(* ===== verification/Boot.thy ===== *)
theory Boot
  imports System Ring DriverProps
begin

text \<open>
  From the start of the program to its main loop: what \<open>main_init\<close> sets up, and what every round
  of the loop keeps.
\<close>

subsection \<open>Tables of handlers\<close>

text \<open>\<open>table now m f n\<close>: the table \<open>m\<close>, without a timeout, holds \<open>f\<close> and has had at most \<open>n\<close> insertions.\<close>

definition table :: "int \<Rightarrow> (u16, 'v) map_t \<Rightarrow> (u16 \<rightharpoonup> 'v) \<Rightarrow> nat \<Rightarrow> bool" where
  "table now m f n \<longleftrightarrow> map_inv now m \<and> map_lookup now m = f \<and> m_size m \<le> n \<and>
     m_max_size m = 116733 \<and> m_timeout m = 0"

lemma table_init: "now \<noteq> 0 \<Longrightarrow> table now (map_init z 2 8 0 0 None) Map.empty 0"
  by (simp add: table_def map_inv_init) (simp add: map_init_def MAP_MAX_LEN_def)

lemma table_set:
  assumes t: "table now m f n" and n: "n < 116733"
  shows "table now (fst (map_set m now k v)) (f(k \<mapsto> v)) (Suc n)" and "snd (map_set m now k v) = 0"
proof -
  have inv: "map_inv now m" and size: "m_size m \<noteq> m_max_size m" using t n by (auto simp: table_def)
  show st: "snd (map_set m now k v) = 0" using size by (simp add: nm.set_status [OF inv])
  show "table now (fst (map_set m now k v)) (f(k \<mapsto> v)) (Suc n)"
    using t nm.inv_set [OF inv] nm.lookup_set [OF inv st] map_size_set [OF inv st]
    by (auto simp: table_def)
qed

text \<open>Without a timeout, what a table holds does not depend on the time.\<close>

lemma table_later: "table now m f n \<Longrightarrow> now \<le> t \<Longrightarrow> t \<noteq> 0 \<Longrightarrow> table t m f n"
proof -
  assume a: "table now m f n" "now \<le> t" "t \<noteq> 0"
  then have "map_get m t k = map_get m now k" for k
    by (cases k) (simp_all add: map_get_def map_entry_valid_def table_def)
  then have "map_lookup t m = map_lookup now m" by (intro ext) (simp add: map_lookup_def)
  then show "table t m f n" using a map_inv_later [of now m t] by (simp add: table_def)
qed

definition handlers :: "u16 \<rightharpoonup> net_handler" where
  "handlers = [NET_PROTOCOL_ARP \<mapsto> H_arp_in, NET_PROTOCOL_IP \<mapsto> H_ip_in, NET_PROTOCOL_ICMP \<mapsto> H_icmp_in,
     NET_PROTOCOL_UDP \<mapsto> H_udp_in, NET_PROTOCOL_TCP \<mapsto> H_tcp_in]"

text \<open>The program is ready: every handler is registered, and every open connection owns its buffers.\<close>

definition ready :: "net \<Rightarrow> bool" where
  "ready s \<longleftrightarrow> table (clock s) (net_table s) handlers 5 \<and>
     table (clock s) (udp_table s) [60000 \<mapsto> H_udp_handler] 1 \<and>
     table (clock s) (tcp_table s) [61000 \<mapsto> H_tcp_handler, 62000 \<mapsto> H_http_handler] 2 \<and> own_inv s"

lemma ready_safe: "ready s \<Longrightarrow> safe s s' \<Longrightarrow> ready s'"
  by (auto simp: ready_def safe_def ports_def)

lemma ready_time: "ready s \<Longrightarrow> clock s \<le> t \<Longrightarrow> t \<noteq> 0 \<Longrightarrow> ready (s\<lparr>clock := t\<rparr>)"
  by (auto simp: ready_def intro: table_later own_time)

lemma safe_clock: "safe s s' \<Longrightarrow> clock s' = clock s"
  by (simp add: safe_def ports_def)

lemma ready_loop:
  "main_loop fopen_rb fuel ts s = Inr s' \<Longrightarrow> ready s \<Longrightarrow> sorted (clock s # ts) \<Longrightarrow> 0 \<notin> set ts \<Longrightarrow> ready s'"
proof (induction ts arbitrary: s)
  case (Cons t ts)
  from Cons(2) obtain s1 where s1: "main_step fopen_rb fuel (s\<lparr>clock := t\<rparr>) = Inr s1" "main_loop fopen_rb fuel ts s1 = Inr s'"
    by auto
  have "ready (s\<lparr>clock := t\<rparr>)" using Cons(3-5) by (intro ready_time) auto
  moreover have safe: "safe (s\<lparr>clock := t\<rparr>) s1" by (rule safe_main_step [OF s1(1)])
  ultimately have "ready s1" by (rule ready_safe)
  moreover have "clock s1 = t" using safe_clock [OF safe] by simp
  ultimately show ?case using Cons(1) [OF s1(2)] Cons(4,5) by auto
qed simp

subsection \<open>Initialisation\<close>

lemma net_add_protocol_simps [simp]:
  "net_table (net_add_protocol s p h) = fst (map_set (net_table s) (clock s) p h)"
  "clock (net_add_protocol s p h) = clock s" "udp_table (net_add_protocol s p h) = udp_table s"
  "tcp_table (net_add_protocol s p h) = tcp_table s" "connect_table (net_add_protocol s p h) = connect_table s"
  "mheap (net_add_protocol s p h) = mheap s" "sent (net_add_protocol s p h) = sent s"
  "http_fifo_v (net_add_protocol s p h) = http_fifo_v s" "pcap_input (net_add_protocol s p h) = pcap_input s"
  by (simp_all add: net_add_protocol_def)

lemma own_inv_cong:
  "mheap s' = mheap s \<Longrightarrow> connect_table s' = connect_table s \<Longrightarrow> clock s' = clock s \<Longrightarrow> own_inv s' = own_inv s"
proof -
  assume a: "mheap s' = mheap s" "connect_table s' = connect_table s" "clock s' = clock s"
  then have "conn s' = conn s" by (intro ext) (simp add: conn_def)
  with a show "own_inv s' = own_inv s" by (simp add: own_inv_def)
qed

text \<open>What the lower layers have set up: the tables of the address resolution, and the receive buffer.\<close>

text \<open>No connection is in the table, and no slot of it holds one that is open.\<close>

definition no_connection :: "net \<Rightarrow> bool" where
  "no_connection s \<longleftrightarrow> map_lookup (clock s) (connect_table s) = Map.empty \<and> (\<forall>i. conn s i = CONNECT_LISTEN)"

lemma no_connection_tcp_init: "clock s \<noteq> 0 \<Longrightarrow> no_connection (tcp_init s)"
  by (simp add: no_connection_def conn_tcp_init) (simp add: tcp_init_def net_add_protocol_def)

definition lower_ready :: "net \<Rightarrow> net \<Rightarrow> bool" where
  "lower_ready s s' \<longleftrightarrow> (heap_bounded (mheap s) \<longrightarrow> arp_inv s') \<and> m_size (arp_buf s') = 0 \<and>
     m_max_size (arp_buf s') = 75042 \<and> buf_data (rxbuf s') = 64148 \<and> no_connection s'"

lemma net_init_ready:
  assumes "driver_open np lib m = Inr (st, p)" and "st \<noteq> -1" and clk: "clock s \<noteq> 0"
    and "items_some (mheap s)" and "\<forall>a \<in> dom (h_bufs (mheap s)). a < h_next (mheap s)"
  obtains s' where "net_init np lib m s = Inr (s', 0)" and "clock s' = clock s" and "http_fifo_v s' = http_fifo_v s"
    and "pcap_input s' = pcap_input s"
    and "table (clock s) (net_table s') handlers 5" and "table (clock s) (udp_table s') Map.empty 0"
    and "table (clock s) (tcp_table s') Map.empty 0" and "own_inv s'"
    and "sent s' = sent s @ [ether_frame net_broadcast_mac NET_PROTOCOL_ARP (arp_body (arp_request_pkt net_if_ip))]"
    and "lower_ready s s'"
proof -
  let ?s1 = "s\<lparr>net_table := map_init \<lparr>ent_key = 0, ent_val = H_arp_in, ent_time = 0\<rparr> 2 8 0 0 None\<rparr>"
  obtain b where eth: "ethernet_init ?s1 = Inr (?s1\<lparr>rxbuf := b\<rparr>)" and b: "buf_data b = 64148"
    using buf_do_get [of ?s1 Rxbuf "rxbuf s"]
    by (auto simp: ethernet_init_def buf_init_def ETHERNET_MAX_TRANSPORT_UNIT_def)
  obtain s3 where s3: "arp_init (?s1\<lparr>rxbuf := b\<rparr>) = Inr s3" "clock s3 = clock s" "http_fifo_v s3 = http_fifo_v s"
    "mheap s3 = mheap s" "pcap_input s3 = pcap_input s" "net_table s3 = net_table (net_add_protocol ?s1 NET_PROTOCOL_ARP H_arp_in)"
    "sent s3 = sent s @ [ether_frame net_broadcast_mac NET_PROTOCOL_ARP (arp_body (arp_request_pkt net_if_ip))]"
    "rxbuf s3 = b" "arp_table s3 = map_init \<lparr>ent_key = (0, 0, 0, 0), ent_val = (0, 0, 0, 0, 0, 0), ent_time = 0\<rparr> 4 6 0 ARP_TIMEOUT_SEC None"
    "arp_buf s3 = map_init \<lparr>ent_key = (0, 0, 0, 0), ent_val = \<lparr>q_head = None, q_tail = None\<rparr>, ent_time = 0\<rparr> 4 16 0 0 (Some queue_copy)"
    by (simp add: arp_init_def Let_def arp_req_spec net_add_protocol_def)
  let ?s' = "tcp_init (udp_init (icmp_init (ip_init s3)))"
  have init: "net_init np lib m s = Inr (?s', 0)"
    using assms(1,2) by (simp add: net_init_def Let_def eth s3(1))
  have "net_table ?s' = fst (map_set (fst (map_set (fst (map_set (fst (map_set (fst (map_set
      (map_init \<lparr>ent_key = 0, ent_val = H_arp_in, ent_time = 0\<rparr> 2 8 0 0 None)
      (clock s) NET_PROTOCOL_ARP H_arp_in)) (clock s) NET_PROTOCOL_IP H_ip_in))
      (clock s) NET_PROTOCOL_ICMP H_icmp_in)) (clock s) NET_PROTOCOL_UDP H_udp_in)) (clock s) NET_PROTOCOL_TCP H_tcp_in)"
    by (simp add: tcp_init_def udp_init_def icmp_init_def ip_init_def s3(2,6))
  moreover have "table (clock s) \<dots> handlers (Suc (Suc (Suc (Suc (Suc 0)))))"
    unfolding handlers_def by (intro table_set(1) table_init clk) simp_all
  moreover have "Suc (Suc (Suc (Suc (Suc 0)))) = 5" by simp
  ultimately have net: "table (clock s) (net_table ?s') handlers 5" by simp
  have buf: "map_init z 4 16 0 0 (Some queue_copy) = map_init z 4 16 0 0 None"
    "m_size (map_init z 4 16 0 0 None) = 0" "m_max_size (map_init z 4 16 0 0 None) = 75042"
    for z :: "(ip_addr, queue_t) entry"
    by (simp_all add: map_init_def queue_copy_def fun_eq_iff MAP_MAX_LEN_def)
  have "no_connection ?s'"
    using clk by (intro no_connection_tcp_init) (simp add: udp_init_def icmp_init_def ip_init_def s3(2))
  moreover have "heap_bounded (mheap s) \<longrightarrow> arp_inv ?s'" "m_size (arp_buf ?s') = 0" "m_max_size (arp_buf ?s') = 75042"
    "buf_data (rxbuf ?s') = 64148"
    using clk by (auto simp: tcp_init_def udp_init_def icmp_init_def ip_init_def net_add_protocol_def
        s3 b buf arp_inv_def pend_def map_inv_init ARP_TIMEOUT_SEC_def)
  ultimately have low: "lower_ready s ?s'" by (simp add: lower_ready_def)
  have "own_inv ?s'"
    using own_tcp_init [of "udp_init (icmp_init (ip_init s3))"] assms(4,5) clk
    by (simp add: udp_init_def icmp_init_def ip_init_def s3(2,4))
  then show thesis
    by (intro that [OF init _ _ _ net _ _ _ _ low])
      (simp_all add: tcp_init_def udp_init_def icmp_init_def ip_init_def s3(2,3,5,7) table_init [OF clk])
qed

text \<open>Opening the port of the web server fails to report it, but the handler is registered.\<close>

lemma tcp_open_table:
  assumes "table (clock s) (tcp_table s) f n" and "n < 116733"
  obtains t where "tcp_open s port h = (s\<lparr>tcp_table := t\<rparr>, 0)" and "table (clock s) t (f(port \<mapsto> h)) (Suc n)"
  using table_set [OF assms, of port h] by (cases "map_set (tcp_table s) (clock s) port h") (auto simp: tcp_open_def)

text \<open>The web server opens its port but reports failure: as long as the table of TCP handlers
  has room, \<open>http_server_open\<close> registers \<open>http_handler\<close>, returns -1 and leaves the ring as it was.\<close>

lemma http_server_open_reports_failure:
  assumes "table (clock s) (tcp_table s) f n" and "n < 116733"
  shows "\<exists>s'. http_server_open s port = (s', -1) \<and> http_fifo_v s' = http_fifo_v s \<and>
    map_lookup (clock s') (tcp_table s') = f(port \<mapsto> H_http_handler)"
proof -
  obtain t where "tcp_open s port H_http_handler = (s\<lparr>tcp_table := t\<rparr>, 0)" "table (clock s) t (f(port \<mapsto> H_http_handler)) (Suc n)"
    by (rule tcp_open_table [OF assms])
  then show ?thesis by (simp add: http_server_open_def table_def)
qed

lemma http_server_open_reports_failure_example:
  "\<exists>s'. http_server_open (demo_state\<lparr>tcp_table := map_init \<lparr>ent_key = 0, ent_val = H_tcp_handler, ent_time = 0\<rparr> 2 8 0 0 None\<rparr>) 62000 =
      (s', -1) \<and> map_lookup 1 (tcp_table s') = [62000 \<mapsto> H_http_handler]"
proof -
  let ?s = "demo_state\<lparr>tcp_table := map_init \<lparr>ent_key = 0, ent_val = H_tcp_handler, ent_time = 0\<rparr> 2 8 0 0 None\<rparr>"
  have "clock ?s = 1" by (simp add: demo_state_def)
  moreover from this have "table (clock ?s) (tcp_table ?s) Map.empty 0"
    using table_init [of 1] by simp
  ultimately show ?thesis
    using http_server_open_reports_failure [of ?s Map.empty 0 62000] by (force simp: http_server_open_def tcp_open_def split: prod.splits)
qed

lemma main_init_state:
  assumes "driver_open np lib m = Inr (st, p)" and "st \<noteq> -1" and "clock s \<noteq> 0"
    and "items_some (mheap s)" and "\<forall>a \<in> dom (h_bufs (mheap s)). a < h_next (mheap s)"
  shows "\<exists>s'. main_init srand_seq np lib m (http_static s) = Inr (s', 0) \<and> ready s' \<and>
    clock s' = clock s \<and> pcap_input s' = pcap_input s \<and> ring_rep (http_fifo_v s') [] \<and>
    sent s' = sent s @ [ether_frame net_broadcast_mac NET_PROTOCOL_ARP (arp_body (arp_request_pkt net_if_ip))] \<and>
    lower_ready s s'"
proof -
  let ?s0 = "(http_static s)\<lparr>rand_seq := srand_seq 0x55aa\<rparr>"
  have s0: "clock ?s0 \<noteq> 0" "items_some (mheap ?s0)" "\<forall>a \<in> dom (h_bufs (mheap ?s0)). a < h_next (mheap ?s0)"
    using assms(3-5) by (simp_all add: http_static_def)
  obtain s1 where s1: "net_init np lib m ?s0 = Inr (s1, 0)" "clock s1 = clock ?s0" "http_fifo_v s1 = http_fifo_v ?s0" "pcap_input s1 = pcap_input ?s0"
    "table (clock ?s0) (net_table s1) handlers 5" "table (clock ?s0) (udp_table s1) Map.empty 0"
    "table (clock ?s0) (tcp_table s1) Map.empty 0" "own_inv s1"
    "sent s1 = sent ?s0 @ [ether_frame net_broadcast_mac NET_PROTOCOL_ARP (arp_body (arp_request_pkt net_if_ip))]"
    "lower_ready ?s0 s1"
    by (rule net_init_ready [OF assms(1,2) s0])
  let ?now = "clock s"
  have clk: "clock ?s0 = ?now" "clock s1 = ?now" using s1(2) by (simp_all add: http_static_def)
  obtain u where u: "udp_open s1 60000 H_udp_handler = (s1\<lparr>udp_table := u\<rparr>, 0)" "table ?now u [60000 \<mapsto> H_udp_handler] 1"
    using table_set [of ?now "udp_table s1" Map.empty 0 60000 H_udp_handler] s1(6) clk
    by (cases "map_set (udp_table s1) ?now 60000 H_udp_handler") (auto simp: udp_open_def)
  let ?s2 = "s1\<lparr>udp_table := u\<rparr>"
  obtain t where t: "tcp_open ?s2 61000 H_tcp_handler = (?s2\<lparr>tcp_table := t\<rparr>, 0)" "table ?now t [61000 \<mapsto> H_tcp_handler] 1"
    using tcp_open_table [of ?s2 Map.empty 0 61000 H_tcp_handler] s1(7) clk by auto
  let ?s3 = "?s2\<lparr>tcp_table := t\<rparr>"
  obtain t2 where t2: "tcp_open ?s3 62000 H_http_handler = (?s3\<lparr>tcp_table := t2\<rparr>, 0)"
    "table ?now t2 [61000 \<mapsto> H_tcp_handler, 62000 \<mapsto> H_http_handler] 2"
    using tcp_open_table [of ?s3 "[61000 \<mapsto> H_tcp_handler]" 1 62000 H_http_handler] t(2) clk by (auto simp: numeral_2_eq_2)
  let ?s' = "?s3\<lparr>tcp_table := t2\<rparr>"
  have "main_init srand_seq np lib m (http_static s) = Inr (?s', 0)"
    using s1(1) u(1) t(1) t2(1) by (simp add: main_init_def Let_def http_server_open_def)
  moreover have "ready ?s'"
    using s1(5,8) u(2) t2(2) clk own_inv_cong [of ?s' s1] by (simp add: ready_def)
  moreover have "ring_rep (http_fifo_v ?s') []"
    using s1(3) by (simp add: http_static_def ring_rep_def)
  moreover have "sent ?s' = sent s @ [ether_frame net_broadcast_mac NET_PROTOCOL_ARP (arp_body (arp_request_pkt net_if_ip))]"
    using s1(9) by (simp add: http_static_def)
  moreover have "lower_ready s ?s'"
    using s1(10) by (simp add: lower_ready_def http_static_def arp_inv_def no_connection_def conn_def)
  moreover have "clock ?s' = clock s" "pcap_input ?s' = pcap_input s" using clk s1(4) by (simp_all add: http_static_def)
  ultimately show ?thesis by blast
qed

text \<open>C3. Starting the program: if libpcap can be opened, \<open>main_init\<close> succeeds, announces this host
  with one ARP request for its own address, and leaves the program ready: the five protocols, the
  UDP port 60000 and the TCP ports 61000 and 62000 have their handlers and nothing else has, the
  table of connections is empty and every slot of it is in state LISTEN, without buffers, and the
  ring of connections is empty.\<close>

theorem main_init_ready:
  assumes "driver_open np lib m = Inr (st, p)" and "st \<noteq> -1" and "clock s \<noteq> 0"
    and "items_some (mheap s)" and "\<forall>a \<in> dom (h_bufs (mheap s)). a < h_next (mheap s)"
  shows "\<exists>s'. main_init srand_seq np lib m (http_static s) = Inr (s', 0) \<and> ready s' \<and> ring_rep (http_fifo_v s') [] \<and>
    map_lookup (clock s') (connect_table s') = Map.empty \<and> (\<forall>i. conn s' i = CONNECT_LISTEN) \<and>
    sent s' = sent s @ [ether_frame net_broadcast_mac NET_PROTOCOL_ARP (arp_body (arp_request_pkt net_if_ip))]"
  using main_init_state [OF assms] unfolding lower_ready_def no_connection_def by blast

lemma demo_opens: "driver_open None demo_lib (0, 0, 0, 0) = Inr (0, Some ())"
  by code_simp

lemma demo_heap:
  "items_some (mheap demo_state)" "\<forall>a \<in> dom (h_bufs (mheap demo_state)). a < h_next (mheap demo_state)"
  "clock demo_state = 1" "pcap_input demo_state = []"
  by (simp_all add: demo_state_def items_some_def heap_empty_def)

theorem main_init_ready_witness:
  "\<exists>s'. main_init (\<lambda>_ _. 0) None demo_lib (0, 0, 0, 0) (http_static demo_state) = Inr (s', 0) \<and> ready s'"
  using main_init_ready [OF demo_opens _ _ demo_heap(1,2), of "\<lambda>_ _. 0"] demo_heap(3) by auto

text \<open>C1. The whole program: in the main loop, whatever packets arrive, whatever the files hold and
  however the rounds end, every state it reaches has all handlers registered and every open
  connection with two live buffers of its own. (A run that faults has no such state; the readings
  of the clock never go back.)\<close>

theorem main_loop_stays_ready:
  assumes "ready s" and "main_loop fopen_rb fuel ts s = Inr s'" and "sorted (clock s # ts)" and "0 \<notin> set ts"
  shows "ready s' \<and> (\<forall>i. conn_ok (conn s' i) \<and> conn_bufs (conn s' i) \<subseteq> dom (h_bufs (mheap s')))"
proof -
  have "ready s'" using ready_loop [OF assms(2,1,3,4)] .
  then show ?thesis by (simp add: ready_def own_inv_def owned_def)
qed

lemma quiet_round:
  assumes "pcap_input s = []" and "ring_rep (http_fifo_v s) []"
  shows "main_step fopen_rb fuel s = Inr s"
  using fifo_out_empty [OF assms(2)] assms(1)
  by (simp add: main_step_def net_poll_def ethernet_poll_def driver_recv_def http_server_run.simps)

theorem main_loop_stays_ready_witness:
  "\<exists>s s'. pcap_input s = [] \<and> main_loop (\<lambda>_. None) 0 [2] s = Inr s' \<and> ready s'"
proof -
  obtain s where s: "ready s" "ring_rep (http_fifo_v s) []" "clock s = 1" "pcap_input s = []"
    using main_init_state [OF demo_opens _ _ demo_heap(1,2), of "\<lambda>_ _. 0"] demo_heap(3,4) by auto
  have loop: "main_loop (\<lambda>_. None) 0 [2] s = Inr (s\<lparr>clock := 2\<rparr>)"
    using s by (simp add: quiet_round)
  with main_loop_stays_ready [OF s(1) loop] s(3,4) show ?thesis by auto
qed

end
