(* ===== verification/Dispatch.thy ===== *)
theory Dispatch
  imports Boot
begin

text \<open>
  How a ready program dispatches packets, and why two levels of \<open>net_in\<close> are enough: the protocol
  of an IP header has 8 bits, so \<open>ip_in\<close> never hands a packet to \<open>ip_in\<close>.
\<close>

lemma ip_in_cong:
  assumes "\<And>s' q ip. upper s' = upper s \<Longrightarrow> n1 s' r (ucast (q :: u8)) ip = n2 s' r (ucast q) ip"
  shows "ip_in n1 s r src = ip_in n2 s r src"
  unfolding ip_in_def Let_def
  by (intro ebind_cong if_cong refl assms) (auto dest!: upper_frames)

lemma net_in_step:
  assumes "map_lookup (clock s) (net_table s) = handlers"
  shows "net_in (Suc d) s r p src = (case handlers p of
      None \<Rightarrow> Inr (s, -1)
    | Some H_arp_in \<Rightarrow> ebind (arp_in s r src) (\<lambda>s'. Inr (s', 0))
    | Some H_ip_in \<Rightarrow> ebind (ip_in (net_in d) s r src) (\<lambda>s'. Inr (s', 0))
    | Some H_icmp_in \<Rightarrow> ebind (icmp_in s r src) (\<lambda>s'. Inr (s', 0))
    | Some H_udp_in \<Rightarrow> ebind (udp_in run_udp s r src) (\<lambda>s'. Inr (s', 0))
    | Some H_tcp_in \<Rightarrow> ebind (tcp_in run_tcp s r src) (\<lambda>s'. Inr (s', 0)))"
proof -
  have "map_lookup (clock s) (net_table s) p = handlers p" using assms by simp
  then show ?thesis by (auto simp: map_lookup_def map_val_def split: option.splits net_handler.splits)
qed

lemma handlers_byte: "handlers (ucast (q :: u8)) \<noteq> Some H_ip_in"
proof -
  have "unat q < 256" using unsigned_less [of q, where ?'a = nat] by simp
  moreover from this have same: "unat (ucast q :: u16) = unat q"
    by (simp add: unsigned_ucast_eq take_bit_nat_eq_self)
  ultimately have "unat (ucast q :: u16) \<noteq> unat (0x0800 :: u16)" unfolding same by simp
  then have "ucast q \<noteq> (0x0800 :: u16)" by metis
  then show ?thesis
    by (auto simp: handlers_def NET_PROTOCOL_ARP_def NET_PROTOCOL_IP_def NET_PROTOCOL_ICMP_def
        NET_PROTOCOL_UDP_def NET_PROTOCOL_TCP_def)
qed

lemma ip_in_depth:
  assumes "map_lookup (clock s) (net_table s) = handlers"
  shows "ip_in (net_in (Suc d)) s r src = ip_in (net_in 1) s r src"
proof (rule ip_in_cong)
  fix s' :: net and q :: u8 and ip
  assume "upper s' = upper s"
  then have "map_lookup (clock s') (net_table s') = handlers" using assms by (simp add: upper_def)
  then show "net_in (Suc d) s' r (ucast q) ip = net_in 1 s' r (ucast q) ip"
    using handlers_byte [of q] unfolding One_nat_def net_in_step [OF \<open>map_lookup (clock s') (net_table s') = handlers\<close>]
    by (auto split: option.splits net_handler.splits)
qed

text \<open>C9. Dispatch: in a ready state \<open>net_in\<close> calls the input function of the packet's protocol and
  succeeds, and reports every other protocol without touching the state; this is so at every depth
  from two on, because \<open>ip_in\<close> needs one more level only.\<close>

theorem net_in_depth:
  assumes "ready s"
  shows "net_in (n + 2) s r p src =
    (if p = 0x0806 then ebind (arp_in s r src) (\<lambda>s'. Inr (s', 0))
     else if p = 0x0800 then ebind (ip_in (net_in 1) s r src) (\<lambda>s'. Inr (s', 0))
     else if p = 1 then ebind (icmp_in s r src) (\<lambda>s'. Inr (s', 0))
     else if p = 17 then ebind (udp_in run_udp s r src) (\<lambda>s'. Inr (s', 0))
     else if p = 6 then ebind (tcp_in run_tcp s r src) (\<lambda>s'. Inr (s', 0))
     else Inr (s, -1))"
proof -
  have t: "map_lookup (clock s) (net_table s) = handlers" using assms by (simp add: ready_def table_def)
  have "n + 2 = Suc (Suc n)" by simp
  then show ?thesis
    unfolding \<open>n + 2 = Suc (Suc n)\<close> net_in_step [OF t] ip_in_depth [OF t]
    by (simp add: handlers_def NET_PROTOCOL_ARP_def NET_PROTOCOL_IP_def NET_PROTOCOL_ICMP_def
        NET_PROTOCOL_UDP_def NET_PROTOCOL_TCP_def)
qed

theorem net_in_depth_witness:
  "\<exists>s. ready s \<and> net_in (7 + 2) s Rxbuf 2 [] = Inr (s, -1)"
proof -
  obtain s where s: "ready s"
    using main_init_state [OF demo_opens _ _ demo_heap(1,2), of "\<lambda>_ _. 0"] demo_heap(3) by auto
  with net_in_depth [OF s, of 7 Rxbuf 2 "[]"] show ?thesis by auto
qed

end
