(* ===== verification/Receive.thy ===== *)
theory Receive
  imports Dispatch
begin

text \<open>
  The receiving side as a whole: which frames are certain to be processed without a fault, and how
  long. \<open>driver_recv\<close> copies a frame to wherever the data pointer of \<^verbatim>\<open>rxbuf\<close> stands, and the layers
  move that pointer forward without anybody moving it back, so there is an end to this.
\<close>

subsection \<open>What sending leaves alone\<close>

definition outer where
  "outer s = (rxbuf s, pcap_input s, m_max_size (arp_buf s))"

named_theorems outer_frames \<open>operations that leave the receive buffer and the input alone\<close>

lemma outer_simps [simp]:
  "r \<noteq> Rxbuf \<Longrightarrow> outer (put_buf s r b) = outer s" "outer (s\<lparr>sent := x\<rparr>) = outer s"
  "outer (s\<lparr>ip_id := n\<rparr>) = outer s" "outer (s\<lparr>arp_table := t\<rparr>) = outer s"
  "m_max_size a = m_max_size (arp_buf s) \<Longrightarrow> outer (s\<lparr>arp_buf := a\<rparr>) = outer s"
  "outer (s\<lparr>mheap := h\<rparr>) = outer s" "outer (s\<lparr>txbuf := b\<rparr>) = outer s"
  by (simp_all add: outer_def) (cases r; simp add: put_buf_def)

lemma outer_buf_do [outer_frames]: "buf_do f s r = Inr s' \<Longrightarrow> r \<noteq> Rxbuf \<Longrightarrow> outer s' = outer s"
  by (auto simp: buf_do_def buf_op_def split: prod.splits)

lemma outer_mem_write [outer_frames]: "mem_write s r off bs = Inr s' \<Longrightarrow> r \<noteq> Rxbuf \<Longrightarrow> outer s' = outer s"
  by (auto simp: mem_write_def)

lemma outer_driver_send [outer_frames]: "driver_send s r = Inr (s', st) \<Longrightarrow> outer s' = outer s"
  by (auto simp: driver_send_def Let_def split: if_splits)

lemma outer_ethernet_out [outer_frames]:
  "ethernet_out s r mac p = Inr s' \<Longrightarrow> r \<noteq> Rxbuf \<Longrightarrow> outer s' = outer s"
  by (auto simp: ethernet_out_def Let_def dest!: outer_frames split: if_splits prod.splits)

lemma outer_arp_req [outer_frames]: "arp_req s ip = Inr s' \<Longrightarrow> outer s' = outer s"
  by (auto simp: arp_req_def dest!: outer_frames)

lemma outer_arp_out [outer_frames]: "arp_out s r ip = Inr s' \<Longrightarrow> r \<noteq> Rxbuf \<Longrightarrow> outer s' = outer s"
  by (auto simp: arp_out_def Let_def dest!: outer_frames split: prod.splits option.splits if_splits)

text \<open>The table of waiting packets: \<open>arp_in\<close> can only make it smaller.\<close>

named_theorems slot_frames \<open>operations that leave the table of waiting packets alone\<close>

lemma slots_buf_do [slot_frames]: "buf_do f s r = Inr s' \<Longrightarrow> arp_buf s' = arp_buf s"
  by (auto simp: buf_do_def buf_op_def split: prod.splits)

lemma slots_mem_write [slot_frames]: "mem_write s r off bs = Inr s' \<Longrightarrow> arp_buf s' = arp_buf s"
  by (auto simp: mem_write_def)

lemma slots_driver_send [slot_frames]: "driver_send s r = Inr (s', st) \<Longrightarrow> arp_buf s' = arp_buf s"
  by (auto simp: driver_send_def Let_def split: if_splits)

lemma slots_ethernet_out [slot_frames]: "ethernet_out s r mac p = Inr s' \<Longrightarrow> arp_buf s' = arp_buf s"
  by (auto simp: ethernet_out_def Let_def dest!: slot_frames split: if_splits prod.splits)

lemma slots_arp_resp [slot_frames]: "arp_resp s ip mac = Inr s' \<Longrightarrow> arp_buf s' = arp_buf s"
  by (auto simp: arp_resp_def dest!: slot_frames)

lemma outer_arp_resp [outer_frames]: "arp_resp s ip mac = Inr s' \<Longrightarrow> outer s' = outer s"
  by (auto simp: arp_resp_def dest!: outer_frames)

lemma ethernet_out_frames:
  "ethernet_out s r mac p = Inr s' \<Longrightarrow> r \<noteq> Rxbuf \<Longrightarrow> outer s' = outer s \<and> arp_buf s' = arp_buf s"
  by (simp add: outer_frames slot_frames)

lemma arp_resp_frames: "arp_resp s ip mac = Inr s' \<Longrightarrow> outer s' = outer s \<and> arp_buf s' = arp_buf s"
  by (simp add: outer_frames slot_frames)

lemma arp_flush_frame:
  "arp_flush n s i mac = Inr s' \<Longrightarrow> outer s' = outer s \<and> m_size (arp_buf s') = m_size (arp_buf s)"
proof (induction n s i mac arbitrary: s' rule: arp_flush.induct)
  case (2 n s i mac)
  then show ?case
    by (auto simp: Let_def dest!: ethernet_out_frames split: prod.splits option.splits)
qed simp

lemma map_delete_size: "m_size m \<le> n \<Longrightarrow> m_size (map_delete m now k) \<le> n"
  by (auto simp: map_delete_def split: option.splits)

lemma arp_in_frame:
  assumes "arp_in s r src = Inr s'"
  shows "outer s' = outer s \<and> m_size (arp_buf s') \<le> m_size (arp_buf s)"
  using assms
  by (auto simp: arp_in_def Let_def map_delete_size simp del: arp_flush.simps
      dest!: arp_resp_frames arp_flush_frame split: prod.splits option.splits if_splits)

subsection \<open>Sending one packet\<close>

text \<open>
  \<open>sends s s'\<close>: the step from \<open>s\<close> to \<open>s'\<close> has at most sent packets: the invariant of the address
  resolution holds after it, at most one more address is waited for, and receiving goes on as before.
\<close>

definition sends :: "net \<Rightarrow> net \<Rightarrow> bool" where
  "sends s s' \<longleftrightarrow> arp_inv s' \<and> outer s' = outer s \<and> upper s' = upper s \<and> m_size (arp_buf s') \<le> Suc (m_size (arp_buf s))"

lemma sends_refl [simp]: "sends s s \<longleftrightarrow> arp_inv s"
  by (simp add: sends_def)

lemma arp_inv_ip_id [simp]: "arp_inv (s\<lparr>ip_id := n\<rparr>) = arp_inv s" "arp_inv (s\<lparr>sent := x\<rparr>) = arp_inv s"
  by (simp_all add: arp_inv_def)

lemma sends_prep [simp]:
  "sends (s\<lparr>txbuf := t\<rparr>) s' = sends s s'" "sends (s\<lparr>ip_id := n\<rparr>) s' = sends s s'"
  by (simp_all add: sends_def)

lemma arp_out_runs:
  assumes inv: "arp_inv s" and room: "frame_room (txbuf s)" and size: "m_size (arp_buf s) < m_max_size (arp_buf s)"
  obtains s' where "arp_out s Txbuf ip = Inr s'" and "sends s s'"
proof (cases "map_lookup (clock s) (arp_table s) ip")
  case (Some mac)
  have "arp_out s Txbuf ip = Inr ((put_buf s Txbuf (frame_buf (txbuf s) mac NET_PROTOCOL_IP))
      \<lparr>sent := sent s @ [ether_frame mac NET_PROTOCOL_IP (contents (txbuf s))]\<rparr>)"
    unfolding arp_out_known [OF Some] by (rule ethernet_out_spec) (simp_all add: room)
  then show thesis
    by (rule that) (simp add: sends_def inv)
next
  case None
  obtain N P where pend: "pend (arp_buf s) (clock s) (mheap s) N P"
    using inv by (auto simp: arp_inv_def)
  show thesis
  proof (cases "map_get (arp_buf s) (clock s) (Some ip)")
    case None2: None
    show thesis
      by (rule arp_out_first [OF inv get_buf_simps(2) room None pend None2 size])
        (auto intro!: that simp: sends_def dest: outer_frames upper_arp_out)
  next
    case (Some i)
    show thesis
      by (rule arp_out_again [OF inv get_buf_simps(2) room None pend Some])
        (auto intro!: that simp: sends_def dest: outer_frames upper_arp_out)
  qed
qed

text \<open>One IP packet that needs no fragments.\<close>

lemma ip_out_runs:
  assumes inv: "arp_inv s" and size: "m_size (arp_buf s) < m_max_size (arp_buf s)"
    and t: "buf_len (txbuf s) \<le> 1480" "34 \<le> buf_data (txbuf s)" "buf_data (txbuf s) + buf_len (txbuf s) + 46 < BUF_MAX_LEN"
  obtains s' where "ip_out s Txbuf ip p = Inr s'" and "sends s s'"
proof -
  let ?b = "ip_push (txbuf s) ip p (ip_id s) 0 False"
  let ?s = "s\<lparr>ip_id := ip_id s + 1, txbuf := ?b\<rparr>"
  have ok: "buf_ok (txbuf s)" using t by (simp add: buf_ok_def)
  have "frame_room ?b"
    using ip_push_fields [OF _ ok, of ip p "ip_id s" 0 False] t by (auto simp: frame_room_def)
  then obtain s' where s': "arp_out ?s Txbuf ip = Inr s'" "sends ?s s'"
    using arp_out_runs [of ?s ip] inv size by auto
  have "ip_fragment_out (s\<lparr>ip_id := ip_id s + 1\<rparr>) Txbuf ip p (ip_id s) 0 False = arp_out ?s Txbuf ip"
    using ip_fragment_out_spec [of "s\<lparr>ip_id := ip_id s + 1\<rparr>" Txbuf "txbuf s" ip p "ip_id s" 0 False] t ok by simp
  then have "ip_out s Txbuf ip p = Inr s'"
    using t s'(1) by (simp add: ip_out_def)
  then show thesis by (rule that) (use s'(2) in \<open>simp add: sends_def\<close>)
qed

subsection \<open>The layers above\<close>

text \<open>A window that every layer can send from: room in front and behind, and no fragments needed.\<close>

definition fit :: "buf_t \<Rightarrow> bool" where
  "fit b \<longleftrightarrow> buf_len b \<le> 1480 \<and> 34 \<le> buf_data b \<and> buf_data b + buf_len b + 46 < BUF_MAX_LEN"

text \<open>
  \<open>takes j k s s'\<close>: the step has processed a packet in \<^verbatim>\<open>rxbuf\<close>: as \<open>sends\<close>, but the data pointer may have
  moved back by up to \<open>j\<close> or forward by up to \<open>k\<close>. It moves back when a header that was never removed is
  added again, for a packet of an unknown protocol whose total length is below 20.
\<close>

definition takes :: "nat \<Rightarrow> nat \<Rightarrow> net \<Rightarrow> net \<Rightarrow> bool" where
  "takes j k s s' \<longleftrightarrow> arp_inv s' \<and> upper s' = upper s \<and> pcap_input s' = pcap_input s \<and>
     m_max_size (arp_buf s') = m_max_size (arp_buf s) \<and> m_size (arp_buf s') \<le> Suc (m_size (arp_buf s)) \<and>
     buf_data (rxbuf s) \<le> buf_data (rxbuf s') + j \<and> buf_data (rxbuf s') \<le> buf_data (rxbuf s) + k"

lemma takes_sends: "sends s s' \<Longrightarrow> takes 0 0 s s'"
  by (simp add: sends_def takes_def outer_def)

lemma takes_refl [simp]: "takes j k s s \<longleftrightarrow> arp_inv s"
  by (auto simp: takes_def)

lemma takes_mono: "takes j k s s' \<Longrightarrow> j \<le> j' \<Longrightarrow> k \<le> k' \<Longrightarrow> takes j' k' s s'"
  by (simp add: takes_def)

lemma icmp_in_runs:
  assumes inv: "arp_inv s" and size: "m_size (arp_buf s) < m_max_size (arp_buf s)" and fit: "fit (rxbuf s)"
  obtains s' where "icmp_in s Rxbuf src = Inr s'" and "takes 0 0 s s'"
proof (cases "buf_len (rxbuf s) < 8")
  case True
  then show thesis by (intro that [of s]) (simp_all add: icmp_in_def inv)
next
  case False
  have ok: "buf_ok (rxbuf s)" using fit by (simp add: fit_def buf_ok_def)
  then have read: "mem_read s Rxbuf (buf_data (rxbuf s)) 8 = Inr (take 8 (contents (rxbuf s)))"
    using False by (simp add: mem_read_get buf_read_contents)
  obtain t where t: "icmp_resp s Rxbuf (ip_of src) = ip_out (s\<lparr>txbuf := t\<rparr>) Txbuf (ip_of src) NET_PROTOCOL_ICMP"
    "buf_data t = buf_data (rxbuf s)" "buf_len t = buf_len (rxbuf s)"
    using icmp_resp_spec [of s Rxbuf "rxbuf s" "ip_of src"] ok False by auto
  obtain s' where "ip_out (s\<lparr>txbuf := t\<rparr>) Txbuf (ip_of src) NET_PROTOCOL_ICMP = Inr s'" "sends s s'"
    using ip_out_runs [of "s\<lparr>txbuf := t\<rparr>" "ip_of src" NET_PROTOCOL_ICMP] inv size fit t(2,3)
    by (auto simp: fit_def)
  then show thesis
    using that [of s] that [of s'] False t(1) inv
    by (cases "icmp_type (icmp_dec (take 8 (contents (rxbuf s)))) = ICMP_TYPE_ECHO_REQUEST")
      (simp_all add: icmp_in_def read takes_sends)
qed

lemma icmp_unreachable_runs:
  assumes inv: "arp_inv s" and size: "m_size (arp_buf s) < m_max_size (arp_buf s)"
    and room: "buf_data (rxbuf s) + 28 \<le> BUF_MAX_LEN"
  obtains s' where "icmp_unreachable s Rxbuf ip code = Inr s'" and "takes 0 0 s s'"
proof -
  obtain t where t: "icmp_unreachable s Rxbuf ip code = ip_out (s\<lparr>txbuf := t\<rparr>) Txbuf ip NET_PROTOCOL_ICMP"
    "buf_len t = 36" "buf_data t = 65626"
    using icmp_unreachable_spec [of s Rxbuf "rxbuf s" ip code] room by auto
  obtain s' where "ip_out (s\<lparr>txbuf := t\<rparr>) Txbuf ip NET_PROTOCOL_ICMP = Inr s'" "sends s s'"
    using ip_out_runs [of "s\<lparr>txbuf := t\<rparr>" ip NET_PROTOCOL_ICMP] inv size t(2,3) by auto
  then show thesis using that [of s'] t(1) by (simp add: takes_sends)
qed

lemma udp_handler_runs:
  assumes inv: "arp_inv s" and size: "m_size (arp_buf s) < m_max_size (arp_buf s)" and len: "length data \<le> 1472"
  obtains s' where "run_udp h s data ip port = Inr s'" and "takes 0 0 s s'"
proof -
  have u: "unat (of_nat (length data) :: u16) = length data"
    using len by (simp add: unat_of_nat take_bit_eq_mod)
  let ?a = "(txbuf s)\<lparr>buf_len := length data, buf_data := 65662 - length data\<rparr>"
  let ?t = "?a\<lparr>buf_payload := store (buf_payload ?a) (buf_data ?a) data\<rparr>"
  have init: "buf_do (\<lambda>b. buf_init b (length data)) s Txbuf = Inr (s\<lparr>txbuf := ?a\<rparr>)"
    using len by (simp add: buf_do_get buf_init_def)
  have send: "udp_send s data (of_nat (length data)) 60000 ip port = udp_out (s\<lparr>txbuf := ?t\<rparr>) Txbuf 60000 ip port"
  proof -
    have "mem_write (s\<lparr>txbuf := ?a\<rparr>) Txbuf (buf_data ?a) data = Inr (s\<lparr>txbuf := ?t\<rparr>)"
      using mem_write_get [of "s\<lparr>txbuf := ?a\<rparr>" Txbuf ?a "buf_data ?a" data] len by simp
    then show ?thesis unfolding udp_send_def u init by simp
  qed
  obtain c where c: "udp_out (s\<lparr>txbuf := ?t\<rparr>) Txbuf 60000 ip port = ip_out (s\<lparr>txbuf := c\<rparr>) Txbuf ip NET_PROTOCOL_UDP"
    "buf_data c = 65654 - length data" "buf_len c = length data + 8"
    by (rule udp_out_spec [of "s\<lparr>txbuf := ?t\<rparr>" Txbuf ?t 60000 ip port]) (use len in auto)
  obtain s' where "ip_out (s\<lparr>txbuf := c\<rparr>) Txbuf ip NET_PROTOCOL_UDP = Inr s'" "sends s s'"
    by (rule ip_out_runs [of "s\<lparr>txbuf := c\<rparr>" ip NET_PROTOCOL_UDP]) (use inv size c(2,3) len in auto)
  then show thesis
    using that [of s'] c(1) send by (cases h) (simp add: udp_handler_def takes_sends)
qed

lemma udp_in_runs:
  assumes inv: "arp_inv s" and size: "m_size (arp_buf s) < m_max_size (arp_buf s)" and fit: "fit (rxbuf s)"
  obtains s' where "udp_in run_udp s Rxbuf (ip_bytes src) = Inr s'" and "takes 0 0 s s'"
proof (cases "buf_len (rxbuf s) < 8")
  case True
  then show thesis by (intro that [of s]) (simp_all add: udp_in_def inv)
next
  case False
  note result = that
  let ?b = "rxbuf s"
  have c: "contents ?b = udp_enc (udp_dec (take 8 (contents ?b))) @ drop 8 (contents ?b)"
    using False by (simp add: udph.enc_dec)
  have run: thesis if call: "udp_in run_udp s Rxbuf (ip_bytes src) =
      run_udp h (s\<lparr>rxbuf := b1\<rparr>) (drop 8 (contents ?b)) src port"
    and b1: "buf_data b1 = buf_data ?b" for h b1 port
  proof -
    obtain s' where "run_udp h (s\<lparr>rxbuf := b1\<rparr>) (drop 8 (contents ?b)) src port = Inr s'" "takes 0 0 (s\<lparr>rxbuf := b1\<rparr>) s'"
      by (rule udp_handler_runs [of "s\<lparr>rxbuf := b1\<rparr>" "drop 8 (contents ?b)"])
        (use inv size fit in \<open>auto simp: fit_def\<close>)
    then show thesis
      using call b1 by (intro result [of s']) (simp_all add: takes_def upper_def)
  qed
  have still: "takes 0 0 s (s\<lparr>rxbuf := b\<rparr>)" if "buf_data b = buf_data ?b" for b
    using inv that by (simp add: takes_def)
  obtain b0 b1 where d: "buf_data b0 = buf_data ?b" "buf_data b1 = buf_data ?b"
    and eq: "udp_in run_udp s Rxbuf (ip_bytes src) \<in> {Inr s, Inr (s\<lparr>rxbuf := b0\<rparr>), Inr (s\<lparr>rxbuf := b1\<rparr>)} \<or>
      (\<exists>h port. udp_in run_udp s Rxbuf (ip_bytes src) = run_udp h (s\<lparr>rxbuf := b1\<rparr>) (drop 8 (contents ?b)) src port)"
    by (rule udp_in_spec [OF get_buf_simps(1) _ _ c, where src = src and call = run_udp])
      (use fit in \<open>auto simp: fit_def split: if_splits option.splits\<close>)
  from eq show thesis
    using run [OF _ d(2)] still [OF d(1)] still [OF d(2)] inv that by fastforce
qed

lemma ip_window_bounds:
  "buf_data b \<le> buf_data (ip_window b n)" "buf_data (ip_window b n) \<le> buf_data b + 20"
  "buf_data (ip_window b n) + buf_len (ip_window b n) \<le> buf_data b + buf_len b"
  "buf_len b \<le> 1500 \<Longrightarrow> buf_len (ip_window b n) \<le> 1480"
  by (auto simp: ip_window_def buf_remove_padding_def buf_remove_header_def)

lemma arp_in_runs:
  assumes inv: "arp_inv s" and ok: "buf_ok (rxbuf s)"
  obtains s' where "arp_in s Rxbuf src = Inr s'" and "takes 0 0 s s'"
proof -
  let ?b = "rxbuf s"
  let ?p = "arp_dec (take 28 (contents ?b))"
  note cases = arp_in_cases [OF get_buf_simps(1) ok, of src, unfolded Let_def]
  have learn: "arp_inv (arp_learn s p)" for p
    using inv by (simp add: arp_inv_def arp_learn_def map_inv_set)
  have "\<exists>s'. arp_in s Rxbuf src = Inr s' \<and> arp_inv s'"
  proof (cases "28 \<le> buf_len ?b \<and> arp_is_reply ?p")
    case True
    obtain N P where "pend (arp_buf s) (clock s) (mheap s) N P" using inv by (auto simp: arp_inv_def)
    then have "arp_pending s (sender_ip ?p) (case map_get (arp_buf s) (clock s) (Some (sender_ip ?p)) of
        None \<Rightarrow> [] | Some i \<Rightarrow> map snd (P i))"
      by (auto simp: arp_pending_def)
    then show ?thesis
      using arp_in_reply [OF inv get_buf_simps(1) ok _ refl] True by blast
  next
    case False
    then show ?thesis
      using learn [of ?p] inv unfolding cases by (auto simp: arp_resp_spec)
  qed
  then obtain s' where s': "arp_in s Rxbuf src = Inr s'" "arp_inv s'" by blast
  show thesis
    by (rule that [OF s'(1)])
      (use arp_in_frame [OF s'(1)] upper_arp_in [OF s'(1)] s'(2) in \<open>auto simp: takes_def outer_def\<close>)
qed

lemma net_in_runs:
  assumes t: "map_lookup (clock s) (net_table s) = handlers"
    and inv: "arp_inv s" and size: "m_size (arp_buf s) < m_max_size (arp_buf s)" and fit: "fit (rxbuf s)"
    and p: "p \<noteq> 0x0800" "p \<noteq> 6"
  obtains s' st where "net_in (Suc d) s Rxbuf p (ip_bytes src) = Inr (s', st)" and "takes 0 0 s s'"
    and "st < 0 \<Longrightarrow> s' = s"
proof -
  have ok: "buf_ok (rxbuf s)" using fit by (simp add: fit_def buf_ok_def)
  obtain s1 where s1: "arp_in s Rxbuf (ip_bytes src) = Inr s1" "takes 0 0 s s1" by (rule arp_in_runs [OF inv ok])
  obtain s2 where s2: "icmp_in s Rxbuf (ip_bytes src) = Inr s2" "takes 0 0 s s2" by (rule icmp_in_runs [OF inv size fit])
  obtain s3 where s3: "udp_in run_udp s Rxbuf (ip_bytes src) = Inr s3" "takes 0 0 s s3" by (rule udp_in_runs [OF inv size fit])
  have "handlers p \<in> {None, Some H_arp_in, Some H_icmp_in, Some H_udp_in}"
    using p by (simp add: handlers_def NET_PROTOCOL_IP_def NET_PROTOCOL_TCP_def)
  then show thesis
    unfolding insert_iff empty_iff
    using that [of s "-1"] that [of s1 0] that [of s2 0] that [of s3 0] s1 s2 s3 inv net_in_step [OF t]
    by auto
qed

lemma byte_is_word: "ucast (q :: u8) = (6 :: u16) \<longleftrightarrow> q = 6"
proof -
  have "unat (ucast q :: u16) = unat q" by simp
  then show ?thesis by (simp add: word_unat_eq_iff del: unat_ucast_u8_u16)
qed

lemma byte_not_word: "ucast (q :: u8) \<noteq> (0x0800 :: u16)"
proof
  assume "ucast q = (0x0800 :: u16)"
  then have "unat (ucast q :: u16) = 0x0800" by simp
  then show False using unat_u8_less [of q] by simp
qed

text \<open>\<open>ip_in\<close> on a window that comes from Ethernet, when the protocol of the header is not TCP.\<close>

lemma ip_in_runs:
  assumes t: "map_lookup (clock s) (net_table s) = handlers"
    and inv: "arp_inv s" and size: "m_size (arp_buf s) < m_max_size (arp_buf s)"
    and win: "buf_len (rxbuf s) \<le> 1500" "34 \<le> buf_data (rxbuf s)"
      "buf_data (rxbuf s) + buf_len (rxbuf s) + 46 < BUF_MAX_LEN"
    and tcp: "20 \<le> buf_len (rxbuf s) \<Longrightarrow> contents (rxbuf s) ! 9 \<noteq> 6"
  obtains s' where "ip_in (net_in (Suc d)) s Rxbuf src = Inr s'" and "takes 20 20 s s'"
proof (cases "20 \<le> buf_len (rxbuf s)")
  case False
  then show thesis by (intro that [of s]) (simp_all add: ip_in_def inv)
next
  case len: True
  note result = that
  let ?b = "rxbuf s"
  define h where "h = ip_dec (take 20 (contents ?b))"
  have ok: "buf_ok ?b" using win by (simp add: buf_ok_def)
  note spec = ip_in_spec [OF get_buf_simps(1) ok len h_def [symmetric], of "net_in (Suc d)" src]
  have unreach: thesis
    if eq: "ip_in (net_in (Suc d)) s Rxbuf src = icmp_unreachable (s\<lparr>rxbuf := b\<rparr>) Rxbuf (ih_src_ip h) code"
      and b: "buf_data ?b \<le> buf_data b + 20" "buf_data b \<le> buf_data ?b + 20" for b code
  proof -
    obtain s' where "icmp_unreachable (s\<lparr>rxbuf := b\<rparr>) Rxbuf (ih_src_ip h) code = Inr s'" "takes 0 0 (s\<lparr>rxbuf := b\<rparr>) s'"
      by (rule icmp_unreachable_runs [of "s\<lparr>rxbuf := b\<rparr>" "ih_src_ip h" code])
        (use inv size b win len in auto)
    with eq b show thesis
      by (intro result [of s']) (auto simp: takes_def upper_def)
  qed
  let ?w = "ip_window ?b (unat (swap16 (ih_total_len16 h)))"
  have w: "fit ?w" "buf_data ?b \<le> buf_data ?w" "buf_data ?w \<le> buf_data ?b + 20"
    using ip_window_bounds [of ?b "unat (swap16 (ih_total_len16 h))"] win by (auto simp: fit_def)
  have "contents ?b ! 9 = ih_protocol h"
    using len by (simp add: h_def ip_dec_def)
  then have proto: "(ucast (ih_protocol h) :: u16) \<noteq> 6" "(ucast (ih_protocol h) :: u16) \<noteq> 0x0800"
    using tcp len byte_not_word by (auto simp: byte_is_word)
  obtain s5 st where up: "net_in (Suc d) (s\<lparr>rxbuf := ?w\<rparr>) Rxbuf (ucast (ih_protocol h)) (ip_bytes (ih_src_ip h)) = Inr (s5, st)"
    "takes 0 0 (s\<lparr>rxbuf := ?w\<rparr>) s5" "st < 0 \<Longrightarrow> s5 = s\<lparr>rxbuf := ?w\<rparr>"
    by (rule net_in_runs [of "s\<lparr>rxbuf := ?w\<rparr>" "ucast (ih_protocol h)" d "ih_src_ip h"])
      (use t inv size w proto in auto)
  show thesis
  proof (cases "buf_len ?b < unat (ih_hdr_len h) * 4 \<or> ih_version h \<noteq> 4 \<or> ih_hdr_len h < 5")
    case True
    with spec inv show thesis by (intro result [of s]) auto
  next
    case c1: False
    note spec = spec [unfolded if_not_P [OF c1]]
    show thesis
    proof (cases "bit (ih_flags_fragment16 h) 14 \<and> buf_len ?b > 1500")
      case True
      with win(1) show thesis by simp
    next
      case c2: False
      note spec = spec [unfolded if_not_P [OF c2]]
      consider "ih_dst_ip h \<noteq> net_if_ip" | "ih_dst_ip h = net_if_ip" "\<not> ip_header_ok h"
        | (up) "ih_dst_ip h = net_if_ip" "ip_header_ok h" by blast
      then show thesis
      proof cases
        case 1
        with spec inv show thesis by (intro result [of s]) simp_all
      next
        case 2
        let ?b' = "?b\<lparr>buf_payload := store (buf_payload ?b) (buf_data ?b + 10) (u16_bytes 0)\<rparr>"
        have "takes 20 20 s (s\<lparr>rxbuf := ?b'\<rparr>)" using inv by (simp add: takes_def del: u16_bytes_0)
        with 2 spec show thesis by (intro result [of "s\<lparr>rxbuf := ?b'\<rparr>"]) (simp_all del: u16_bytes_0)
      next
        case up3: up
        show thesis
        proof (cases "st < 0")
          case True
          let ?c = "fst (buf_add_header ?w 20)"
          have "buf_data ?w - 20 = buf_data ?c \<or> buf_data ?c = buf_data ?w"
            by (simp add: buf_add_header_def)
          moreover have "34 \<le> buf_data ?w" using w(1) by (simp add: fit_def)
          moreover have "buf_data ?c = buf_data ?w - 20" using calculation by (auto simp: buf_add_header_def)
          ultimately show thesis
            using spec up up3 True w
            by (intro unreach [of ?c ICMP_CODE_PROTOCOL_UNREACH]) (simp_all add: buf_do_get)
        next
          case False
          with spec up up3 w show thesis
            by (intro result [of s5]) (auto simp: takes_def upper_def)
        qed
      qed
    qed
  qed
qed

subsection \<open>One frame\<close>

text \<open>A frame that carries a TCP segment in an IP packet, by the bytes the layers look at.\<close>

definition carries_tcp :: "u8 list \<Rightarrow> bool" where
  "carries_tcp fr \<longleftrightarrow> 34 \<le> length fr \<and> fr ! 12 = 8 \<and> fr ! 13 = 0 \<and> fr ! 23 = 6"

lemma ethertype_ip:
  assumes "swap16 (le16 a b) = 0x0800"
  shows "a = 8" and "b = 0"
proof -
  have "u16_bytes (le16 b a) = u16_bytes 0x0800" using assms by (simp add: codec_simps)
  then have "[b, a] = u16_bytes 0x0800" by (simp add: u16_bytes_le16)
  then show "a = 8" and "b = 0" by (simp_all add: u16_bytes_def)
qed

lemma ethernet_in_runs:
  assumes t: "map_lookup (clock s) (net_table s) = handlers"
    and inv: "arp_inv s" and size: "m_size (arp_buf s) < m_max_size (arp_buf s)"
    and win: "buf_len (rxbuf s) \<le> 1514" "34 \<le> buf_data (rxbuf s)" "buf_data (rxbuf s) + 1560 < BUF_MAX_LEN"
    and tcp: "\<not> carries_tcp (contents (rxbuf s))"
  obtains s' where "ethernet_in (net_in 2) s Rxbuf = Inr s'" and "takes 20 34 s s'"
proof -
  note result = that
  let ?b = "rxbuf s"
  have "mem_read s Rxbuf (buf_data ?b) 14 = Inr (load (buf_payload ?b) (buf_data ?b) 14)"
    using win by (simp add: mem_read_get buf_read_def)
  define hdr where "hdr = ether_dec (load (buf_payload ?b) (buf_data ?b) 14)"
  let ?p = "swap16 (eth_protocol16 hdr)" and ?w = "fst (buf_remove_header ?b 14)"
  have eth: "ethernet_in (net_in 2) s Rxbuf = Inr s \<or> 0x0600 \<le> ?p \<and> ethernet_in (net_in 2) s Rxbuf =
      ebind (net_in 2 (s\<lparr>rxbuf := ?w\<rparr>) Rxbuf ?p (mac_bytes (eth_src hdr))) (\<lambda>(s2, st). Inr s2)"
    using \<open>mem_read _ _ _ _ = _\<close> by (auto simp: ethernet_in_def hdr_def Let_def buf_do_get)
  have w: "buf_len ?w \<le> 1500" "buf_data ?b \<le> buf_data ?w" "buf_data ?w \<le> buf_data ?b + 14"
    "buf_data ?w + buf_len ?w \<le> buf_data ?b + 1514"
    "buf_len ?w < 14 \<or> buf_len ?b = buf_len ?w + 14 \<and> contents ?w = drop 14 (contents ?b)"
    using win by (auto simp: buf_remove_header_def contents_def mem_simps)
  let ?s = "s\<lparr>rxbuf := ?w\<rparr>"
  have ok: "buf_ok ?w" using w win by (simp add: buf_ok_def)
  obtain s1 where s1: "arp_in ?s Rxbuf (mac_bytes (eth_src hdr)) = Inr s1" "takes 0 0 ?s s1"
    by (rule arp_in_runs [of ?s]) (use inv ok in auto)
  have outward: "takes 20 20 ?s s' \<Longrightarrow> takes 20 34 s s'" for s'
    using w(2,3) by (auto simp: takes_def upper_def)
  show thesis
  proof (cases "ethernet_in (net_in 2) s Rxbuf = Inr s")
    case True
    then show thesis by (rule result) (simp add: inv)
  next
    case False
    then have p: "0x0600 \<le> ?p" and eq: "ethernet_in (net_in 2) s Rxbuf =
        ebind (net_in (Suc 1) ?s Rxbuf ?p (mac_bytes (eth_src hdr))) (\<lambda>(s2, st). Inr s2)"
      using eth by (simp_all add: numeral_2_eq_2)
    have t': "map_lookup (clock ?s) (net_table ?s) = handlers" using t by simp
    show thesis
    proof (cases "?p = 0x0800")
      case True
      have "contents ?w ! 9 \<noteq> 6" if long: "20 \<le> buf_len ?w"
      proof -
        have c: "contents ?w = drop 14 (contents ?b)" "34 \<le> buf_len ?b" using w(5) long by auto
        have "eth_protocol16 hdr = le16 (contents ?b ! 12) (contents ?b ! 13)"
          using c(2) by (simp add: hdr_def ether_dec_def contents_def nth_load)
        then have "contents ?b ! 12 = 8" "contents ?b ! 13 = 0"
          using ethertype_ip [of "contents ?b ! 12" "contents ?b ! 13"] True by simp_all
        then show ?thesis using tcp c by (simp add: carries_tcp_def)
      qed
      then obtain s' where s': "ip_in (net_in (Suc 0)) ?s Rxbuf (mac_bytes (eth_src hdr)) = Inr s'" "takes 20 20 ?s s'"
        using ip_in_runs [of ?s 0 "mac_bytes (eth_src hdr)"] t inv size w win by auto
      have "handlers ?p = Some H_ip_in"
        by (simp add: True handlers_def NET_PROTOCOL_ARP_def NET_PROTOCOL_IP_def NET_PROTOCOL_ICMP_def
            NET_PROTOCOL_UDP_def NET_PROTOCOL_TCP_def)
      then show thesis
        using eq s' unfolding net_in_step [OF t'] by (intro result [of s'] outward) simp_all
    next
      case other: False
      have "?p \<noteq> 1" "?p \<noteq> 6" "?p \<noteq> 17"
        using p by (auto simp: word_le_nat_alt)
      then have "handlers ?p = None \<or> handlers ?p = Some H_arp_in"
        using other by (simp add: handlers_def NET_PROTOCOL_ARP_def NET_PROTOCOL_IP_def NET_PROTOCOL_ICMP_def
            NET_PROTOCOL_UDP_def NET_PROTOCOL_TCP_def)
      then show thesis
      proof
        assume "handlers ?p = None"
        then show thesis
          using eq inv unfolding net_in_step [OF t'] by (intro result [of ?s] outward) simp_all
      next
        assume "handlers ?p = Some H_arp_in"
        then show thesis
          using eq s1 unfolding net_in_step [OF t'] by (intro result [of s1] outward) (auto intro: takes_mono [of 0 0])
      qed
    qed
  qed
qed

subsection \<open>Many frames\<close>

text \<open>What \<^verbatim>\<open>pcap_next_ex\<close> may return: nothing, an error, or a whole frame that does not carry TCP.\<close>

fun harmless :: "pcap_event \<Rightarrow> bool" where
  "harmless Pcap_none = True"
| "harmless Pcap_error = True"
| "harmless (Pcap_packet bytes len) = (len \<le> length bytes \<and> len \<le> 1514 \<and> \<not> carries_tcp (take len bytes))"

text \<open>\<open>calm n s\<close>: there is room for \<open>n\<close> more frames, and nothing for the web server to do.\<close>

definition calm :: "nat \<Rightarrow> net \<Rightarrow> bool" where
  "calm n s \<longleftrightarrow> ready s \<and> arp_inv s \<and> ring_rep (http_fifo_v s) [] \<and>
     m_size (arp_buf s) + n \<le> m_max_size (arp_buf s) \<and>
     34 + 20 * n \<le> buf_data (rxbuf s) + 20 \<and> buf_data (rxbuf s) + 34 * n + 1526 < BUF_MAX_LEN"

lemma arp_inv_time:
  assumes "arp_inv s" and "clock s \<le> t" and "t \<noteq> 0"
  shows "arp_inv (s\<lparr>clock := t\<rparr>)"
proof -
  have "m_timeout (arp_buf s) = 0" using assms by (simp add: arp_inv_def)
  then have "map_live (arp_buf s) t i = map_live (arp_buf s) (clock s) i" for i
    by (simp add: map_live_def map_entry_valid_def)
  then have "pend (arp_buf s) t h N P = pend (arp_buf s) (clock s) h N P" for h N P
    by (simp add: pend_def)
  then show ?thesis
    using assms by (auto simp: arp_inv_def intro: map_inv_later)
qed

lemma calm_time: "calm n s \<Longrightarrow> clock s \<le> t \<Longrightarrow> t \<noteq> 0 \<Longrightarrow> calm n (s\<lparr>clock := t\<rparr>)"
  by (simp add: calm_def ready_time arp_inv_time)

lemma calm_takes:
  assumes "calm (Suc n) s" and "takes 20 34 s s'" and "ready s'"
  shows "calm n s'"
  using assms by (auto simp: calm_def takes_def upper_def)

lemma net_poll_runs:
  assumes calm: "calm (Suc n) s" and ev: "pcap_input s = ev # evs" "harmless ev"
  obtains s' where "net_poll s = Inr s'" and "calm n s'" and "pcap_input s' = evs" and "clock s' = clock s"
proof -
  let ?s = "s\<lparr>pcap_input := evs\<rparr>"
  have "conn ?s = conn s" by (rule ext) (simp add: conn_def)
  then have calm': "calm (Suc n) ?s" using calm by (simp add: calm_def ready_def own_inv_def arp_inv_def)
  note result = that
  have finish: thesis if poll: "net_poll s = Inr s'" and tk: "takes 20 34 ?s s'" for s'
  proof (rule result [OF poll])
    have "ready s'" using calm ready_safe [OF _ safe_net_poll [OF poll]] by (simp add: calm_def)
    then show "calm n s'" by (rule calm_takes [OF calm' tk])
    show "pcap_input s' = evs" "clock s' = clock s" using tk by (simp_all add: takes_def upper_def)
  qed
  have still: thesis if "net_poll s = Inr ?s"
    using finish [OF that] calm' by (simp add: calm_def)
  show thesis
  proof (cases ev)
    case (Pcap_packet bytes len)
    let ?b = "(rxbuf s)\<lparr>buf_len := len, buf_payload := store (buf_payload (rxbuf s)) (buf_data (rxbuf s)) (take len bytes)\<rparr>"
    have len: "len \<le> length bytes" "len \<le> 1514" "\<not> carries_tcp (take len bytes)"
      using ev(2) Pcap_packet by simp_all
    have room: "buf_data (rxbuf s) + 1560 < BUF_MAX_LEN" "34 \<le> buf_data (rxbuf s)"
      using calm by (simp_all add: calm_def)
    have recv: "driver_recv s Rxbuf = Inr (?s\<lparr>rxbuf := ?b\<rparr>, int len)"
      using ev(1) Pcap_packet len room
      by (simp add: driver_recv_def Let_def mem_write_get buf_do_get guard_else_def min_def)
    have c: "contents ?b = take len bytes"
      using len by (simp add: contents_def mem_simps min_def)
    show thesis
    proof (cases "len = 0")
      case True
      then show thesis
        using recv calm' by (intro finish [of "?s\<lparr>rxbuf := ?b\<rparr>"])
          (simp_all add: net_poll_def ethernet_poll_def takes_def upper_def calm_def)
    next
      case False
      obtain s' where s': "ethernet_in (net_in 2) (?s\<lparr>rxbuf := ?b\<rparr>) Rxbuf = Inr s'" "takes 20 34 (?s\<lparr>rxbuf := ?b\<rparr>) s'"
        by (rule ethernet_in_runs [of "?s\<lparr>rxbuf := ?b\<rparr>"])
          (use calm' len c room in \<open>auto simp: calm_def ready_def table_def\<close>)
      show thesis
        by (rule finish [of s'])
          (use s' recv False in \<open>auto simp: net_poll_def ethernet_poll_def takes_def upper_def\<close>)
    qed
  qed (use ev(1) in \<open>auto intro!: still simp: net_poll_def ethernet_poll_def driver_recv_def\<close>)
qed

lemma main_step_runs:
  assumes "calm (Suc n) s" and "pcap_input s = ev # evs" and "harmless ev"
  obtains s' where "main_step fopen_rb fuel s = Inr s'" and "calm n s'" and "pcap_input s' = evs" and "clock s' = clock s"
proof (rule net_poll_runs [OF assms])
  fix s'
  assume s': "net_poll s = Inr s'" "calm n s'" "pcap_input s' = evs" "clock s' = clock s"
  have "main_step fopen_rb fuel s = Inr s'"
    using s'(1,2) fifo_out_empty [of "http_fifo_v s'"]
    by (simp add: main_step_def http_server_run.simps calm_def)
  then show thesis using s' by (intro that)
qed

lemma main_loop_calm:
  "calm (length ts) s \<Longrightarrow> sorted (clock s # ts) \<Longrightarrow> 0 \<notin> set ts \<Longrightarrow> length ts \<le> length (pcap_input s) \<Longrightarrow>
    \<forall>ev \<in> set (take (length ts) (pcap_input s)). harmless ev \<Longrightarrow>
    \<exists>s'. main_loop fopen_rb fuel ts s = Inr s' \<and> calm 0 s' \<and> pcap_input s' = drop (length ts) (pcap_input s)"
proof (induction ts arbitrary: s)
  case (Cons t ts)
  then obtain ev evs where input: "pcap_input s = ev # evs" by (cases "pcap_input s") auto
  have "calm (Suc (length ts)) (s\<lparr>clock := t\<rparr>)"
    using Cons.prems by (intro calm_time) auto
  then obtain s1 where s1: "main_step fopen_rb fuel (s\<lparr>clock := t\<rparr>) = Inr s1" "calm (length ts) s1"
    "pcap_input s1 = evs" "clock s1 = t"
    by (rule main_step_runs [where ev = ev and evs = evs]) (use Cons.prems input in auto)
  then show ?case
    using Cons.IH [OF s1(2)] Cons.prems input by auto
qed simp

text \<open>From the start of the program there is room for 1900 frames.\<close>

lemma started:
  assumes "driver_open np lib m = Inr (st, p)" and "st \<noteq> -1" and "clock s \<noteq> 0"
    and "items_some (mheap s)" and "heap_bounded (mheap s)"
  obtains s1 where "main_init srand_seq np lib m (http_static s) = Inr (s1, 0)" and "ready s1" and "arp_inv s1"
    and "ring_rep (http_fifo_v s1) []" and "clock s1 = clock s" and "pcap_input s1 = pcap_input s"
    and "m_size (arp_buf s1) = 0" and "m_max_size (arp_buf s1) = 75042" and "buf_data (rxbuf s1) = 64148"
proof -
  have "\<forall>a \<in> dom (h_bufs (mheap s)). a < h_next (mheap s)"
    using assms(5) by (auto simp: heap_bounded_def not_less [symmetric])
  from main_init_state [OF assms(1-4) this, of srand_seq] show thesis
    using that assms(5) by (auto simp: lower_ready_def)
qed

lemma program_never_faults:
  assumes "driver_open np lib m = Inr (st, p)" and "st \<noteq> -1" and "clock s \<noteq> 0"
    and "items_some (mheap s)" and "heap_bounded (mheap s)"
    and "sorted (clock s # ts)" and "0 \<notin> set ts" and "length ts \<le> length (pcap_input s)" and "length ts \<le> 1900"
    and "\<forall>ev \<in> set (take (length ts) (pcap_input s)). harmless ev"
  shows "\<exists>s1 s2. main_init srand_seq np lib m (http_static s) = Inr (s1, 0) \<and>
    main_loop fopen_rb fuel ts s1 = Inr s2 \<and> ready s2"
proof -
  obtain s1 where s1: "main_init srand_seq np lib m (http_static s) = Inr (s1, 0)" "ready s1" "arp_inv s1"
    "ring_rep (http_fifo_v s1) []" "clock s1 = clock s" "pcap_input s1 = pcap_input s"
    "m_size (arp_buf s1) = 0" "m_max_size (arp_buf s1) = 75042" "buf_data (rxbuf s1) = 64148"
    by (rule started [OF assms(1-5), of srand_seq])
  then show ?thesis
    using main_loop_calm [of ts s1 fopen_rb fuel] assms(6-10) by (auto simp: calm_def)
qed

lemma demo_started:
  obtains s where "ready s" and "arp_inv s" and "ring_rep (http_fifo_v s) []" and "clock s = 1"
    and "pcap_input s = input" and "m_size (arp_buf s) = 0" and "m_max_size (arp_buf s) = 75042"
    and "buf_data (rxbuf s) = 64148"
proof -
  have "items_some (mheap (demo_state\<lparr>pcap_input := input\<rparr>))" "heap_bounded (mheap (demo_state\<lparr>pcap_input := input\<rparr>))"
    "clock (demo_state\<lparr>pcap_input := input\<rparr>) = 1"
    by (simp_all add: demo_state_def items_some_def heap_empty_def heap_bounded_def)
  with started [OF demo_opens, of "demo_state\<lparr>pcap_input := input\<rparr>"] that show thesis by force
qed

text \<open>C2. The receiving side never faults: for as many frames as there is room for around the data
  pointer of the receive buffer (which moves at most 34 bytes ahead and 20 back with each) and free
  entries in the table of addresses being resolved, the main loop processes every frame that does
  not carry TCP, whatever its bytes, and the program is still ready. From its start on that is at
  least 1900 frames (\<open>program_never_faults\<close>).\<close>

theorem main_loop_never_faults:
  assumes "ready s" and "arp_inv s" and "ring_rep (http_fifo_v s) []"
    and "sorted (clock s # ts)" and "0 \<notin> set ts" and "length ts \<le> length (pcap_input s)"
    and "\<forall>ev \<in> set (take (length ts) (pcap_input s)). harmless ev"
    and "m_size (arp_buf s) + length ts \<le> m_max_size (arp_buf s)"
    and "14 + 20 * length ts \<le> buf_data (rxbuf s)"
    and "buf_data (rxbuf s) + 34 * length ts + 1526 < BUF_MAX_LEN"
  shows "\<exists>s'. main_loop fopen_rb fuel ts s = Inr s' \<and> ready s' \<and> arp_inv s' \<and>
    pcap_input s' = drop (length ts) (pcap_input s)"
  using main_loop_calm [of ts s fopen_rb fuel] assms by (auto simp: calm_def)

theorem main_loop_never_faults_witness:
  "\<exists>s s'. pcap_input s = [Pcap_packet (replicate 60 255) 60, Pcap_error, Pcap_packet (replicate 12 255 @ [8, 0] @ replicate 46 0) 60] \<and>
    main_loop (\<lambda>_. None) 0 [2, 3, 3] s = Inr s' \<and> pcap_input s' = []"
proof -
  let ?input = "[Pcap_packet (replicate 60 255) 60, Pcap_error, Pcap_packet (replicate 12 255 @ [8, 0] @ replicate 46 0) 60]"
  obtain s where s: "ready s" "arp_inv s" "ring_rep (http_fifo_v s) []" "clock s = 1" "pcap_input s = ?input"
    "m_size (arp_buf s) = 0" "m_max_size (arp_buf s) = 75042" "buf_data (rxbuf s) = 64148"
    by (rule demo_started [of ?input])
  have "\<forall>ev \<in> set ?input. harmless ev"
    by (simp add: carries_tcp_def nth_append)
  then show ?thesis
    using main_loop_never_faults [OF s(1-3), of "[2, 3, 3]" "\<lambda>_. None" 0] s(4-8) by auto
qed

subsection \<open>The receive window runs out\<close>

text \<open>A frame for this host whose type no protocol is registered for.\<close>

definition foreign :: "u8 list \<Rightarrow> bool" where
  "foreign fr \<longleftrightarrow> 14 \<le> length fr \<and> (let hdr = ether_dec (take 14 fr); p = swap16 (eth_protocol16 hdr) in
     (eth_dst hdr = net_if_mac \<or> eth_dst hdr = net_broadcast_mac) \<and> 0x0600 \<le> p \<and> p \<noteq> 0x0800 \<and> p \<noteq> 0x0806)"

lemma load_store_prefix: "n \<le> length xs \<Longrightarrow> load (store m d xs) d n = take n xs"
  by (rule nth_equalityI) (auto simp: nth_load store_def)

lemma foreign_step:
  assumes ready: "ready s" and fr: "foreign fr" and input: "pcap_input s = Pcap_packet fr (length fr) # evs"
    and room: "buf_data (rxbuf s) + length fr \<le> BUF_MAX_LEN"
  obtains s' where "net_poll s = Inr s'" and "ready s'" and "pcap_input s' = evs" and "clock s' = clock s"
    and "http_fifo_v s' = http_fifo_v s" and "buf_data (rxbuf s') = buf_data (rxbuf s) + 14"
proof -
  let ?b = "(rxbuf s)\<lparr>buf_len := length fr, buf_payload := store (buf_payload (rxbuf s)) (buf_data (rxbuf s)) fr\<rparr>"
  let ?s = "s\<lparr>pcap_input := evs, rxbuf := ?b\<rparr>"
  let ?s' = "s\<lparr>pcap_input := evs, rxbuf := buf_pop ?b 14\<rparr>"
  define hdr where "hdr = ether_dec (take 14 fr)"
  have ok: "14 \<le> length fr" using fr by (simp add: foreign_def)
  then have read: "mem_read ?s Rxbuf (buf_data (rxbuf s)) 14 = Inr (take 14 fr)"
    using room by (simp add: mem_read_get buf_read_def) (simp add: load_store_prefix)
  have p: "eth_dst hdr = net_if_mac \<or> eth_dst hdr = net_broadcast_mac" "0x0600 \<le> swap16 (eth_protocol16 hdr)"
    "swap16 (eth_protocol16 hdr) \<noteq> 0x0800" "swap16 (eth_protocol16 hdr) \<noteq> 0x0806"
    using fr by (simp_all add: foreign_def hdr_def Let_def)
  have short: "\<not> swap16 (eth_protocol16 hdr) \<le> 1500"
    using p(2) by (simp add: word_le_nat_alt)
  from p have "swap16 (eth_protocol16 hdr) \<noteq> 1" "swap16 (eth_protocol16 hdr) \<noteq> 6" "swap16 (eth_protocol16 hdr) \<noteq> 17"
    by (auto simp: word_le_nat_alt)
  with p have none: "handlers (swap16 (eth_protocol16 hdr)) = None"
    by (simp add: handlers_def NET_PROTOCOL_ARP_def NET_PROTOCOL_IP_def NET_PROTOCOL_ICMP_def
        NET_PROTOCOL_UDP_def NET_PROTOCOL_TCP_def)
  have t: "map_lookup (clock ?s') (net_table ?s') = handlers" using ready by (simp add: ready_def table_def)
  have recv: "driver_recv s Rxbuf = Inr (?s, int (length fr))"
    using input room by (simp add: driver_recv_def mem_write_get buf_do_get)
  have "ethernet_in (net_in 2) ?s Rxbuf = Inr ?s'"
    using read p none short net_in_step [OF t, of 1]
    by (auto simp: ethernet_in_def Let_def hdr_def [symmetric] buf_do_get buf_pop_def numeral_2_eq_2)
  then have poll: "net_poll s = Inr ?s'"
    using recv ok by (simp add: net_poll_def ethernet_poll_def) (auto simp: not_le)
  have "ready ?s'" by (rule ready_safe [OF ready safe_net_poll [OF poll]])
  then show thesis
    using ok by (intro that [OF poll]) (simp_all add: buf_pop_def buf_remove_header_def)
qed

text \<open>C34. \<open>driver_recv\<close> copies a frame to where the processing of the previous one has left the data
  pointer, and nothing moves it back. So the receive window runs out: after enough frames of an
  unknown type, each moving it 14 bytes ahead, a frame no longer fits behind it, and the program
  writes past the end of the buffer.\<close>

theorem receive_window_runs_out:
  assumes "ready s" and "ring_rep (http_fifo_v s) []" and "sorted (clock s # ts)" and "0 \<notin> set ts"
    and "foreign fr" and "pcap_input s = replicate (length ts) (Pcap_packet fr (length fr)) @ evs"
    and "ts \<noteq> []" and "BUF_MAX_LEN < buf_data (rxbuf s) + 14 * (length ts - 1) + length fr"
  shows "main_loop fopen_rb fuel ts s = Inl OutOfBounds"
  using assms(1-4,6-8)
proof (induction ts arbitrary: s)
  case (Cons t ts)
  let ?s = "s\<lparr>clock := t\<rparr>"
  have ready: "ready ?s" using Cons.prems by (intro ready_time) auto
  have input: "pcap_input ?s = Pcap_packet fr (length fr) # replicate (length ts) (Pcap_packet fr (length fr)) @ evs"
    using Cons.prems by simp
  show ?case
  proof (cases "buf_data (rxbuf s) + length fr \<le> BUF_MAX_LEN")
    case False
    then have "driver_recv ?s Rxbuf = Inl OutOfBounds"
      using input by (simp add: driver_recv_def mem_write_def buf_write_def)
    then show ?thesis by (simp add: main_step_def net_poll_def ethernet_poll_def)
  next
    case True
    then obtain s1 where s1: "net_poll ?s = Inr s1" "ready s1" "clock s1 = t" "http_fifo_v s1 = http_fifo_v s"
      "pcap_input s1 = replicate (length ts) (Pcap_packet fr (length fr)) @ evs" "buf_data (rxbuf s1) = buf_data (rxbuf s) + 14"
      by (rule_tac foreign_step [OF ready assms(5) input]) auto
    have "main_step fopen_rb fuel ?s = Inr s1"
      using s1 fifo_out_empty [of "http_fifo_v s1"] Cons.prems(2) by (simp add: main_step_def http_server_run.simps)
    moreover have "ts \<noteq> []" using Cons.prems(7) True by auto
    moreover from this have "buf_data (rxbuf s1) + 14 * (length ts - 1) = buf_data (rxbuf s) + 14 * length ts"
      by (cases ts) (simp_all add: s1)
    ultimately show ?thesis
      using Cons.IH [of s1] Cons.prems s1 by simp
  qed
qed simp

text \<open>An IPv6 broadcast of 60 bytes, 4800 times.\<close>

definition demo_ipv6 :: "u8 list" where
  "demo_ipv6 = ether_enc \<lparr>eth_dst = net_broadcast_mac, eth_src = (2, 0, 0, 0, 0, 9),
     eth_protocol16 = swap16 0x86dd\<rparr> @ replicate 46 0"

lemma demo_ipv6_foreign: "foreign demo_ipv6" "length demo_ipv6 = 60"
  unfolding foreign_def demo_ipv6_def ether.dec_prefix Let_def by simp_all

theorem receive_window_runs_out_witness:
  "\<exists>s. ready s \<and> buf_data (rxbuf s) = 64148 \<and>
    main_loop (\<lambda>_. None) 0 (replicate 4800 2) s = Inl OutOfBounds"
proof -
  let ?input = "replicate 4800 (Pcap_packet demo_ipv6 60)"
  obtain s where s: "ready s" "arp_inv s" "ring_rep (http_fifo_v s) []" "clock s = 1" "pcap_input s = ?input"
    "m_size (arp_buf s) = 0" "m_max_size (arp_buf s) = 75042" "buf_data (rxbuf s) = 64148"
    by (rule demo_started [of ?input])
  have "sorted (clock s # replicate 4800 2)" by (simp add: s(4) sorted_replicate)
  then show ?thesis
    using receive_window_runs_out [OF s(1,3) _ _ demo_ipv6_foreign(1), of "replicate 4800 2" "[]" "\<lambda>_. None" 0] s
    by (intro exI [of _ s]) (simp add: demo_ipv6_foreign(2))
qed

end
