(* ===== verification/Echo.thy ===== *)
theory Echo
  imports Receive
begin

text \<open>
  From the wire to the wire: what the whole program answers to a ping and to a message for the echo
  service on UDP port 60000, in one round of the main loop. The lemmas follow a frame from the driver
  through \<open>ethernet_in\<close> and \<open>ip_in\<close> to its protocol, and the reply back to the driver.
\<close>

subsection \<open>A frame climbs to its protocol\<close>

lemma handlers_of:
  "handlers 0x0800 = Some H_ip_in" "handlers 1 = Some H_icmp_in" "handlers 17 = Some H_udp_in"
  by (simp_all add: handlers_def NET_PROTOCOL_ARP_def NET_PROTOCOL_IP_def NET_PROTOCOL_ICMP_def
      NET_PROTOCOL_UDP_def NET_PROTOCOL_TCP_def)

lemma driver_recv_frame:
  assumes "pcap_input s = Pcap_packet fr (length fr) # evs" and "buf_data (rxbuf s) + length fr \<le> BUF_MAX_LEN"
  obtains b where "driver_recv s Rxbuf = Inr (s\<lparr>pcap_input := evs, rxbuf := b\<rparr>, int (length fr))"
    and "contents b = fr" and "buf_len b = length fr" and "buf_data b = buf_data (rxbuf s)"
proof -
  let ?b = "(rxbuf s)\<lparr>buf_len := length fr, buf_payload := store (buf_payload (rxbuf s)) (buf_data (rxbuf s)) fr\<rparr>"
  have "driver_recv s Rxbuf = Inr (s\<lparr>pcap_input := evs, rxbuf := ?b\<rparr>, int (length fr))"
    using assms by (simp add: driver_recv_def mem_write_get buf_do_get)
  then show thesis by (rule that) (simp_all add: contents_def mem_simps)
qed

text \<open>A frame for this host whose type is registered: its payload reaches the dispatcher.\<close>

definition to_host :: "mac_addr \<Rightarrow> u16 \<Rightarrow> u8 list \<Rightarrow> u8 list" where
  "to_host mac p body = ether_enc \<lparr>eth_dst = net_if_mac, eth_src = mac, eth_protocol16 = swap16 p\<rparr> @ body"

lemma net_poll_frame:
  assumes input: "pcap_input s = Pcap_packet (to_host m p body) (14 + length body) # evs"
    and room: "buf_data (rxbuf s) + length body + 14 < BUF_MAX_LEN" and p: "0x0600 \<le> p"
  obtains b where "net_poll s = ebind (net_in 2 (s\<lparr>pcap_input := evs, rxbuf := b\<rparr>) Rxbuf p (mac_bytes m)) (\<lambda>(s', st). Inr s')"
    and "contents b = body" and "buf_len b = length body" and "buf_data b = buf_data (rxbuf s) + 14"
proof -
  let ?fr = "to_host m p body"
  let ?hdr = "\<lparr>eth_dst = net_if_mac, eth_src = m, eth_protocol16 = swap16 p\<rparr>"
  have len: "length ?fr = 14 + length body" by (simp add: to_host_def)
  obtain b where b: "driver_recv s Rxbuf = Inr (s\<lparr>pcap_input := evs, rxbuf := b\<rparr>, int (length ?fr))"
    "contents b = ?fr" "buf_len b = length ?fr" "buf_data b = buf_data (rxbuf s)"
    by (rule driver_recv_frame [of s ?fr evs]) (use input room len in auto)
  have hdr: "ether_dec (take 14 (contents b)) = ?hdr"
    unfolding b(2) to_host_def by (rule ether.dec_prefix)
  have "ethernet_in (net_in 2) (s\<lparr>pcap_input := evs, rxbuf := b\<rparr>) Rxbuf =
      ebind (net_in 2 (s\<lparr>pcap_input := evs, rxbuf := buf_pop b 14\<rparr>) Rxbuf p (mac_bytes m)) (\<lambda>(s', st). Inr s')"
    using ethernet_in_spec [of "s\<lparr>pcap_input := evs, rxbuf := b\<rparr>" Rxbuf b, OF _ _ _ hdr, of "net_in 2"] b len room p
    by (simp add: buf_ok_def)
  then have "net_poll s = ebind (net_in 2 (s\<lparr>pcap_input := evs, rxbuf := buf_pop b 14\<rparr>) Rxbuf p (mac_bytes m)) (\<lambda>(s', st). Inr s')"
    using b(1) len by (simp add: net_poll_def ethernet_poll_def)
  moreover have "contents (buf_pop b 14) = drop 14 (contents b)"
    using b(3) len by (simp add: buf_pop_def buf_remove_header_def contents_def mem_simps)
  then have "contents (buf_pop b 14) = body" by (simp add: b(2) to_host_def)
  moreover have "buf_len (buf_pop b 14) = length body" "buf_data (buf_pop b 14) = buf_data (rxbuf s) + 14"
    using b(3,4) len by (simp_all add: buf_pop_def buf_remove_header_def)
  ultimately show thesis by (rule that)
qed

text \<open>The header of an IP packet that \<open>ip_in\<close> accepts and passes on with \<open>n\<close> bytes of payload.\<close>

definition passes :: "ip_hdr \<Rightarrow> nat \<Rightarrow> bool" where
  "passes h n \<longleftrightarrow> ip_header_ok h \<and> ih_hdr_len h = 5 \<and> ih_dst_ip h = net_if_ip \<and>
     unat (swap16 (ih_total_len16 h)) = 20 + n"

lemma net_poll_ip:
  assumes ready: "ready s"
    and input: "pcap_input s = Pcap_packet (to_host m 0x0800 (ip_enc h @ body @ pad)) (34 + length body + length pad) # evs"
    and h: "passes h (length body)" and small: "length body + length pad \<le> 1480"
    and room: "buf_data (rxbuf s) + 1514 < BUF_MAX_LEN"
  obtains b where "contents b = body" and "buf_len b = length body" and "buf_data b = buf_data (rxbuf s) + 34"
    and "buf_payload b (buf_data b - 11) = ih_protocol h"
    and "\<forall>s'. net_in 1 (s\<lparr>pcap_input := evs, rxbuf := b\<rparr>) Rxbuf (ucast (ih_protocol h)) (ip_bytes (ih_src_ip h)) = Inr (s', 0) \<longrightarrow>
      net_poll s = Inr s'"
proof -
  let ?body = "ip_enc h @ body @ pad"
  obtain b where b: "net_poll s = ebind (net_in 2 (s\<lparr>pcap_input := evs, rxbuf := b\<rparr>) Rxbuf 0x0800 (mac_bytes m)) (\<lambda>(s', st). Inr s')"
    "contents b = ?body" "buf_len b = length ?body" "buf_data b = buf_data (rxbuf s) + 14"
    by (rule net_poll_frame [of s m "0x0800" ?body evs]) (use input small room in auto)
  let ?s = "s\<lparr>pcap_input := evs, rxbuf := b\<rparr>"
  let ?w = "b\<lparr>buf_len := length body, buf_data := buf_data b + 20\<rparr>"
  have t: "map_lookup (clock ?s) (net_table ?s) = handlers" using ready by (simp add: ready_def table_def)
  have ok: "buf_ok b" "20 \<le> buf_len b" using b(3,4) small room by (simp_all add: buf_ok_def)
  have dec: "ip_dec (take 20 (contents b)) = h" unfolding b(2) by (rule iph.dec_prefix)
  have w: "ip_window b (unat (swap16 (ih_total_len16 h))) = ?w"
    using ip_window_eq [of "20 + length body" b] h b(3) ok by (simp add: passes_def)
  show thesis
  proof (rule that)
    have "take (length body) (drop 20 (contents b)) = body" by (simp add: b(2))
    then show "contents ?w = body"
      using b(3) by (simp add: contents_def mem_simps min_def)
    show "buf_data ?w = buf_data (rxbuf s) + 34" "buf_len ?w = length body" using b(4) by simp_all
    have "contents b ! 9 = buf_payload b (buf_data b + 9)"
      using ok by (simp add: contents_def nth_load)
    moreover have "contents b ! 9 = ih_protocol h"
      by (simp add: b(2) nth_append ip_enc_def u16_bytes_def numeral_eq_Suc)
    ultimately show "buf_payload ?w (buf_data ?w - 11) = ih_protocol h" by (simp add: add.commute [of 9])
    have "net_poll s = Inr s'"
      if up: "net_in 1 (s\<lparr>pcap_input := evs, rxbuf := ?w\<rparr>) Rxbuf (ucast (ih_protocol h)) (ip_bytes (ih_src_ip h)) = Inr (s', 0)" for s'
    proof -
      have get: "get_buf ?s Rxbuf = Inr b" by simp
      have "\<not> (buf_len b < unat (ih_hdr_len h) * 4 \<or> ih_version h \<noteq> 4 \<or> ih_hdr_len h < 5)"
        "\<not> (bit (ih_flags_fragment16 h) 14 \<and> buf_len b > 1500)" "\<not> ih_dst_ip h \<noteq> net_if_ip" "\<not> \<not> ip_header_ok h"
        using h b(3) small by (auto simp: passes_def ip_header_ok_def)
      note pass = if_not_P [OF this(1)] if_not_P [OF this(2)] if_not_P [OF this(3)] if_not_P [OF this(4)]
      have "ip_in (net_in 1) ?s Rxbuf (mac_bytes m) = Inr s'"
        using up unfolding ip_in_spec [OF get ok dec] pass w by simp
      then show ?thesis
        unfolding b(1) using net_in_step [OF t, of 1] by (simp add: numeral_2_eq_2 handlers_of)
    qed
    then show "\<forall>s'. net_in 1 (s\<lparr>pcap_input := evs, rxbuf := ?w\<rparr>) Rxbuf (ucast (ih_protocol h)) (ip_bytes (ih_src_ip h)) = Inr (s', 0) \<longrightarrow>
      net_poll s = Inr s'" by blast
  qed
qed

text \<open>An idle web server, whose ring of accepted connections is empty, adds nothing to a round.\<close>

lemma main_step_idle:
  assumes "net_poll s = Inr s'" and "ring_rep (http_fifo_v s') []"
  shows "main_step fopen_rb fuel s = Inr s'"
  using assms(1) fifo_out_empty [OF assms(2)] by (simp add: main_step_def http_server_run.simps)

text \<open>What fits into one packet leaves as one packet, when the MAC address is known.\<close>

lemma ip_out_one:
  assumes "map_lookup (clock s) (arp_table s) ip = Some mac" and "get_buf s r = Inr b"
    and "34 \<le> buf_data b" and "buf_data b + buf_len b + 46 < BUF_MAX_LEN" and "buf_len b \<le> ip_max_length"
  obtains c where "ip_out s r ip p = Inr (after_send s r c (ip_id s + 1)
    (sent s @ [ether_frame mac NET_PROTOCOL_IP (ip_packet ip p (ip_id s) 0 False (contents b))]))"
  using ip_out_known [OF assms(1-4), of p] assms(5) by (auto simp: ip_datagram_def)

text \<open>The program after its start, with one entry in its ARP table and a frame on the wire.\<close>

lemma known_started:
  obtains s where "ready s" and "ring_rep (http_fifo_v s) []"
    and "map_lookup (clock s) (arp_table s) (10, 0, 0, 9) = Some (2, 0, 0, 0, 0, 9)"
    and "pcap_input s = input" and "buf_data (rxbuf s) + 1600 < BUF_MAX_LEN"
proof -
  obtain s where s: "ready s" "ring_rep (http_fifo_v s) []" "clock s = 1" "pcap_input s = input" "buf_data (rxbuf s) = 64148"
    by (rule demo_started [of input])
  let ?s = "s\<lparr>arp_table := arp_table demo_peer\<rparr>"
  have "own_inv ?s = own_inv s" by (rule own_inv_cong) simp_all
  then have "ready ?s" using s(1) by (simp add: ready_def)
  then show thesis using s by (intro that [of ?s]) simp_all
qed

definition ping_request :: "u16 \<Rightarrow> nat \<Rightarrow> ip_hdr" where
  "ping_request p n =
     (let h = (ip_header net_if_ip p 7 0 False (20 + n))\<lparr>ih_src_ip := (10, 0, 0, 9), ih_hdr_checksum16 := 0\<rparr>
      in h\<lparr>ih_hdr_checksum16 := checksum16 (ip_enc h)\<rparr>)"

lemma passes_ping_request:
  assumes "n < 65516"
  shows "passes (ping_request p n) n"
proof -
  have "unat (of_nat (20 + n) :: u16) = 20 + n"
    using assms by (simp add: unat_of_nat take_bit_eq_mod del: of_nat_add)
  then show ?thesis by (simp add: passes_def ping_request_def ip_header_ok_def Let_def)
qed

lemma ping_request_simps [simp]:
  "ih_src_ip (ping_request p n) = (10, 0, 0, 9)" "ih_protocol (ping_request p n) = ucast p"
  by (simp_all add: ping_request_def Let_def)

subsection \<open>Ping\<close>

text \<open>C4. From the wire to the wire: a frame to this host that carries an IP packet to its address
  with an ICMP echo request, from an address whose MAC address is known, is answered within the same
  round of the main loop by exactly one frame to that MAC address; it carries one unfragmented IP packet
  with the reply, which has the bytes of the request after its checksum and a checksum that verifies.
  Bytes that pad the frame after the packet are not answered.\<close>

theorem ping_answered:
  assumes "ready s" and "ring_rep (http_fifo_v s) []"
    and "map_lookup (clock s) (arp_table s) (ih_src_ip h) = Some mac"
    and "pcap_input s = Pcap_packet (to_host m NET_PROTOCOL_IP (ip_enc h @ req @ pad)) (34 + length req + length pad) # evs"
    and "passes h (length req)" and "ih_protocol h = 1"
    and "8 \<le> length req" and "req ! 0 = ICMP_TYPE_ECHO_REQUEST" and "length req + length pad \<le> 1480"
    and "buf_data (rxbuf s) + 1600 < BUF_MAX_LEN"
  shows "\<exists>s'. main_step fopen_rb fuel s = Inr s' \<and> pcap_input s' = evs \<and>
    sent s' = sent s @ [ether_frame mac NET_PROTOCOL_IP
      (ip_packet (ih_src_ip h) NET_PROTOCOL_ICMP (ip_id s) 0 False (echo_reply req))] \<and>
    checksum16 (echo_reply req) = 0"
proof -
  have input: "pcap_input s = Pcap_packet (to_host m 0x0800 (ip_enc h @ req @ pad)) (34 + length req + length pad) # evs"
    using assms(4) by (simp add: NET_PROTOCOL_IP_def)
  have room: "buf_data (rxbuf s) + 1514 < BUF_MAX_LEN" using assms(10) by simp
  obtain b where b: "contents b = req" "buf_len b = length req" "buf_data b = buf_data (rxbuf s) + 34"
    "buf_payload b (buf_data b - 11) = ih_protocol h"
    and up: "\<forall>s'. net_in 1 (s\<lparr>pcap_input := evs, rxbuf := b\<rparr>) Rxbuf (ucast (ih_protocol h)) (ip_bytes (ih_src_ip h)) = Inr (s', 0) \<longrightarrow>
      net_poll s = Inr s'"
    by (rule net_poll_ip [OF assms(1) input assms(5,9) room])
  let ?s = "s\<lparr>pcap_input := evs, rxbuf := b\<rparr>"
  have ok: "buf_ok b" "8 \<le> buf_len b" using b assms(7,9,10) by (simp_all add: buf_ok_def)
  obtain t where t: "icmp_resp ?s Rxbuf (ih_src_ip h) = ip_out (?s\<lparr>txbuf := t\<rparr>) Txbuf (ih_src_ip h) NET_PROTOCOL_ICMP"
    "contents t = echo_reply req" "buf_data t = buf_data b" "buf_len t = buf_len b"
    by (rule icmp_resp_spec [of ?s Rxbuf b "ih_src_ip h", OF _ ok]) (use b(1) in auto)
  obtain c where c: "ip_out (?s\<lparr>txbuf := t\<rparr>) Txbuf (ih_src_ip h) NET_PROTOCOL_ICMP =
    Inr (after_send (?s\<lparr>txbuf := t\<rparr>) Txbuf c (ip_id s + 1) (sent s @ [ether_frame mac NET_PROTOCOL_IP
        (ip_packet (ih_src_ip h) NET_PROTOCOL_ICMP (ip_id s) 0 False (echo_reply req))]))" (is "_ = Inr ?s'")
    by (rule ip_out_one [of "?s\<lparr>txbuf := t\<rparr>" "ih_src_ip h" mac Txbuf t NET_PROTOCOL_ICMP])
      (use t b(2,3) assms(3,9,10) in simp_all)
  have read: "mem_read ?s Rxbuf (buf_data b) 8 = Inr (take 8 req)"
    using ok by (simp add: mem_read_get buf_read_contents b(1))
  have "icmp_type (icmp_dec (take 8 req)) = req ! 0" by (simp add: icmp_dec_def)
  then have "icmp_in ?s Rxbuf (ip_bytes (ih_src_ip h)) = Inr ?s'"
    using ok(2) assms(8) by (simp add: icmp_in_def read t(1) c ip_of_append [of _ "[]", simplified])
  moreover have "map_lookup (clock ?s) (net_table ?s) = handlers"
    using assms(1) by (simp add: ready_def table_def)
  ultimately have "net_poll s = Inr ?s'"
    using net_in_step [of ?s 0 Rxbuf 1] assms(6) up by (simp add: handlers_of)
  then have "main_step fopen_rb fuel s = Inr ?s'"
    using assms(2) by (intro main_step_idle) (simp_all add: after_send_def)
  moreover have "checksum16 (echo_reply req) = 0"
    using assms(9) by (intro echo_reply_verifies) simp
  ultimately show ?thesis by (simp add: after_send_def)
qed

theorem ping_answered_witness:
  "\<exists>s s'. pcap_input s = [Pcap_packet (to_host (2, 0, 0, 0, 0, 9) NET_PROTOCOL_IP
      (ip_enc (ping_request 1 10) @ [8, 0, 0, 0, 0, 1, 0, 1, 104, 105] @ replicate 16 0)) 60] \<and>
    main_step (\<lambda>_. None) 0 s = Inr s' \<and> pcap_input s' = [] \<and>
    sent s' = sent s @ [ether_frame (2, 0, 0, 0, 0, 9) NET_PROTOCOL_IP
      (ip_packet (10, 0, 0, 9) NET_PROTOCOL_ICMP (ip_id s) 0 False (echo_reply [8, 0, 0, 0, 0, 1, 0, 1, 104, 105]))]"
proof -
  let ?req = "[8, 0, 0, 0, 0, 1, 0, 1, 104, 105] :: u8 list" and ?pad = "replicate 16 0 :: u8 list"
  let ?input = "[Pcap_packet (to_host (2, 0, 0, 0, 0, 9) NET_PROTOCOL_IP (ip_enc (ping_request 1 10) @ ?req @ ?pad)) 60]"
  obtain s where s: "ready s" "ring_rep (http_fifo_v s) []"
    "map_lookup (clock s) (arp_table s) (10, 0, 0, 9) = Some (2, 0, 0, 0, 0, 9)"
    "pcap_input s = ?input" "buf_data (rxbuf s) + 1600 < BUF_MAX_LEN"
    by (rule known_started [of ?input])
  have len: "length ?req = 10" by simp
  have pass: "passes (ping_request 1 10) (length ?req)" unfolding len by (rule passes_ping_request) simp
  from ping_answered [OF s(1,2) _ _ pass, of "(2, 0, 0, 0, 0, 9)" "(2, 0, 0, 0, 0, 9)" ?pad "[]" "\<lambda>_. None" 0] s(3-5)
  obtain s' where "main_step (\<lambda>_. None) 0 s = Inr s'" "pcap_input s' = []" "sent s' = sent s @ [ether_frame (2, 0, 0, 0, 0, 9) NET_PROTOCOL_IP
      (ip_packet (10, 0, 0, 9) NET_PROTOCOL_ICMP (ip_id s) 0 False (echo_reply ?req))]"
    by (auto simp: ICMP_TYPE_ECHO_REQUEST_def)
  with s(4) show ?thesis by blast
qed

subsection \<open>The echo on UDP port 60000\<close>

lemma udp_handler_sends:
  assumes known: "map_lookup (clock s) (arp_table s) ip = Some mac" and len: "length data \<le> 1472"
  obtains c where "udp_handler s data ip port = Inr (after_send s Txbuf c (ip_id s + 1)
    (sent s @ [ether_frame mac NET_PROTOCOL_IP (ip_packet ip NET_PROTOCOL_UDP (ip_id s) 0 False
      (udp_message net_if_ip ip 60000 port (buf_payload (txbuf s) (65643 - length data)) data))]))"
proof -
  have u: "unat (of_nat (length data) :: u16) = length data"
    using len by (simp add: unat_of_nat take_bit_eq_mod)
  let ?a = "(txbuf s)\<lparr>buf_len := length data, buf_data := 65662 - length data\<rparr>"
  let ?t = "?a\<lparr>buf_payload := store (buf_payload ?a) (buf_data ?a) data\<rparr>"
  have init: "buf_do (\<lambda>b. buf_init b (length data)) s Txbuf = Inr (s\<lparr>txbuf := ?a\<rparr>)"
    using len by (simp add: buf_do_get buf_init_def)
  have "mem_write (s\<lparr>txbuf := ?a\<rparr>) Txbuf (buf_data ?a) data = Inr (s\<lparr>txbuf := ?t\<rparr>)"
    using mem_write_get [of "s\<lparr>txbuf := ?a\<rparr>" Txbuf ?a "buf_data ?a" data] len by simp
  then have run: "udp_handler s data ip port = udp_out (s\<lparr>txbuf := ?t\<rparr>) Txbuf 60000 ip port"
    unfolding udp_handler_def udp_send_def u init by simp
  have "contents ?t = data" by (simp add: contents_def load_store_same)
  moreover have "buf_payload ?t (buf_data ?t - 19) = buf_payload (txbuf s) (65643 - length data)"
    using len by (auto simp: store_def)
  ultimately have t: "contents ?t = data" "buf_payload ?t (buf_data ?t - 19) = buf_payload (txbuf s) (65643 - length data)"
    by simp_all
  obtain c where c: "udp_out (s\<lparr>txbuf := ?t\<rparr>) Txbuf 60000 ip port = ip_out (s\<lparr>txbuf := c\<rparr>) Txbuf ip NET_PROTOCOL_UDP"
    "contents c = udp_message net_if_ip ip 60000 port (buf_payload ?t (buf_data ?t - 19)) (contents ?t)"
    "buf_data c = 65654 - length data" "buf_len c = length data + 8"
    by (rule udp_out_spec [of "s\<lparr>txbuf := ?t\<rparr>" Txbuf ?t 60000 ip port]) (use len in auto)
  obtain d where "ip_out (s\<lparr>txbuf := c\<rparr>) Txbuf ip NET_PROTOCOL_UDP = Inr (after_send (s\<lparr>txbuf := c\<rparr>) Txbuf d (ip_id s + 1)
    (sent s @ [ether_frame mac NET_PROTOCOL_IP (ip_packet ip NET_PROTOCOL_UDP (ip_id s) 0 False (contents c))]))"
    by (rule ip_out_one [of "s\<lparr>txbuf := c\<rparr>" ip mac Txbuf c NET_PROTOCOL_UDP]) (use known c(3,4) len in simp_all)
  moreover have "udp_handler s data ip port = ip_out (s\<lparr>txbuf := c\<rparr>) Txbuf ip NET_PROTOCOL_UDP"
    unfolding run by (rule c(1))
  moreover have "contents c = udp_message net_if_ip ip 60000 port (buf_payload (txbuf s) (65643 - length data)) data"
    using c(2) unfolding t .
  ultimately show thesis by (intro that [of d]) (simp add: after_send_def)
qed

text \<open>C5. From the wire to the wire: a frame to this host that carries a UDP message for port 60000,
  without a checksum or with the right one, from an address whose MAC address is known, is
  answered within the same round of the main loop by exactly one frame to that MAC address; it carries
  one unfragmented IP packet with a message from port 60000 to the sender's port and the same data.
  The protocol byte of the reply's checksum is whatever the transmit buffer holds 19 bytes before the data.\<close>

theorem udp_echo_answered:
  assumes "ready s" and "ring_rep (http_fifo_v s) []"
    and "map_lookup (clock s) (arp_table s) (ih_src_ip h) = Some mac"
    and "pcap_input s = Pcap_packet (to_host m NET_PROTOCOL_IP (ip_enc h @ (udp_enc u @ data) @ pad)) (42 + length data + length pad) # evs"
    and "passes h (8 + length data)" and "ih_protocol h = 17"
    and "swap16 (uh_dst_port16 u) = 60000" and "unat (swap16 (uh_total_len16 u)) \<le> 8 + length data"
    and "uh_checksum16 u \<in> {0, checksum16 (udp_peso (ih_src_ip h) net_if_ip 17 (8 + length data)
      @ udp_enc (u\<lparr>uh_checksum16 := 0\<rparr>) @ data)}"
    and "length data + length pad \<le> 1472" and "buf_data (rxbuf s) + 1600 < BUF_MAX_LEN"
  shows "\<exists>s'. main_step fopen_rb fuel s = Inr s' \<and> pcap_input s' = evs \<and>
    sent s' = sent s @ [ether_frame mac NET_PROTOCOL_IP (ip_packet (ih_src_ip h) NET_PROTOCOL_UDP (ip_id s) 0 False
      (udp_message net_if_ip (ih_src_ip h) 60000 (swap16 (uh_src_port16 u))
        (buf_payload (txbuf s) (65643 - length data)) data))]"
proof -
  let ?msg = "udp_enc u @ data" and ?src = "ih_src_ip h"
  have input: "pcap_input s = Pcap_packet (to_host m 0x0800 (ip_enc h @ ?msg @ pad)) (34 + length ?msg + length pad) # evs"
    using assms(4) by (simp add: NET_PROTOCOL_IP_def)
  have room: "buf_data (rxbuf s) + 1514 < BUF_MAX_LEN" and fit: "length ?msg + length pad \<le> 1480"
    and pass: "passes h (length ?msg)" using assms(5,10,11) by simp_all
  obtain b where b: "contents b = ?msg" "buf_len b = length ?msg" "buf_data b = buf_data (rxbuf s) + 34"
    "buf_payload b (buf_data b - 11) = ih_protocol h"
    and up: "\<forall>s'. net_in 1 (s\<lparr>pcap_input := evs, rxbuf := b\<rparr>) Rxbuf (ucast (ih_protocol h)) (ip_bytes ?src) = Inr (s', 0) \<longrightarrow>
      net_poll s = Inr s'"
    by (rule net_poll_ip [OF assms(1) input pass fit room])
  let ?s = "s\<lparr>pcap_input := evs, rxbuf := b\<rparr>"
  have big: "20 \<le> buf_data b" "buf_data b + buf_len b + 1 < BUF_MAX_LEN" using b(2,3) assms(10,11) by simp_all
  have "map_lookup (clock ?s) (udp_table ?s) 60000 = Some H_udp_handler"
    using assms(1) by (simp add: ready_def table_def)
  then obtain i where i: "map_get (udp_table ?s) (clock ?s) (Some 60000) = Some i" "map_val (udp_table ?s) i = H_udp_handler"
    by (auto simp: map_lookup_def map_val_def split: option.splits)
  obtain b1 where b1: "udp_in run_udp ?s Rxbuf (ip_bytes ?src) =
      run_udp H_udp_handler (put_buf ?s Rxbuf b1) data ?src (swap16 (uh_src_port16 u))"
    by (rule udp_in_spec [where s = ?s and r = Rxbuf and src = ?src and call = run_udp, OF _ big b(1)])
      (use i b(4) assms(6-9) in auto)
  obtain c where c: "udp_handler (put_buf ?s Rxbuf b1) data ?src (swap16 (uh_src_port16 u)) =
    Inr (after_send (put_buf ?s Rxbuf b1) Txbuf c (ip_id s + 1) (sent s @ [ether_frame mac NET_PROTOCOL_IP
      (ip_packet ?src NET_PROTOCOL_UDP (ip_id s) 0 False (udp_message net_if_ip ?src 60000 (swap16 (uh_src_port16 u))
        (buf_payload (txbuf s) (65643 - length data)) data))]))" (is "_ = Inr ?s'")
    by (rule udp_handler_sends [of "put_buf ?s Rxbuf b1" ?src mac data "swap16 (uh_src_port16 u)"])
      (use assms(3,10) in simp_all)
  have "map_lookup (clock ?s) (net_table ?s) = handlers"
    using assms(1) by (simp add: ready_def table_def)
  then have "net_poll s = Inr ?s'"
    using net_in_step [of ?s 0 Rxbuf 17] assms(6) up b1 c by (simp add: handlers_of)
  then have "main_step fopen_rb fuel s = Inr ?s'"
    using assms(2) by (intro main_step_idle) (simp_all add: after_send_def)
  then show ?thesis by (simp add: after_send_def)
qed

definition demo_echo_hdr :: udp_hdr where
  "demo_echo_hdr = \<lparr>uh_src_port16 = swap16 1234, uh_dst_port16 = swap16 60000,
     uh_total_len16 = swap16 11, uh_checksum16 = 0\<rparr>"

theorem udp_echo_answered_witness:
  "\<exists>s s'. pcap_input s = [Pcap_packet (to_host (2, 0, 0, 0, 0, 9) NET_PROTOCOL_IP
      (ip_enc (ping_request 17 11) @ (udp_enc demo_echo_hdr @ [1, 2, 3]) @ replicate 15 0)) 60] \<and>
    main_step (\<lambda>_. None) 0 s = Inr s' \<and> length (sent s') = Suc (length (sent s))"
proof -
  let ?data = "[1, 2, 3] :: u8 list" and ?pad = "replicate 15 0 :: u8 list"
  let ?input = "[Pcap_packet (to_host (2, 0, 0, 0, 0, 9) NET_PROTOCOL_IP
    (ip_enc (ping_request 17 11) @ (udp_enc demo_echo_hdr @ ?data) @ ?pad)) 60]"
  obtain s where s: "ready s" "ring_rep (http_fifo_v s) []"
    "map_lookup (clock s) (arp_table s) (10, 0, 0, 9) = Some (2, 0, 0, 0, 0, 9)"
    "pcap_input s = ?input" "buf_data (rxbuf s) + 1600 < BUF_MAX_LEN"
    by (rule known_started [of ?input])
  have "passes (ping_request 17 11) (8 + length ?data)" using passes_ping_request [of 11 17] by simp
  moreover have "swap16 (uh_dst_port16 demo_echo_hdr) = 60000" "unat (swap16 (uh_total_len16 demo_echo_hdr)) = 11"
    "uh_checksum16 demo_echo_hdr = 0"
    by (simp_all add: demo_echo_hdr_def)
  ultimately obtain s' where "main_step (\<lambda>_. None) 0 s = Inr s'" "length (sent s') = Suc (length (sent s))"
    using udp_echo_answered [OF s(1,2), of "ping_request 17 11" "(2, 0, 0, 0, 0, 9)" "(2, 0, 0, 0, 0, 9)" demo_echo_hdr
        ?data ?pad "[]" "\<lambda>_. None" 0] s(3-5)
    by auto
  with s(4) show ?thesis by blast
qed

end
