(* ===== verification/HttpProps.thy ===== *)
theory HttpProps
  imports Http TcpStates "HOL-Library.Sublist"
begin

text \<open>
  What the web server answers. The theorems are about a quiet network: no packet arrives while the
  request is served, so that \<open>net_poll\<close> returns at once, and what the answer is does not depend on
  the peer. \<open>media_type\<close> and \<open>http_response\<close> are the specification of the answer.
\<close>

definition media_type :: "u8 list \<Rightarrow> string" where
  "media_type file =
     (if suffix (text_bytes ''.jpg'') file then ''image/jpeg''
      else if suffix (text_bytes ''.css'') file then ''text/css'' else ''text/html'')"

definition http_response :: "(u8 list \<Rightarrow> u8 list option) \<Rightarrow> u8 list \<Rightarrow> u8 list" where
  "http_response files path =
     (let file = file_path_of path in
      case files file of
        None \<Rightarrow> content_404
      | Some bytes \<Rightarrow>
          content_header (length bytes) (media_type file) ''ChiServer/0.1'' @ [NEWLINE] @ bytes)"

subsection \<open>Texts\<close>

lemma text_bytes_simps [simp]:
  "length (text_bytes t) = length t" "text_bytes (t @ u) = text_bytes t @ text_bytes u"
  "text_bytes [] = []"
  by (simp_all add: text_bytes_def)

lemma str_same_eq [simp]: "str_same xs ys \<longleftrightarrow> xs = ys"
  by (induction xs ys rule: str_same.induct) auto

lemma str_endswith_suffix:
  "length p \<le> length t \<Longrightarrow> str_endswith (Some t) (Some p) = Inr (suffix p t)"
proof -
  assume "length p \<le> length t"
  then have "drop (length t - length p) t = p \<longleftrightarrow> suffix p t"
    by (metis append_take_drop_id suffix_def suffix_drop append_eq_conv_conj diff_diff_cancel length_append add_diff_cancel_right')
  with \<open>length p \<le> length t\<close> show ?thesis by (simp add: str_endswith_def guard_else_def)
qed

lemma length_fmt_d_le: "n < 10 ^ Suc k \<Longrightarrow> length (fmt_d n) \<le> Suc k"
proof (induction k arbitrary: n)
  case (Suc k)
  then have "n div 10 < 10 ^ Suc k" by (simp add: div_less_iff_less_mult)
  then show ?case using Suc(1) [of "n div 10"] by (simp add: fmt_d.simps [of n])
qed (simp add: fmt_d.simps)

lemma length_media_type: "length (media_type file) \<le> 10"
  by (simp add: media_type_def)

lemma length_response_header:
  assumes "n < 10 ^ 6"
  shows "length (content_header n (media_type file) ''ChiServer/0.1'' @ [NEWLINE]) \<le> 100"
    and "content_header n (media_type file) ''ChiServer/0.1'' @ [NEWLINE] \<noteq> []"
  using length_fmt_d_le [of n 5] length_media_type [of "file"] assms by (simp_all add: content_header_def)

lemma length_file_path: "url \<noteq> [] \<Longrightarrow> 4 \<le> length (file_path_of url)"
  by (simp add: file_path_of_def XHTTP_DOC_DIR_def)

subsection \<open>Reading the request\<close>

lemma net_poll_quiet: "pcap_input s = [] \<Longrightarrow> net_poll s = Inr s"
  by (simp add: net_poll_def ethernet_poll_def driver_recv_def)

lemma get_line_loop_quiet:
  assumes "NEWLINE \<notin> set l" and "length l < fuel" and "length line + length (filter (\<lambda>c. c \<noteq> RETURN) l) < sz"
    and "conn_buf (c_rx_buf (conn s i)) = Inr rx" and "get_buf s rx = Inr b" and "buf_ok b"
    and "contents b = l @ NEWLINE # rest" and "pcap_input s = []"
  shows "\<exists>c. get_line_loop fuel s i sz line = Inr (put_buf s rx c, line @ filter (\<lambda>c. c \<noteq> RETURN) l) \<and>
    contents c = rest \<and> buf_ok c"
  using assms
proof (induction l arbitrary: fuel s line b)
  case Nil
  then obtain f where fuel: "fuel = Suc f" by (cases fuel) auto
  obtain c where "tcp_connect_read s i 1 = Inr (put_buf s rx c, take 1 (contents b))"
    "contents c = drop 1 (contents b)" "buf_ok c"
    using tcp_connect_read_spec [OF Nil(4-6), of 1] by auto
  with Nil show ?case by (intro exI [of _ c]) (simp add: get_line_loop.simps fuel)
next
  case (Cons x l)
  then obtain f where fuel: "fuel = Suc f" by (cases fuel) auto
  obtain c where c: "tcp_connect_read s i 1 = Inr (put_buf s rx c, take 1 (contents b))"
    "contents c = drop 1 (contents b)" "buf_ok c"
    using tcp_connect_read_spec [OF Cons(5-7), of 1] by auto
  let ?s = "put_buf s rx c" and ?line = "if x \<noteq> RETURN then line @ [x] else line"
  have "\<exists>d. get_line_loop f ?s i sz ?line = Inr (put_buf ?s rx d, ?line @ filter (\<lambda>c. c \<noteq> RETURN) l) \<and>
    contents d = rest \<and> buf_ok d"
    using Cons(2-9) c by (intro Cons(1) [where b = c]) (auto simp: fuel)
  then show ?case using Cons(2-9) c
    by (auto simp: get_line_loop.simps [of "Suc f"] fuel net_poll_quiet split: if_splits)
qed

lemma get_line_quiet:
  assumes "NEWLINE \<notin> set l" and "length l < fuel" and "length (filter (\<lambda>c. c \<noteq> RETURN) l) < sz"
    and "conn_buf (c_rx_buf (conn s i)) = Inr rx" and "get_buf s rx = Inr b" and "buf_ok b"
    and "contents b = l @ NEWLINE # rest" and "pcap_input s = []"
  obtains c where "get_line fuel s i sz = Inr (put_buf s rx c, filter (\<lambda>c. c \<noteq> RETURN) l)"
    and "contents c = rest" and "buf_ok c"
  using get_line_loop_quiet [of l fuel "[]" sz s i rx b rest] assms by (auto simp: get_line_def guard_else_def)

text \<open>A request line with the method \<^verbatim>\<open>GET\<close>.\<close>

definition request_line :: "u8 list \<Rightarrow> u8 list \<Rightarrow> u8 list" where
  "request_line path version = text_bytes ''GET '' @ path @ SPACE # version"

lemma request_path_line:
  assumes "0 \<notin> set path" and "SPACE \<notin> set path" and "path \<noteq> []" and "0 \<notin> set version"
  shows "request_path (request_line path version) = Some path"
proof -
  have nul: "takeWhile (\<lambda>c. c \<noteq> 0) (request_line path version) = request_line path version"
    using assms by (auto simp: takeWhile_eq_all_conv request_line_def text_bytes_def SPACE_def)
  have "strstr (request_line path version) (text_bytes ''GET'') = Some (request_line path version)"
    by (simp add: request_line_def text_bytes_def)
  moreover have "drop 3 (request_line path version) = SPACE # path @ SPACE # version"
    by (simp add: request_line_def text_bytes_def SPACE_def)
  moreover have "dropWhile (\<lambda>c. c = SPACE) (SPACE # path @ SPACE # version) = path @ SPACE # version"
    using assms(2,3) by (cases path) auto
  moreover have "takeWhile (\<lambda>c. c \<noteq> SPACE) (path @ SPACE # version) = path"
    using assms(2) by (simp add: takeWhile_tail takeWhile_eq_all_conv) (metis takeWhile_eq_all_conv)
  ultimately show ?thesis by (simp add: request_path_def nul)
qed

subsection \<open>Writing the answer\<close>

text \<open>\<open>writable s i tx b n\<close>: the transmit buffer \<open>b\<close> of connection \<open>i\<close> has room for \<open>n\<close> more bytes, and the
  peer's window for a block of the answer.\<close>

definition writable :: "net \<Rightarrow> nat \<Rightarrow> bufref \<Rightarrow> buf_t \<Rightarrow> nat \<Rightarrow> bool" where
  "writable s i tx b n \<longleftrightarrow> conn_buf (c_tx_buf (conn s i)) = Inr tx \<and> get_buf s tx = Inr b \<and>
     buf_data b + buf_len b + n < BUF_MAX_LEN \<and> in_flight (conn s i) + 1024 < unat (c_remote_win (conn s i)) \<and>
     pcap_input s = []"

lemma http_send_quiet:
  assumes w: "writable s i tx b n" and len: "length block \<le> 1024" "length block \<le> n" and fuel: "0 < fuel"
  obtains c where "http_send fuel s i block (length block) 0 = Inr (put_buf s tx c, length block)"
    and "contents c = contents b @ block" and "writable (put_buf s tx c) i tx c (n - length block)"
proof -
  obtain f where f: "fuel = Suc f" using fuel by (cases fuel) auto
  show thesis
  proof (cases "block = []")
    case True
    with w show thesis by (intro that [of b]) (auto simp: http_send.simps writable_def put_get_id)
  next
    case False
    have prem: "conn_buf (c_tx_buf (conn s i)) = Inr tx" "get_buf s tx = Inr b"
      "buf_data b + buf_len b + length block < BUF_MAX_LEN"
      "in_flight (conn s i) + length block < unat (c_remote_win (conn s i))"
      using w len by (simp_all add: writable_def)
    obtain c where c: "tcp_connect_write s i block (length block) = Inr (put_buf s tx c, length block)"
      "contents c = contents b @ block" "buf_data c = buf_data b" "buf_len c = buf_len b + length block"
      by (rule tcp_connect_write_spec [OF prem])
    have "http_send fuel s i block (length block) 0 = Inr (put_buf s tx c, length block)"
      using False c(1) w by (simp add: http_send.simps f net_poll_quiet writable_def)
    moreover have "writable (put_buf s tx c) i tx c (n - length block)"
      using w c(3,4) len by (simp add: writable_def)
    ultimately show thesis using c(2) that by blast
  qed
qed

lemma send_blocks_quiet:
  assumes "writable s i tx b (length bytes)" and "0 < fuel"
  shows "\<exists>c. send_blocks fuel s i bytes = Inr (put_buf s tx c) \<and> contents c = contents b @ bytes"
  using assms
proof (induction "length bytes" arbitrary: bytes s b rule: less_induct)
  case less
  show ?case
  proof (cases "bytes = []")
    case True
    with less show ?thesis by (intro exI [of _ b]) (auto simp: send_blocks.simps writable_def put_get_id)
  next
    case False
    let ?block = "take 1024 bytes"
    have len: "length ?block \<le> 1024" "length ?block \<le> length bytes" by simp_all
    obtain c where c: "http_send fuel s i ?block (length ?block) 0 = Inr (put_buf s tx c, length ?block)"
      "contents c = contents b @ ?block" "writable (put_buf s tx c) i tx c (length bytes - length ?block)"
      by (rule http_send_quiet [OF less(2) len less(3)])
    have "length (drop 1024 bytes) < length bytes" using False by simp
    moreover have "length bytes - length ?block = length (drop 1024 bytes)" by simp
    ultimately obtain d where "send_blocks fuel (put_buf s tx c) i (drop 1024 bytes) = Inr (put_buf (put_buf s tx c) tx d)"
      "contents d = contents c @ drop 1024 bytes"
      using less(1) [of "drop 1024 bytes"] c(3) less(3) by metis
    then show ?thesis using False c(1,2) by (subst send_blocks.simps) (auto simp: Let_def)
  qed
qed

lemma send_file_quiet:
  assumes w: "writable s i tx b (length (http_response files path))" and fuel: "0 < fuel"
    and path: "path \<noteq> []" "length (file_path_of path) < 255"
  obtains c where "send_file files fuel s i path = Inr (put_buf s tx c)"
    and "contents c = contents b @ http_response files path"
proof -
  let ?file = "file_path_of path"
  have suffixes: "str_endswith (Some ?file) (Some (text_bytes ''.jpg'')) = Inr (suffix (text_bytes ''.jpg'') ?file)"
    "str_endswith (Some ?file) (Some (text_bytes ''.css'')) = Inr (suffix (text_bytes ''.css'') ?file)"
    using length_file_path [OF path(1)] by (simp_all add: str_endswith_suffix)
  have sends: "send_file files fuel s i path =
      ebind (send_local_file fuel s i (files ?file) (media_type ?file)) (\<lambda>(s1, ok).
        if \<not> ok then ebind (http_send fuel s1 i content_404 (length content_404) 0) (\<lambda>(s2, _). Inr s2) else Inr s1)"
    using path by (simp add: send_file_def suffixes media_type_def Let_def guard_else_def)
  show thesis
  proof (cases "files ?file")
    case None
    then have r: "http_response files path = content_404" by (simp add: http_response_def Let_def)
    have "length content_404 \<le> 1024" by (simp add: content_404_def)
    then obtain c where "http_send fuel s i content_404 (length content_404) 0 = Inr (put_buf s tx c, length content_404)"
      "contents c = contents b @ content_404"
      using http_send_quiet [OF w _ _ fuel, of content_404] r by auto
    with None r show thesis by (intro that [of c]) (simp_all add: sends send_local_file_def)
  next
    case (Some bytes)
    let ?h = "content_header (length bytes) (media_type ?file) ''ChiServer/0.1'' @ [NEWLINE]"
    have r: "http_response files path = ?h @ bytes" using Some by (simp add: http_response_def Let_def)
    have "length bytes < 10 ^ 6" using w r by (simp add: writable_def)
    note head = length_response_header [OF this, of ?file]
    have len: "length ?h \<le> 1024" "length ?h \<le> length (http_response files path)" using head(1) r by simp_all
    obtain c where c: "http_send fuel s i ?h (length ?h) 0 = Inr (put_buf s tx c, length ?h)"
      "contents c = contents b @ ?h" "writable (put_buf s tx c) i tx c (length (http_response files path) - length ?h)"
      by (rule http_send_quiet [OF w len fuel])
    have "length (http_response files path) - length ?h = length bytes" by (simp add: r)
    then obtain d where d: "send_blocks fuel (put_buf s tx c) i bytes = Inr (put_buf (put_buf s tx c) tx d)"
      "contents d = contents c @ bytes"
      using send_blocks_quiet [of "put_buf s tx c" i tx c bytes fuel] c(3) fuel by auto
    have "send_local_file fuel s i (Some bytes) (media_type ?file) = Inr (put_buf s tx d, True)"
      using head(1) c(1) d(1) unfolding send_local_file_def option.case Let_def
      by (simp add: guard_else_def)
    then show thesis using Some c(2) d(2) r by (intro that [of d]) (simp_all add: sends)
  qed
qed

subsection \<open>Properties\<close>

text \<open>C8. A request for a file is answered with the file: when the receive buffer of a connection
  starts with a line \<^verbatim>\<open>GET path version\<close>, the server takes that line off the stream and appends the
  whole answer to the transmit buffer before it closes the connection: the header with the length
  and the type of the file and then its bytes, whatever their number, or the page for a missing
  file. (The network is quiet, the answer fits the transmit buffer and each block the peer's window.)\<close>

theorem http_get_answered:
  assumes "conn_buf (c_rx_buf (conn s i)) = Inr rx" and "get_buf s rx = Inr b" and "buf_ok b"
    and "contents b = request_line path version @ RETURN # NEWLINE # rest"
    and "{0, NEWLINE, RETURN, SPACE} \<inter> set path = {}" and "path \<noteq> []" and "{0, NEWLINE, RETURN} \<inter> set version = {}"
    and "length (request_line path version) < 1024" and "length (file_path_of path) < 255"
    and "writable s i tx t (length (http_response files path))" and "rx \<noteq> tx" and "1024 < fuel"
  shows "\<exists>b' t'. http_serve files fuel s i = close_http (put_buf (put_buf s rx b') tx t') i \<and>
    contents b' = rest \<and> contents t' = contents t @ http_response files path"
proof -
  let ?l = "request_line path version @ [RETURN]"
  have plain: "{0, NEWLINE, RETURN} \<inter> set (request_line path version) = {}"
    using assms(5,7) by (auto simp: request_line_def text_bytes_def NEWLINE_def RETURN_def SPACE_def)
  then have "filter (\<lambda>c. c \<noteq> RETURN) (request_line path version) = request_line path version"
    by (intro filter_True) auto
  then have strip: "filter (\<lambda>c. c \<noteq> RETURN) ?l = request_line path version" by simp
  have len: "length (filter (\<lambda>c. c \<noteq> RETURN) ?l) < 1024" unfolding strip by (rule assms(8))
  have line: "NEWLINE \<notin> set ?l" "length ?l < fuel" "contents b = ?l @ NEWLINE # rest" "pcap_input s = []"
    using plain assms(4,8,10,12) by (auto simp: NEWLINE_def RETURN_def writable_def)
  obtain c where c: "get_line fuel s i 1024 = Inr (put_buf s rx c, request_line path version)" "contents c = rest"
    using get_line_quiet [OF line(1,2) len assms(1-3) line(3,4)] unfolding strip by blast
  have ne: "request_line path version \<noteq> []" by (simp add: request_line_def)
  have parsed: "request_path (request_line path version) = Some path"
    using assms(5-7) by (intro request_path_line) auto
  have w: "writable (put_buf s rx c) i tx t (length (http_response files path))"
    using assms(10,11) by (simp add: writable_def)
  have fuel: "0 < fuel" using assms(12) by simp
  obtain d where "send_file files fuel (put_buf s rx c) i path = Inr (put_buf (put_buf s rx c) tx d)"
    "contents d = contents t @ http_response files path"
    by (rule send_file_quiet [OF w fuel assms(6,9)])
  then show ?thesis using c ne parsed by (auto simp: http_serve_def)
qed

text \<open>A connection with the request \<open>GET / HTTP/1.1\<close> in its receive buffer, and a page to serve.\<close>

definition demo_request :: net where
  "demo_request = (let s = put_buf (demo_conn demo_state) (Heapbuf 7)
       (demo_buf (request_line [SLASH] (text_bytes ''HTTP/1.1'') @ [RETURN, NEWLINE, 7]))
     in put_conn s 0 ((conn s 0)\<lparr>c_remote_win := 30000\<rparr>))"

definition demo_files :: "u8 list \<Rightarrow> u8 list option" where
  "demo_files = [text_bytes ''../htmldocs/index.html'' \<mapsto> text_bytes ''hello'']"

lemma demo_request_fields:
  "conn_buf (c_rx_buf (conn demo_request 0)) = Inr (Heapbuf 7)"
  "get_buf demo_request (Heapbuf 7) =
    Inr (demo_buf (request_line [SLASH] (text_bytes ''HTTP/1.1'') @ [RETURN, NEWLINE, 7]))"
  "writable demo_request 0 (Heapbuf 8) (demo_buf []) 5000"
  by (simp_all add: demo_request_def Let_def writable_def in_flight_def demo_conn_fields CONNECT_LISTEN_def deref_def
      put_conn_def demo_buf_def [of "[]"] conn_buf_def)
    (simp_all add: demo_conn_def demo_state_def put_buf_def deref_def demo_buf_def [of "[]"])

lemma demo_response:
  "http_response demo_files [SLASH] = text_bytes ''HTTP/1.1 200 OK'' @ [NEWLINE] @
     text_bytes ''Content-Length: 5'' @ [NEWLINE] @ text_bytes ''Content-Type: text/html'' @ [NEWLINE] @
     text_bytes ''Server: ChiServer/0.1'' @ [NEWLINE, NEWLINE] @ text_bytes ''hello''"
  by code_simp

theorem http_get_answered_witness:
  "\<exists>b' t'. http_serve demo_files 2000 demo_request 0 =
      close_http (put_buf (put_buf demo_request (Heapbuf 7) b') (Heapbuf 8) t') 0 \<and>
    contents b' = [7] \<and> contents t' = http_response demo_files [SLASH]"
proof -
  have page: "length (file_path_of [SLASH]) < 255" by (simp add: file_path_of_def XHTTP_DOC_DIR_def)
  have w: "writable demo_request 0 (Heapbuf 8) (demo_buf []) (length (http_response demo_files [SLASH]))"
    using demo_request_fields(3) by (simp add: writable_def demo_response)
  have ok: "buf_ok (demo_buf (request_line [SLASH] (text_bytes ''HTTP/1.1'') @ [RETURN, NEWLINE, 7]))"
    by (intro buf_ok_demo_buf) (simp add: request_line_def)
  have chars: "{0, NEWLINE, RETURN, SPACE} \<inter> set [SLASH] = {}" "{0, NEWLINE, RETURN} \<inter> set (text_bytes ''HTTP/1.1'') = {}"
    by (simp_all add: NEWLINE_def RETURN_def SPACE_def SLASH_def text_bytes_def)
  have len: "length (request_line [SLASH] (text_bytes ''HTTP/1.1'')) < 1024"
    by (simp add: request_line_def)
  show ?thesis
    using http_get_answered [OF demo_request_fields(1,2) ok _ chars(1) _ chars(2) len page w, of "[7]" 2000] by simp
qed

text \<open>C35. The server goes on reading a connection that has been reset: \<open>tcp_reset\<close> frees the buffers of
  the connection and does not tell the server, whose next read is of freed memory.\<close>

theorem http_serves_reset_connection:
  assumes "tcp_reset s i key n = Inr s1" and "c_state (conn s i) \<noteq> TCP_LISTEN"
    and "c_rx_buf (conn s i) \<noteq> None" and "0 < fuel"
  shows "http_serve files fuel s1 i = Inl UseAfterFree"
proof -
  obtain s3 s4 where k: "keeps s s3" "release_at s3 i = Inr s4"
    and s1: "s1 = s4\<lparr>connect_table := map_delete (connect_table s4) (clock s4) key\<rparr>"
    using assms(1) by (auto simp: tcp_reset_def Let_def dest!: keeps_ops; blast intro: keeps_trans)
  have "own_view (conn s3 i) = own_view (conn s i)" using k(1) by (simp add: keeps_def)
  then have c: "c_state (conn s3 i) \<noteq> TCP_LISTEN" "c_rx_buf (conn s3 i) \<noteq> None"
    using assms(2,3) by (auto simp: own_view_def)
  then obtain a where a: "c_rx_buf (conn s3 i) = Some a" by auto
  have "c_rx_buf (conn s1 i) = Some a" "h_bufs (mheap s1) a = None"
    using k(2) c(1) a unfolding s1
    by (auto simp: release_at_def release_tcp_connect_def free_ptr_def free_buf_def put_conn_def
        split: option.splits if_splits)
  then have "tcp_connect_read s1 i 1 = Inl UseAfterFree"
    by (simp add: tcp_connect_read_def conn_buf_def deref_def)
  then show ?thesis using assms(4)
    by (cases fuel) (simp_all add: http_serve_def get_line_def get_line_loop.simps)
qed

theorem http_serves_reset_connection_witness:
  "\<exists>s1. tcp_reset (demo_connected tcp_flags_ack) 0 (new_tcp_key (10, 0, 0, 9) 1234 61000) 5 = Inr s1 \<and>
    http_serve demo_files 2000 s1 0 = Inl UseAfterFree"
proof -
  let ?s = "demo_connected tcp_flags_ack"
  have "conn ?s 0 = conn (demo_conn demo_peer) 0"
    by (simp add: demo_connected_def demo_ports_def conn_def map_val_def demo_conn_def)
  then have f: "c_state (conn ?s 0) \<noteq> TCP_LISTEN" "c_rx_buf (conn ?s 0) = Some 7" "c_tx_buf (conn ?s 0) = Some 8"
    "map_lookup (clock ?s) (arp_table ?s) (c_ip (conn ?s 0)) = Some (2, 0, 0, 0, 0, 9)"
    by (simp_all add: demo_conn_fields demo_connected_fields)
  have heap: "h_bufs (mheap ?s) 7 = Some (demo_buf []) \<and> h_bufs (mheap ?s) 8 = Some (demo_buf [])"
    by (simp add: demo_connected_def demo_ports_def demo_conn_def)
  have "(7 :: nat) \<noteq> 8" by simp
  moreover have "map_inv (clock ?s) (connect_table ?s)" by (simp add: demo_connected_fields)
  ultimately obtain s1 where s1: "tcp_reset ?s 0 (new_tcp_key (10, 0, 0, 9) 1234 61000) 5 = Inr s1"
    using tcp_reset_known [OF f(1-3) _ heap f(4)] by blast
  have "c_rx_buf (conn ?s 0) \<noteq> None" using f(2) by simp
  from http_serves_reset_connection [OF s1 f(1) this, of 2000 demo_files] s1 show ?thesis by simp
qed

end
