(* ===== verification/Harness.thy ===== *)
theory Harness
  imports Driver Udp
begin

text \<open>
  The test harness (\<^verbatim>\<open>testing/global.c\<close>, \<^verbatim>\<open>testing/faker/driver.c\<close> and the comparison in
  \<^verbatim>\<open>testing/ip_frag_test.c\<close>): the line reader, the two comparisons that decide whether a test
  passes, and the driver that reads and writes capture files. A \<^verbatim>\<open>FILE\<close> that is read is the list of
  the bytes still to come; a capture file is the list of what \<^verbatim>\<open>pcap_next_ex\<close> returns for it, with
  the documented code -2 at its end. The messages on the terminal are not modelled, and
  \<^verbatim>\<open>realloc\<close> never fails.
\<close>

declare ebind_cong [fundef_cong]

subsection \<open>Texts\<close>

text \<open>The path of a file is put together in 128 bytes.\<close>

definition open_file :: "string \<Rightarrow> string \<Rightarrow> string res" where
  "open_file path name =
     (let filename = path @ ''/'' @ name in
      ebind (guard_else (length filename + 1 \<le> 128) OutOfBounds) (\<lambda>_. Inr filename))"

definition print_ip :: "ip_addr option \<Rightarrow> string res" where
  "print_ip ip = (case ip of
     None \<Rightarrow> Inr ''(null)''
   | Some (a, b, c, d) \<Rightarrow>
       let result = fmt_d (unat a) @ ''.'' @ fmt_d (unat b) @ ''.'' @ fmt_d (unat c) @ ''.'' @ fmt_d (unat d) in
       ebind (guard_else (length result + 1 \<le> 32) OutOfBounds) (\<lambda>_. Inr result))"

definition print_mac :: "mac_addr option \<Rightarrow> string res" where
  "print_mac mac = (case mac of
     None \<Rightarrow> Inr ''(null)''
   | Some (a, b, c, d, e, f) \<Rightarrow>
       let result = fmt_02x a @ '':'' @ fmt_02x b @ '':'' @ fmt_02x c @ '':'' @
         fmt_02x d @ '':'' @ fmt_02x e @ '':'' @ fmt_02x f in
       ebind (guard_else (length result + 1 \<le> 32) OutOfBounds) (\<lambda>_. Inr result))"

definition fprint_buf :: "buf_t option \<Rightarrow> string res" where
  "fprint_buf buf = (case buf of
     None \<Rightarrow> Inr (CHR 0x09 # ''buf:'' @ ''(null)'' @ [CHR 0x0A])
   | Some b \<Rightarrow>
       ebind (buf_read b (buf_data b) (buf_len b)) (\<lambda>bs.
       Inr (CHR 0x09 # ''buf:'' @ concat (map (\<lambda>x. '' '' @ fmt_02x x) bs) @ [CHR 0x0A])))"

subsection \<open>The tables in the log\<close>

fun concat_res :: "string res list \<Rightarrow> string res" where
  "concat_res [] = Inr []"
| "concat_res (t # ts) = ebind t (\<lambda>x. ebind (concat_res ts) (\<lambda>y. Inr (x @ y)))"

definition log_arp_entry :: "(ip_addr, mac_addr) entry \<Rightarrow> string res" where
  "log_arp_entry e =
     ebind (print_ip (Some (ent_key e))) (\<lambda>ip.
     ebind (print_mac (Some (ent_val e))) (\<lambda>mac.
     Inr (ip @ '' -> '' @ mac @ [CHR 0x0A])))"

text \<open>The packets that wait for an address, from the first node of their queue on; the fuel is the number
  of addresses the heap has handed out plus one.\<close>

fun log_nodes :: "nat \<Rightarrow> heap \<Rightarrow> ip_addr \<Rightarrow> nat option \<Rightarrow> string res" where
  "log_nodes fuel h ip None = Inl NullDeref"
| "log_nodes 0 h ip (Some a) = Inl OutOfFuel"
| "log_nodes (Suc fuel) h ip (Some a) =
     ebind (print_ip (Some ip)) (\<lambda>t.
     ebind (node_read h a) (\<lambda>node.
     ebind (deref (n_item node) NullDeref) (\<lambda>item.
     ebind (deref (h_bufs h item) UseAfterFree) (\<lambda>buf.
     ebind (buf_read buf (buf_data buf) (buf_len buf)) (\<lambda>bs.
     let line = t @ '' -> '' @ concat (map (\<lambda>x. '' '' @ fmt_02x x) bs) @ [CHR 0x0A] in
     case n_next node of
       None \<Rightarrow> Inr line
     | Some a' \<Rightarrow> ebind (log_nodes fuel h ip (Some a')) (\<lambda>rest. Inr (line @ rest)))))))"

definition log_tab_buf :: "net \<Rightarrow> string res" where
  "log_tab_buf s =
     ebind (concat_res (map (\<lambda>i.
       let e = m_data (arp_table s) i in
       if map_entry_valid (arp_table s) (clock s) e then log_arp_entry e else Inr [])
       [0..<m_max_size (arp_table s)])) (\<lambda>entries.
     ebind (concat_res (map (\<lambda>i.
       let e = m_data (arp_buf s) i in
       if map_entry_valid (arp_buf s) (clock s) e
       then log_nodes (Suc (h_next (mheap s))) (mheap s) (ent_key e) (q_head (ent_val e)) else Inr [])
       [0..<m_max_size (arp_buf s)])) (\<lambda>waiting.
     Inr (''<====== arp table =======>'' @ [CHR 0x0A] @ entries @
       ''<====== arp buf =======>'' @ [CHR 0x0A] @ waiting)))"

text \<open>The texts of addresses never overflow their buffers.\<close>

lemma print_ip_fits: "\<exists>t. print_ip ip = Inr t \<and> length t \<le> 15"
proof (cases ip)
  case (Some x)
  obtain a b c d where x: "x = (a, b, c, d)" by (cases x)
  have "length (fmt_d (unat y)) \<le> 3" for y :: u8
    using length_fmt_d(1-3) [of "unat y"] unat_u8_less [of y] by (cases "unat y < 10"; cases "unat y < 100") auto
  from this [of a] this [of b] this [of c] this [of d] show ?thesis
    by (simp add: print_ip_def Some x Let_def guard_else_def)
qed (simp add: print_ip_def)

lemma print_mac_fits: "\<exists>t. print_mac mac = Inr t \<and> length t \<le> 17"
  by (auto simp: print_mac_def fmt_02x_def Let_def guard_else_def split: option.splits)

subsection \<open>Reading a line\<close>

text \<open>
  \<open>buf\<close> holds the \<^verbatim>\<open>i\<close> bytes stored so far and \<open>sz\<close> is the size of the allocation; the result is the
  return value with the line and the rest of the file. Carriage returns are skipped.
\<close>

fun getline_loop :: "nat \<Rightarrow> u8 list \<Rightarrow> u8 list \<Rightarrow> (int \<times> u8 list \<times> u8 list) res" where
  "getline_loop sz buf [] =
     (if length buf < sz then Inr (if length buf = 0 then -1 else int (length buf), buf, [])
      else Inr (-1, buf, []))"
| "getline_loop sz buf (c # fp) =
     (if length buf < sz then
        if c = 13 then getline_loop sz buf fp
        else
          let sz1 = (if length buf \<ge> sz - 1 then sz * 2 else sz) in
          ebind (guard_else (length buf < sz1) OutOfBounds) (\<lambda>_.
          if c = 10 then
            ebind (guard_else (length buf + 1 < sz1) OutOfBounds) (\<lambda>_.
            Inr (int (length buf) + 1, buf @ [c], fp))
          else getline_loop sz1 (buf @ [c]) fp)
      else Inr (-1, buf, c # fp))"

text \<open>
  The size the caller's allocation has when \<^verbatim>\<open>getline\<close> is called, at least 256, makes no difference
  (\<open>getline_spec\<close>).
\<close>

definition getline :: "nat \<Rightarrow> u8 list \<Rightarrow> (int \<times> u8 list \<times> u8 list) res" where
  "getline n fp = getline_loop (if n < 256 then 256 else n) [] fp"

text \<open>The line of a file: up to the first newline, without carriage returns.\<close>

definition line_of :: "u8 list \<Rightarrow> u8 list" where
  "line_of fp = filter (\<lambda>c. c \<noteq> 13) (takeWhile (\<lambda>c. c \<noteq> 10) fp) @ take 1 (dropWhile (\<lambda>c. c \<noteq> 10) fp)"

definition after_line :: "u8 list \<Rightarrow> u8 list" where
  "after_line fp = drop 1 (dropWhile (\<lambda>c. c \<noteq> 10) fp)"

lemma getline_loop_spec:
  "length buf < sz \<Longrightarrow> 2 \<le> sz \<Longrightarrow> getline_loop sz buf fp =
    (let l = buf @ line_of fp in Inr (if l = [] then -1 else int (length l), l, after_line fp))"
proof (induction sz buf fp rule: getline_loop.induct)
  case (2 sz buf c fp)
  let ?sz = "if length buf \<ge> sz - 1 then sz * 2 else sz"
  have sz: "length buf + 1 < ?sz" "2 \<le> ?sz" using 2(3,4) by auto
  show ?case
  proof (cases "c = 13 \<or> c = 10")
    case True
    then show ?thesis using 2 sz by (auto simp: line_of_def after_line_def Let_def)
  next
    case False
    then have "getline_loop ?sz (buf @ [c]) fp =
        (let l = (buf @ [c]) @ line_of fp in Inr (if l = [] then -1 else int (length l), l, after_line fp))"
      using 2(2) [OF 2(3) _ refl, of "()"] sz by simp
    then show ?thesis using False 2(3) sz by (simp add: line_of_def after_line_def Let_def)
  qed
qed (auto simp: line_of_def after_line_def)

lemma getline_spec:
  "getline n fp = Inr (if line_of fp = [] then -1 else int (length (line_of fp)), line_of fp, after_line fp)"
  by (simp add: getline_def getline_loop_spec Let_def)

lemma after_line_shorter: "line_of fp \<noteq> [] \<Longrightarrow> length (after_line fp) < length fp"
proof -
  assume "line_of fp \<noteq> []"
  then have "0 < length fp" by (auto simp: line_of_def)
  moreover have "length (dropWhile (\<lambda>c. c \<noteq> 10) fp) \<le> length fp" by (rule length_dropWhile_le)
  ultimately show ?thesis unfolding after_line_def length_drop by linarith
qed

lemma after_line_le: "length (after_line fp) \<le> length fp"
  unfolding after_line_def length_drop by (rule le_trans [OF diff_le_self length_dropWhile_le])

subsection \<open>Comparing logs\<close>

definition ROUND :: "u8 list" where "ROUND = [82, 111, 117, 110, 100]"

text \<open>A line ends with a NUL, so that \<^verbatim>\<open>memcmp\<close> with \<^verbatim>\<open>Round\<close> never looks behind it.\<close>

function get_round :: "u8 list \<Rightarrow> (int \<times> u8 list) res" where
  "get_round f =
     ebind (getline 0 f) (\<lambda>(len, p, f1).
     if len = -1 then Inr (-1, f1)
     else if take 5 p \<noteq> ROUND then get_round f1
     else Inr (0, f1))"
  by pat_completeness auto
termination
  by (relation "measure length") (auto simp: getline_spec after_line_shorter split: if_splits)

declare get_round.simps [simp del]

text \<open>The number of the first differing line of the round, or 0, and what is left of both files.\<close>

function check_round_from :: "nat \<Rightarrow> u8 list \<Rightarrow> u8 list \<Rightarrow> (nat \<times> u8 list \<times> u8 list) res" where
  "check_round_from line demo_log out_log =
     ebind (getline 0 demo_log) (\<lambda>(len0, p0, demo1).
     ebind (getline 0 out_log) (\<lambda>(len1, p1, out1).
     if len0 \<noteq> len1 then Inr (Suc line, demo1, out1)
     else if len0 = -1 then Inr (if len1 \<noteq> -1 then Suc line else 0, demo1, out1)
     else if len0 \<le> 1 then Inr (0, demo1, out1)
     else if p0 \<noteq> p1 then Inr (Suc line, demo1, out1)
     else check_round_from (Suc line) demo1 out1))"
  by pat_completeness auto
termination
  by (relation "measure (\<lambda>(line, demo, out). length demo)") (auto simp: getline_spec after_line_shorter split: if_splits)

declare check_round_from.simps [simp del]

definition check_round :: "u8 list \<Rightarrow> u8 list \<Rightarrow> (nat \<times> u8 list \<times> u8 list) res" where
  "check_round demo_log out_log = check_round_from 0 demo_log out_log"

lemma get_round_total: "\<exists>r f1. get_round f = Inr (r, f1)"
proof (induction f rule: measure_induct_rule [of length])
  case (less f)
  show ?case
  proof (cases "line_of f = []")
    case True
    then show ?thesis by (subst get_round.simps) (simp add: getline_spec)
  next
    case False
    with less [OF after_line_shorter [OF False]] show ?thesis
      by (subst get_round.simps) (auto simp: getline_spec)
  qed
qed

lemma get_round_shorter: "get_round f = Inr (r, f1) \<Longrightarrow> length f1 \<le> length f \<and> (r = 0 \<longrightarrow> length f1 < length f)"
proof (induction f arbitrary: r f1 rule: get_round.induct)
  case (1 f)
  show ?case
  proof (cases "line_of f = []")
    case True
    then show ?thesis using 1(2) by (auto simp: get_round.simps [of f] getline_spec after_line_le)
  next
    case False
    then have "length (after_line f) < length f" by (rule after_line_shorter)
    then show ?thesis
      using False 1(1) [OF getline_spec refl refl, of r f1] 1(2)
      by (auto simp: get_round.simps [of f] getline_spec split: if_splits)
  qed
qed

lemma check_round_from_shorter:
  "check_round_from line d e = Inr (r, d1, e1) \<Longrightarrow> length d1 \<le> length d \<and> length e1 \<le> length e"
proof (induction line d e arbitrary: r d1 e1 rule: check_round_from.induct)
  case (1 line d e)
  note le = after_line_le [of d] after_line_le [of e]
  show ?case
    using le 1(2) 1(1) [OF getline_spec refl refl getline_spec refl refl, of r d1 e1]
    by (auto simp: check_round_from.simps [of line d e] getline_spec split: if_splits)
qed

text \<open>All rounds of the demo log, and then what the other log has more.\<close>

function check_log_rounds :: "u8 list \<Rightarrow> u8 list \<Rightarrow> int \<Rightarrow> (int \<times> u8 list) res" where
  "check_log_rounds demo_log out_log result =
     ebind (get_round demo_log) (\<lambda>(r0, demo1).
     if r0 = 0 then
       ebind (get_round out_log) (\<lambda>(r1, out1).
       if r1 \<noteq> 0 then check_log_rounds demo1 out1 1
       else
         ebind (check_round demo1 out1) (\<lambda>(ret, demo2, out2).
         check_log_rounds demo2 out2 (if ret \<noteq> 0 then 1 else result)))
     else Inr (result, out_log))"
  by pat_completeness auto
termination
  by (relation "measure (\<lambda>(demo, out, result). length demo)")
    (auto simp: check_round_def dest!: get_round_shorter check_round_from_shorter)

declare check_log_rounds.simps [simp del]

function additional_rounds :: "u8 list \<Rightarrow> int \<Rightarrow> int res" where
  "additional_rounds out_log result =
     ebind (get_round out_log) (\<lambda>(r, out1).
     if r = 0 then additional_rounds out1 1 else Inr result)"
  by pat_completeness auto
termination
  by (relation "measure (\<lambda>(out, result). length out)") (auto dest!: get_round_shorter)

declare additional_rounds.simps [simp del]

definition check_log :: "u8 list \<Rightarrow> u8 list \<Rightarrow> int res" where
  "check_log demo_log out_log =
     ebind (check_log_rounds demo_log out_log 0) (\<lambda>(result, out1).
     additional_rounds out1 result)"

text \<open>\<^verbatim>\<open>ip_frag_test\<close> compares its two logs byte by byte; the result is \<^verbatim>\<open>diff\<close>.\<close>

fun compare_logs :: "u8 list \<Rightarrow> u8 list \<Rightarrow> int" where
  "compare_logs [] log = (case log of c2 # _ \<Rightarrow> 1 | [] \<Rightarrow> 0)"
| "compare_logs (c1 # demo) log =
     (case log of
        [] \<Rightarrow> 1
      | c2 # log' \<Rightarrow> if c1 \<noteq> c2 then 1 else compare_logs demo log')"

lemma compare_logs_eq: "compare_logs demo log = 0 \<longleftrightarrow> demo = log"
  by (induction demo log rule: compare_logs.induct) (auto split: list.splits)

subsection \<open>Comparing capture files\<close>

text \<open>The status of \<^verbatim>\<open>pcap_next_ex\<close>, the packet with its length if there is one, and the rest.\<close>

definition next_ex :: "pcap_event list \<Rightarrow> int \<times> (u8 list \<times> nat) option \<times> pcap_event list" where
  "next_ex p = (case p of
     [] \<Rightarrow> (pcap_error_code PCAP_ERROR_BREAK, None, [])
   | Pcap_packet bytes len # p' \<Rightarrow> (1, Some (bytes, len), p')
   | Pcap_none # p' \<Rightarrow> (0, None, p')
   | Pcap_error # p' \<Rightarrow> (-1, None, p'))"

definition memcmp_differs :: "u8 list \<Rightarrow> u8 list \<Rightarrow> nat \<Rightarrow> bool res" where
  "memcmp_differs a b n =
     ebind (guard_else (n \<le> length a \<and> n \<le> length b) OutOfBounds) (\<lambda>_. Inr (take n a \<noteq> take n b))"

function check_pcap_from :: "int \<Rightarrow> pcap_event list \<Rightarrow> pcap_event list \<Rightarrow> int res" where
  "check_pcap_from result pcap0 pcap1 =
     (case next_ex pcap0 of (ret0, pkt0, rest0) \<Rightarrow>
      case next_ex pcap1 of (ret1, pkt1, rest1) \<Rightarrow>
        if ret0 = -1 then Inr result
        else if ret1 = -1 then Inr result
        else if ret0 = pcap_error_code PCAP_ERROR_BREAK then
          (if ret1 = 1 then check_pcap_from 1 rest0 rest1
           else if ret1 = pcap_error_code PCAP_ERROR_BREAK then Inr result
           else Inr 1)
        else if ret1 = pcap_error_code PCAP_ERROR_BREAK then
          (if ret0 \<noteq> 1 then Inr 1 else check_pcap_from 1 rest0 rest1)
        else
          (case pkt0 of
             None \<Rightarrow> Inl NullDeref
           | Some (data0, len0) \<Rightarrow>
               (case pkt1 of
                  None \<Rightarrow> Inl NullDeref
                | Some (data1, len1) \<Rightarrow>
                    if len0 \<noteq> len1 then check_pcap_from 1 rest0 rest1
                    else
                      ebind (memcmp_differs data0 data1 len0) (\<lambda>differs.
                      check_pcap_from (if differs then 1 else result) rest0 rest1))))"
  by pat_completeness auto
termination
  by (relation "measure (\<lambda>(result, p0, p1). length p0 + length p1)")
    (auto simp: next_ex_def split: list.splits pcap_event.splits)

declare check_pcap_from.simps [simp del]

definition check_pcap :: "pcap_event list option \<Rightarrow> pcap_event list option \<Rightarrow> int res" where
  "check_pcap pcap_demo pcap_out =
     (case pcap_demo of
        None \<Rightarrow> Inr (-1)
      | Some pcap0 \<Rightarrow>
          (case pcap_out of None \<Rightarrow> Inr (-1) | Some pcap1 \<Rightarrow> check_pcap_from 0 pcap0 pcap1))"

subsection \<open>The driver of the tests\<close>

text \<open>What is left of the input file and of the output file are \<open>pcap_input\<close> and \<open>sent\<close>.\<close>

definition fake_driver_open :: "bool \<Rightarrow> bool \<Rightarrow> int" where
  "fake_driver_open pcap_opens pdump_opens =
     (if \<not> pcap_opens then -1 else if \<not> pdump_opens then -1 else 0)"

definition fake_driver_recv :: "net \<Rightarrow> bufref \<Rightarrow> (net \<times> int) res" where
  "fake_driver_recv s r =
     (case next_ex (pcap_input s) of (ret, pkt, rest) \<Rightarrow>
        let s1 = s\<lparr>pcap_input := rest\<rparr> in
        if ret = pcap_error_code PCAP_ERROR_BREAK then Inr (s1, 0)
        else if ret = 1 then
          ebind (deref pkt NullDeref) (\<lambda>(data, len).
          ebind (buf_do (\<lambda>b. buf_init b len) s1 r) (\<lambda>s2.
          ebind (guard_else (len \<le> length data) OutOfBounds) (\<lambda>_.
          ebind (get_buf s2 r) (\<lambda>b.
          ebind (mem_write s2 r (buf_data b) (take len data)) (\<lambda>s3.
          Inr (s3, int len))))))
        else Inr (s1, -1))"

definition fake_driver_send :: "net \<Rightarrow> bufref \<Rightarrow> (net \<times> int) res" where
  "fake_driver_send s r =
     ebind (get_buf s r) (\<lambda>b.
     ebind (buf_read b (buf_data b) (buf_len b)) (\<lambda>bytes.
     Inr (s\<lparr>sent := sent s @ [bytes]\<rparr>, 0)))"

text \<open>Unlike the real driver, this one starts every packet at the same place.\<close>

lemma fake_driver_recv_packet:
  assumes "pcap_input s = Pcap_packet data len # evs" and "get_buf s r = Inr b"
    and "len \<le> length data" and "len < 65662"
  obtains s' b' where "fake_driver_recv s r = Inr (s', int len)" and "get_buf s' r = Inr b'"
    and "contents b' = take len data" and "buf_data b' = 65662 - len"
proof -
  let ?s1 = "s\<lparr>pcap_input := evs\<rparr>"
  have b: "get_buf ?s1 r = Inr b" using assms(2) by (cases r) simp_all
  let ?b1 = "fst (buf_init b len)"
  have b1: "buf_data ?b1 = 65662 - len" "buf_len ?b1 = len" using assms(4) by (simp_all add: buf_init_def)
  let ?b2 = "poke ?b1 0 (take len data)"
  have b2: "contents ?b2 = take len data"
    using contents_poke [of ?b1 "[]" "contents ?b1" "[]" "take len data" 0] assms(3) b1 by simp
  have "mem_write (put_buf ?s1 r ?b1) r (buf_data ?b1) (take len data) = Inr (put_buf (put_buf ?s1 r ?b1) r ?b2)"
    using mem_write_poke [of "put_buf ?s1 r ?b1" r ?b1 0 "take len data"] assms(3,4) b1 by simp
  then have "fake_driver_recv s r = Inr (put_buf ?s1 r ?b2, int len)"
    using assms(1,3) by (simp add: fake_driver_recv_def next_ex_def buf_do_get [OF b])
  with b2 b1(1) show thesis by (intro that [of "put_buf ?s1 r ?b2" ?b2]) simp_all
qed

subsection \<open>What the comparisons decide\<close>

lemma check_round_from_same: "\<exists>d. check_round_from line f f = Inr (0, d, d) \<and> length d \<le> length f"
proof (induction f arbitrary: line rule: measure_induct_rule [of length])
  case (less f)
  show ?case
  proof (cases "length (line_of f) \<le> 1")
    case True
    then show ?thesis
      by (subst check_round_from.simps) (auto simp: getline_spec after_line_le)
  next
    case False
    then have "length (after_line f) < length f" by (intro after_line_shorter) auto
    with less [OF this, of "Suc line"] False show ?thesis
      by (subst check_round_from.simps) (auto simp: getline_spec intro: order_trans less_imp_le)
  qed
qed

lemma additional_rounds_one: "additional_rounds f 1 = Inr 1"
proof (induction f rule: measure_induct_rule [of length])
  case (less f)
  obtain r f1 where g: "get_round f = Inr (r, f1)" using get_round_total [of f] by auto
  with less [of f1] get_round_shorter [OF g] show ?case
    by (subst additional_rounds.simps) auto
qed

text \<open>A log passes the comparison with itself.\<close>

lemma check_log_rounds_same:
  "\<exists>d. check_log_rounds f f 0 = Inr (0, d) \<and> additional_rounds d 0 = Inr 0"
proof (induction f rule: measure_induct_rule [of length])
  case (less f)
  obtain r f1 where g: "get_round f = Inr (r, f1)" using get_round_total [of f] by auto
  show ?case
  proof (cases "r = 0")
    case True
    obtain d where d: "check_round f1 f1 = Inr (0, d, d)" "length d \<le> length f1"
      using check_round_from_same [of 0 f1] by (auto simp: check_round_def)
    have "length d < length f" using get_round_shorter [OF g] True d(2) by simp
    from less [OF this] show ?thesis
      by (subst check_log_rounds.simps) (simp add: g True d(1))
  next
    case False
    then show ?thesis
      by (subst check_log_rounds.simps) (simp add: g additional_rounds.simps [of f])
  qed
qed

lemma check_log_same: "check_log f f = Inr 0"
  using check_log_rounds_same [of f] by (auto simp: check_log_def)

definition whole :: "pcap_event list \<Rightarrow> bool" where
  "whole p \<longleftrightarrow> list_all (\<lambda>e. case e of Pcap_packet bytes len \<Rightarrow> len \<le> length bytes | _ \<Rightarrow> False) p"

definition packets :: "pcap_event list \<Rightarrow> u8 list list" where
  "packets p = map (\<lambda>e. case e of Pcap_packet bytes len \<Rightarrow> take len bytes | _ \<Rightarrow> []) p"

lemma whole_simps [simp]:
  "whole []" "whole (Pcap_packet bytes n # p) \<longleftrightarrow> n \<le> length bytes \<and> whole p"
  by (simp_all add: whole_def)

lemma packets_simps [simp]:
  "packets [] = []" "packets (Pcap_packet bytes n # p) = take n bytes # packets p"
  "packets (p @ q) = packets p @ packets q"
  by (simp_all add: packets_def)

lemma whole_cases [consumes 1, case_names Nil Cons]:
  assumes "whole p" obtains "p = []" | bytes n p' where "p = Pcap_packet bytes n # p'" "n \<le> length bytes" "whole p'"
  using assms by (cases p) (auto simp: whole_def split: pcap_event.splits)

lemma check_pcap_from_step:
  "check_pcap_from r [] [] = Inr r"
  "check_pcap_from r [] (Pcap_packet b n # q) = check_pcap_from 1 [] q"
  "check_pcap_from r (Pcap_packet a m # p) [] = check_pcap_from 1 p []"
  "m \<le> length a \<Longrightarrow> n \<le> length b \<Longrightarrow>
    check_pcap_from r (Pcap_packet a m # p) (Pcap_packet b n # q) =
      check_pcap_from (if take m a = take n b then r else 1) p q"
proof -
  show "check_pcap_from r [] [] = Inr r"
    by (subst check_pcap_from.simps) (simp add: next_ex_def)
  show "check_pcap_from r [] (Pcap_packet b n # q) = check_pcap_from 1 [] q"
    by (subst check_pcap_from.simps) (simp add: next_ex_def)
  show "check_pcap_from r (Pcap_packet a m # p) [] = check_pcap_from 1 p []"
    by (subst check_pcap_from.simps) (simp add: next_ex_def)
  assume "m \<le> length a" "n \<le> length b"
  moreover from this have "m \<noteq> n \<Longrightarrow> take m a \<noteq> take n b" by (metis length_take min.absorb2)
  ultimately show "check_pcap_from r (Pcap_packet a m # p) (Pcap_packet b n # q) =
      check_pcap_from (if take m a = take n b then r else 1) p q"
    by (subst check_pcap_from.simps)
      (auto simp: next_ex_def memcmp_differs_def)
qed

lemma check_pcap_from_rest: "whole p \<Longrightarrow> check_pcap_from r p [] = Inr (if p = [] then r else 1)"
  "whole q \<Longrightarrow> check_pcap_from r [] q = Inr (if q = [] then r else 1)"
  by (induction p arbitrary: r; force simp: check_pcap_from_step elim: whole_cases)
    (induction q arbitrary: r; force simp: check_pcap_from_step elim: whole_cases)

lemma check_pcap_from_whole:
  "whole p \<Longrightarrow> whole q \<Longrightarrow> check_pcap_from r p q = Inr (if packets p = packets q then r else 1)"
proof (induction p arbitrary: q r)
  case Nil
  then show ?case by (auto simp: check_pcap_from_rest packets_def)
next
  case (Cons e p)
  from Cons(2) obtain a m where e: "e = Pcap_packet a m" "m \<le> length a" "whole p"
    by (cases rule: whole_cases) auto
  from Cons(3) show ?case
  proof (cases rule: whole_cases)
    case Nil
    with Cons(2) e show ?thesis by (simp add: check_pcap_from_rest)
  next
    case (Cons b n q')
    with Cons.IH [OF e(3) Cons(3)] e show ?thesis by (simp add: check_pcap_from_step)
  qed
qed

lemma check_pcap_from_prefix:
  "whole p \<Longrightarrow> whole q \<Longrightarrow> packets p = packets q \<Longrightarrow>
    check_pcap_from r (p @ p1) (q @ q1) = check_pcap_from r p1 q1"
proof (induction p arbitrary: q)
  case Nil
  then show ?case by (simp add: packets_def)
next
  case (Cons e p)
  from Cons(2) obtain a m where e: "e = Pcap_packet a m" "m \<le> length a" "whole p"
    by (cases rule: whole_cases) auto
  from Cons(3) show ?case
  proof (cases rule: whole_cases)
    case Nil
    with Cons(4) show ?thesis by (simp add: packets_def)
  next
    case (Cons b n q')
    with Cons.IH [OF e(3) Cons(3)] Cons.prems(3) e show ?thesis by (simp add: check_pcap_from_step)
  qed
qed

text \<open>A packet that cannot be read ends the comparison with the result so far: the files pass, however
  they go on.\<close>

lemma check_pcap_error_passes:
  assumes "whole p" and "whole q" and "packets p = packets q"
  shows "check_pcap (Some (p @ Pcap_error # p1)) (Some (q @ q1)) = Inr 0"
    and "check_pcap (Some (p @ p1)) (Some (q @ Pcap_error # q1)) = Inr 0"
proof -
  have "check_pcap_from 0 (Pcap_error # p1) q1 = Inr 0" "check_pcap_from 0 p1 (Pcap_error # q1) = Inr 0"
    by (subst check_pcap_from.simps, simp add: next_ex_def split: prod.splits)+
  then show "check_pcap (Some (p @ Pcap_error # p1)) (Some (q @ q1)) = Inr 0"
    and "check_pcap (Some (p @ p1)) (Some (q @ Pcap_error # q1)) = Inr 0"
    by (simp_all add: check_pcap_def check_pcap_from_prefix [OF assms])
qed

text \<open>C36. The comparison of capture files decides equality: for two files that can be read to their ends,
  \<open>check_pcap\<close> terminates and returns 0 if they hold the same packets in the same order and 1
  otherwise, additional and missing packets included.\<close>

theorem check_pcap_decides:
  assumes "whole p" and "whole q"
  shows "check_pcap (Some p) (Some q) = Inr (if packets p = packets q then 0 else 1)"
  using check_pcap_from_whole [OF assms] by (simp add: check_pcap_def)

theorem check_pcap_decides_witness:
  "check_pcap (Some [Pcap_packet [1, 2, 9] 2]) (Some [Pcap_packet [1, 2] 2]) = Inr 0 \<and>
    check_pcap (Some [Pcap_packet [1, 2] 2]) (Some [Pcap_packet [1, 2] 2, Pcap_packet [3] 1]) = Inr 1"
  using check_pcap_decides [of "[Pcap_packet [1, 2, 9] 2]" "[Pcap_packet [1, 2] 2]"]
    check_pcap_decides [of "[Pcap_packet [1, 2] 2]" "[Pcap_packet [1, 2] 2, Pcap_packet [3] 1]"]
  by simp

end
