(* ===== verification/Stubs.thy ===== *)
theory Stubs
  imports Harness Ip
begin

text \<open>
  The stubs that replace a layer in a test (\<^verbatim>\<open>testing/faker\<close>): each appends a description of its call to
  the log. A stub is a function from the text of its log and its arguments to the new text; a null
  pointer is \<open>None\<close>. The lemmas show that no stub faults on a buffer inside its array, and that a log
  is only appended to. The \<^verbatim>\<open>init\<close> functions, which register the stubs with the dispatcher, are not
  modelled: the dispatcher of \<open>Net\<close> knows the layers themselves only.
\<close>

abbreviation nl :: string where "nl \<equiv> [CHR 0x0A]"
abbreviation tab :: string where "tab \<equiv> [CHR 0x09]"

definition fmt_int :: "int \<Rightarrow> string" where
  "fmt_int i = (if i < 0 then ''-'' @ fmt_d (nat (- i)) else fmt_d (nat i))"

text \<open>What the stubs have in common: lines, one of them with an address, and then the buffer.\<close>

definition log_call :: "string \<Rightarrow> string \<Rightarrow> string res \<Rightarrow> string \<Rightarrow> buf_t option \<Rightarrow> string res" where
  "log_call log head addr suffix buf =
     ebind addr (\<lambda>a. ebind (fprint_buf buf) (\<lambda>b. Inr (log @ head @ a @ nl @ suffix @ b)))"

definition stub_arp_in :: "string \<Rightarrow> buf_t option \<Rightarrow> mac_addr option \<Rightarrow> string res" where
  "stub_arp_in log buf src_mac = log_call log (''arp_in:'' @ nl @ tab @ ''mac:'') (print_mac src_mac) [] buf"

definition stub_arp_out :: "string \<Rightarrow> buf_t option \<Rightarrow> ip_addr option \<Rightarrow> string res" where
  "stub_arp_out log buf ip = log_call log (''arp_out:'' @ nl @ tab @ ''ip:'') (print_ip ip) [] buf"

definition stub_icmp_in :: "string \<Rightarrow> buf_t option \<Rightarrow> ip_addr option \<Rightarrow> string res" where
  "stub_icmp_in log buf src_ip = log_call log (''icmp_in:'' @ nl @ tab @ ''ip: '') (print_ip src_ip) [] buf"

definition stub_icmp_unreachable :: "string \<Rightarrow> buf_t option \<Rightarrow> ip_addr option \<Rightarrow> u8 \<Rightarrow> string res" where
  "stub_icmp_unreachable log recv_buf src_ip code =
     log_call log (''icmp_unreachable:'' @ nl @ tab @ ''ip: '')
       (case src_ip of None \<Rightarrow> Inr ''null'' | Some a \<Rightarrow> print_ip (Some a))
       (tab @ ''code: '' @ fmt_d (unat code) @ nl) recv_buf"

definition stub_ip_in :: "string \<Rightarrow> buf_t option \<Rightarrow> mac_addr option \<Rightarrow> string res" where
  "stub_ip_in log buf src_mac = log_call log (''ip_in:'' @ nl @ tab @ ''mac:'') (print_mac src_mac) [] buf"

definition stub_ip_fragment_out ::
  "string \<Rightarrow> buf_t option \<Rightarrow> ip_addr option \<Rightarrow> u16 \<Rightarrow> int \<Rightarrow> u16 \<Rightarrow> int \<Rightarrow> string res" where
  "stub_ip_fragment_out log buf ip protocol pid offset mf =
     log_call log (''ip_fragment_out:'' @ nl @ tab @ ''ip: '') (print_ip ip)
       (tab @ ''protocol: '' @ fmt_d (unat protocol) @ nl @ tab @ ''id: '' @ fmt_int pid @ nl @
        tab @ ''offset: '' @ fmt_d (unat offset) @ nl @ tab @ ''mf: '' @ fmt_int mf @ nl) buf"

definition stub_ip_out :: "string \<Rightarrow> buf_t option \<Rightarrow> ip_addr option \<Rightarrow> u16 \<Rightarrow> string res" where
  "stub_ip_out log buf ip protocol =
     log_call log (tab @ ''ip_out:'' @ nl @ tab @ ''ip: '') (print_ip ip)
       (tab @ ''protocol: '' @ fmt_d (unat protocol) @ nl) buf"

definition stub_udp_out :: "string \<Rightarrow> buf_t option \<Rightarrow> u16 \<Rightarrow> ip_addr option \<Rightarrow> u16 \<Rightarrow> string res" where
  "stub_udp_out log buf src_port dest_ip dest_port =
     log_call log (''udp_out:'' @ nl @ tab @ ''src_port: '' @ fmt_d (unat src_port) @ nl @ tab @ ''dest_ip: '')
       (print_ip dest_ip) (tab @ ''dest_port: '' @ fmt_d (unat dest_port) @ nl) buf"

definition stub_udp_open :: "string \<Rightarrow> u16 \<Rightarrow> string \<times> int" where
  "stub_udp_open log port = (log @ ''udp_open: port:'' @ fmt_d (unat port) @ nl, 0)"

definition stub_udp_close :: "string \<Rightarrow> u16 \<Rightarrow> string" where
  "stub_udp_close log port = log @ ''udp_close: port:'' @ fmt_d (unat port) @ nl"

definition stub_udp_send :: "string \<Rightarrow> u8 list option \<Rightarrow> u16 \<Rightarrow> u16 \<Rightarrow> ip_addr option \<Rightarrow> u16 \<Rightarrow> string res" where
  "stub_udp_send log data len src_port dest_ip dest_port =
     ebind (print_ip dest_ip) (\<lambda>a.
     let log1 = log @ ''udp_send:'' @ nl @ tab @ ''len:'' @ fmt_d (unat len) @ nl @
       tab @ ''src_port:'' @ fmt_d (unat src_port) @ nl @ tab @ ''dest_ip:'' @ a @ nl @
       tab @ ''dest_port:'' @ fmt_d (unat dest_port) @ nl @ tab @ ''data:'' in
     case data of
       None \<Rightarrow> Inr (log1 @ '' (null)'' @ nl)
     | Some bs \<Rightarrow>
         ebind (guard_else (unat len \<le> length bs) OutOfBounds) (\<lambda>_.
         Inr (log1 @ concat (map (\<lambda>x. '' '' @ fmt_02x x) (take (unat len) bs)) @ nl)))"

definition stub_udp_in :: "string \<Rightarrow> buf_t option \<Rightarrow> ip_addr option \<Rightarrow> string res" where
  "stub_udp_in log buf src_ip = log_call log (''udp_in:'' @ nl @ tab @ ''src_ip:'') (print_ip src_ip) [] buf"

definition stub_tcp_open :: "u16 \<Rightarrow> tcp_handler_t \<Rightarrow> int" where
  "stub_tcp_open port handler = 0"

subsection \<open>Logs only grow, by whole lines\<close>

definition grows :: "string \<Rightarrow> string \<Rightarrow> bool" where
  "grows log log' \<longleftrightarrow> (\<exists>t. log' = log @ t @ nl)"

lemma fprint_buf_line:
  "\<forall>b. buf = Some b \<longrightarrow> buf_data b + buf_len b \<le> BUF_MAX_LEN \<Longrightarrow> \<exists>t. fprint_buf buf = Inr (t @ nl)"
  by (cases buf) (auto simp: fprint_buf_def buf_read_def)

lemma log_call_grows:
  assumes "\<forall>b. buf = Some b \<longrightarrow> buf_data b + buf_len b \<le> BUF_MAX_LEN" and "addr = Inr a"
  shows "\<exists>log'. log_call log head addr suffix buf = Inr log' \<and> grows log log'"
proof -
  obtain t where "fprint_buf buf = Inr (t @ nl)" using fprint_buf_line [OF assms(1)] by blast
  moreover have "grows log (log @ head @ a @ nl @ suffix @ t @ nl)"
    by (auto simp: grows_def intro: exI [of _ "head @ a @ nl @ suffix @ t"])
  ultimately show ?thesis using assms(2) by (simp add: log_call_def)
qed

lemma stubs_log:
  assumes "\<forall>b. buf = Some b \<longrightarrow> buf_data b + buf_len b \<le> BUF_MAX_LEN"
  shows "\<exists>l. stub_arp_in log buf mac = Inr l \<and> grows log l" and "\<exists>l. stub_arp_out log buf ip = Inr l \<and> grows log l"
    and "\<exists>l. stub_icmp_in log buf ip = Inr l \<and> grows log l"
    and "\<exists>l. stub_icmp_unreachable log buf ip code = Inr l \<and> grows log l"
    and "\<exists>l. stub_ip_in log buf mac = Inr l \<and> grows log l"
    and "\<exists>l. stub_ip_fragment_out log buf ip protocol pid offset mf = Inr l \<and> grows log l"
    and "\<exists>l. stub_ip_out log buf ip protocol = Inr l \<and> grows log l"
    and "\<exists>l. stub_udp_out log buf sp ip dp = Inr l \<and> grows log l"
    and "\<exists>l. stub_udp_in log buf ip = Inr l \<and> grows log l"
proof -
  obtain m where m: "print_mac mac = Inr m" using print_mac_fits [of mac] by blast
  obtain a where a: "print_ip ip = Inr a" using print_ip_fits [of ip] by blast
  obtain u where u: "(case ip of None \<Rightarrow> Inr ''null'' | Some x \<Rightarrow> print_ip (Some x)) = (Inr u :: string res)"
    using a by (cases ip) auto
  note g = log_call_grows [OF assms m] log_call_grows [OF assms a] log_call_grows [OF assms u]
  show "\<exists>l. stub_arp_in log buf mac = Inr l \<and> grows log l" "\<exists>l. stub_arp_out log buf ip = Inr l \<and> grows log l"
    "\<exists>l. stub_icmp_in log buf ip = Inr l \<and> grows log l"
    "\<exists>l. stub_icmp_unreachable log buf ip code = Inr l \<and> grows log l"
    "\<exists>l. stub_ip_in log buf mac = Inr l \<and> grows log l"
    "\<exists>l. stub_ip_fragment_out log buf ip protocol pid offset mf = Inr l \<and> grows log l"
    "\<exists>l. stub_ip_out log buf ip protocol = Inr l \<and> grows log l"
    "\<exists>l. stub_udp_out log buf sp ip dp = Inr l \<and> grows log l"
    "\<exists>l. stub_udp_in log buf ip = Inr l \<and> grows log l"
    unfolding stub_arp_in_def stub_arp_out_def stub_icmp_in_def stub_icmp_unreachable_def stub_ip_in_def
      stub_ip_fragment_out_def stub_ip_out_def stub_udp_out_def stub_udp_in_def
    by (rule g)+
qed

end
