(* ===== verification/Structs.thy ===== *)
theory Structs
  imports Tcp
begin

text \<open>
  A small library of binary layouts, for the structs of the libpcap headers. A \<open>codec\<close> is an encoder,
  a decoder and the sizes of the scalar fields in order; \<open>cpair\<close> puts one behind the other and
  \<open>cmap\<close> names the fields. Every codec built this way satisfies \<open>fixed_codec\<close>. A C compiler lays a
  struct out without holes exactly if \<open>packed\<close> holds of the field sizes.
\<close>

type_synonym u64 = "64 word"

record 'a codec =
  c_enc :: "'a \<Rightarrow> u8 list"
  c_dec :: "u8 list \<Rightarrow> 'a"
  c_fields :: "nat list"

abbreviation c_width :: "'a codec \<Rightarrow> nat" where "c_width c \<equiv> sum_list (c_fields c)"

definition cu8 :: "u8 codec" where
  "cu8 = \<lparr>c_enc = (\<lambda>w. [w]), c_dec = (\<lambda>bs. bs ! 0), c_fields = [1]\<rparr>"

definition cu16 :: "u16 codec" where
  "cu16 = \<lparr>c_enc = u16_bytes, c_dec = (\<lambda>bs. le16 (bs ! 0) (bs ! 1)), c_fields = [2]\<rparr>"

definition cu32 :: "u32 codec" where
  "cu32 = \<lparr>c_enc = u32_bytes, c_dec = (\<lambda>bs. le32 (bs ! 0) (bs ! 1) (bs ! 2) (bs ! 3)), c_fields = [4]\<rparr>"

definition cpair :: "'a codec \<Rightarrow> 'b codec \<Rightarrow> ('a \<times> 'b) codec" where
  "cpair c d = \<lparr>c_enc = (\<lambda>(x, y). c_enc c x @ c_enc d y),
     c_dec = (\<lambda>bs. (c_dec c (take (c_width c) bs), c_dec d (drop (c_width c) bs))),
     c_fields = c_fields c @ c_fields d\<rparr>"

definition cmap :: "('h \<Rightarrow> 'a) \<Rightarrow> ('a \<Rightarrow> 'h) \<Rightarrow> 'a codec \<Rightarrow> 'h codec" where
  "cmap f g c = \<lparr>c_enc = (\<lambda>h. c_enc c (f h)), c_dec = (\<lambda>bs. g (c_dec c bs)), c_fields = c_fields c\<rparr>"

text \<open>A 64-bit field is stored as its low and its high half but aligned as a whole.\<close>

definition split64 :: "u64 \<Rightarrow> u32 \<times> u32" where
  "split64 w = (ucast w, ucast (drop_bit 32 w))"

definition join64 :: "u32 \<times> u32 \<Rightarrow> u64" where
  "join64 p = ucast (fst p) OR push_bit 32 (ucast (snd p))"

definition cu64 :: "u64 codec" where
  "cu64 = (cmap split64 join64 (cpair cu32 cu32))\<lparr>c_fields := [8]\<rparr>"

text \<open>Four and eight bytes in a row.\<close>

type_synonym bytes4 = "u8 \<times> u8 \<times> u8 \<times> u8"
type_synonym bytes8 = "u8 \<times> u8 \<times> u8 \<times> u8 \<times> u8 \<times> u8 \<times> u8 \<times> u8"

definition cbytes4 :: "bytes4 codec" where
  "cbytes4 = cpair cu8 (cpair cu8 (cpair cu8 cu8))"

definition cbytes8 :: "bytes8 codec" where
  "cbytes8 = cpair cu8 (cpair cu8 (cpair cu8 (cpair cu8 cbytes4)))"

subsection \<open>Every codec round-trips\<close>

definition codec_ok :: "'a codec \<Rightarrow> bool" where
  "codec_ok c \<longleftrightarrow> fixed_codec (c_enc c) (c_dec c) (c_width c)"

named_theorems codec_intros \<open>how codecs are built\<close>

lemma c_fields_simps [simp]:
  "c_fields cu8 = [1]" "c_fields cu16 = [2]" "c_fields cu32 = [4]" "c_fields cu64 = [8]"
  "c_fields (cpair c d) = c_fields c @ c_fields d" "c_fields (cmap f g c') = c_fields c'"
  by (simp_all add: cu8_def cu16_def cu32_def cu64_def cpair_def cmap_def)

lemma codec_ok_cu8 [codec_intros]: "codec_ok cu8"
  by (auto simp: codec_ok_def cu8_def fixed_codec_def length_Suc_conv)

lemma codec_ok_cu16 [codec_intros]: "codec_ok cu16"
  by (auto simp: codec_ok_def cu16_def fixed_codec_def numeral_eq_Suc length_Suc_conv u16_bytes_le16)
    (simp add: u16_bytes_def codec_simps)

lemma codec_ok_cu32 [codec_intros]: "codec_ok cu32"
  by (auto simp: codec_ok_def cu32_def fixed_codec_def numeral_eq_Suc length_Suc_conv)
    (simp_all add: u32_bytes_def codec_simps u32_bytes_le32 [unfolded u32_bytes_def])

lemma codec_ok_cpair [codec_intros]:
  assumes "codec_ok c" and "codec_ok d"
  shows "codec_ok (cpair c d)"
  using assms by (auto simp: codec_ok_def fixed_codec_def cpair_def)

lemma codec_ok_cmap [codec_intros]:
  assumes "codec_ok c" and "\<And>h. g (f h) = h" and "\<And>x. f (g x) = x"
  shows "codec_ok (cmap f g c)"
  using assms by (auto simp: codec_ok_def fixed_codec_def cmap_def)

lemma codec_ok_fields: "codec_ok c \<Longrightarrow> sum_list ns = c_width c \<Longrightarrow> codec_ok (c\<lparr>c_fields := ns\<rparr>)"
  by (simp add: codec_ok_def)

lemma join_split64: "join64 (split64 w) = w"
  by (auto intro!: bit_eqI simp: bit_simps join64_def split64_def)

lemma split_join64: "split64 (join64 p) = p"
proof (cases p)
  case (Pair a b)
  have "\<not> bit a (32 + n)" for n
    using bit_imp_le_length [of a "32 + n"] by auto
  then show ?thesis
    by (auto intro!: bit_eqI simp: Pair bit_simps join64_def split64_def)
qed

lemma codec_ok_cu64 [codec_intros]: "codec_ok cu64"
  unfolding cu64_def
  by (rule codec_ok_fields) (simp_all add: codec_intros join_split64 split_join64)

lemma codec_ok_cbytes [codec_intros]: "codec_ok cbytes4" "codec_ok cbytes8"
  unfolding cbytes8_def cbytes4_def by (intro codec_intros)+

lemma codec_interface: "codec_ok c \<Longrightarrow> c_width c = n \<Longrightarrow> fixed_codec (c_enc c) (c_dec c) n"
  by (auto simp: codec_ok_def)

subsection \<open>The layout a compiler chooses\<close>

text \<open>
  Every scalar field stands at a multiple of its size, and so does the whole struct with respect to
  its largest field: \<open>field_offsets\<close> and \<open>struct_size\<close> insert the holes this takes. A codec has none.
\<close>

definition round_up :: "nat \<Rightarrow> nat \<Rightarrow> nat" where
  "round_up n off = (off + n - 1) div n * n"

fun field_offsets :: "nat \<Rightarrow> nat list \<Rightarrow> nat list" where
  "field_offsets off [] = []"
| "field_offsets off (n # ns) = round_up n off # field_offsets (round_up n off + n) ns"

fun struct_end :: "nat \<Rightarrow> nat list \<Rightarrow> nat" where
  "struct_end off [] = off"
| "struct_end off (n # ns) = struct_end (round_up n off + n) ns"

definition struct_size :: "nat list \<Rightarrow> nat" where
  "struct_size ns = round_up (foldr max ns 1) (struct_end 0 ns)"

fun aligned :: "nat \<Rightarrow> nat list \<Rightarrow> bool" where
  "aligned off [] = True"
| "aligned off (n # ns) = (0 < n \<and> off mod n = 0 \<and> aligned (off + n) ns)"

definition packed :: "nat list \<Rightarrow> bool" where
  "packed ns \<longleftrightarrow> aligned 0 ns \<and> sum_list ns mod foldr max ns 1 = 0"

lemma round_up_multiple: "0 < n \<Longrightarrow> off mod n = 0 \<Longrightarrow> round_up n off = off"
proof -
  assume "0 < n" "off mod n = 0"
  then obtain k where "off = n * k" by (auto simp: mod_eq_0_iff_dvd dvd_def)
  with \<open>0 < n\<close> have "off + n - 1 = n * k + (n - 1)" "(n - 1) div n = 0" by simp_all
  then have "(off + n - 1) div n = k" using \<open>0 < n\<close> by (simp only: div_mult_self4)
  with \<open>off = n * k\<close> show "round_up n off = off" by (simp add: round_up_def)
qed

lemma struct_end_aligned: "aligned off ns \<Longrightarrow> struct_end off ns = off + sum_list ns"
  by (induction off ns rule: aligned.induct) (simp_all add: round_up_multiple)

lemma field_offsets_aligned:
  "aligned off ns \<Longrightarrow> field_offsets off ns = map (\<lambda>i. off + sum_list (take i ns)) [0 ..< length ns]"
proof (induction off ns rule: aligned.induct)
  case (2 off n ns)
  then show ?case
    by (simp add: round_up_multiple map_upt_Suc add.assoc del: upt_Suc)
qed simp

lemma struct_size_packed: "packed ns \<Longrightarrow> struct_size ns = sum_list ns"
proof -
  assume "packed ns"
  moreover have "1 \<le> foldr max ns 1" by (induction ns) auto
  ultimately show ?thesis
    by (simp add: packed_def struct_size_def struct_end_aligned round_up_multiple)
qed

text \<open>What the compiler's \<^verbatim>\<open>sizeof\<close> and the codec agree on.\<close>

lemma codec_layout:
  assumes "codec_ok c" and "packed (c_fields c)"
  shows "length (c_enc c h) = struct_size (c_fields c)"
    and "field_offsets 0 (c_fields c) = map (\<lambda>i. sum_list (take i (c_fields c))) [0 ..< length (c_fields c)]"
  using assms fixed_codec.length_enc [of "c_enc c" "c_dec c" "c_width c"]
  by (simp_all add: codec_ok_def struct_size_packed field_offsets_aligned packed_def)

end
