(* ===== verification/Libpcap.thy ===== *)
theory Libpcap
  imports Structs Driver
begin

text \<open>
  The headers of libpcap under \<^verbatim>\<open>Npcap/Include/pcap\<close> as far as they define data: the instruction format
  of the packet filter (\<^verbatim>\<open>bpf.h\<close>), the header of a capture file and the values of the interface
  (\<^verbatim>\<open>pcap.h\<close>), the classes of link types (\<^verbatim>\<open>dlt.h\<close>), and the headers libpcap puts in front of packets
  that are not Ethernet frames. The functions these headers only declare are not under \<^verbatim>\<open>src\<close>; those
  the program calls are the parameters \<open>pcap_lib\<close> of \<open>Driver\<close>. A signed field is kept as the word of its
  width, to be read with \<open>sint\<close>.
\<close>

subsection \<open>Filter instructions (\<^verbatim>\<open>bpf.h\<close>)\<close>

record bpf_insn =
  bi_code :: u16
  bi_jt :: u8
  bi_jf :: u8
  bi_k :: u32

definition bpf_insn_codec :: "bpf_insn codec" where
  "bpf_insn_codec = cmap (\<lambda>i. (bi_code i, bi_jt i, bi_jf i, bi_k i))
     (\<lambda>(code, jt, jf, k). \<lparr>bi_code = code, bi_jt = jt, bi_jf = jf, bi_k = k\<rparr>)
     (cpair cu16 (cpair cu8 (cpair cu8 cu32)))"

text \<open>A program is its length and its instructions; the length is a 32-bit number.\<close>

record bpf_program =
  bf_len :: u32
  bf_insns :: "bpf_insn list"

definition BPF_STMT :: "u16 \<Rightarrow> u32 \<Rightarrow> bpf_insn" where
  "BPF_STMT code k = \<lparr>bi_code = code, bi_jt = 0, bi_jf = 0, bi_k = k\<rparr>"

definition BPF_JUMP :: "u16 \<Rightarrow> u32 \<Rightarrow> u8 \<Rightarrow> u8 \<Rightarrow> bpf_insn" where
  "BPF_JUMP code k jt jf = \<lparr>bi_code = code, bi_jt = jt, bi_jf = jf, bi_k = k\<rparr>"

definition BPF_MEMWORDS :: nat where "BPF_MEMWORDS = 16"

text \<open>\<^verbatim>\<open>BPF_ALIGNMENT\<close> is the size of an \<^verbatim>\<open>int\<close>, as a \<^verbatim>\<open>size_t\<close>.\<close>

definition BPF_ALIGNMENT :: u64 where "BPF_ALIGNMENT = 4"

definition BPF_WORDALIGN :: "u64 \<Rightarrow> u64" where
  "BPF_WORDALIGN x = (x + (BPF_ALIGNMENT - 1)) AND NOT (BPF_ALIGNMENT - 1)"

text \<open>The fields of an opcode.\<close>

definition BPF_CLASS :: "u16 \<Rightarrow> u16" where "BPF_CLASS code = code AND 0x07"
definition BPF_SIZE :: "u16 \<Rightarrow> u16" where "BPF_SIZE code = code AND 0x18"
definition BPF_MODE :: "u16 \<Rightarrow> u16" where "BPF_MODE code = code AND 0xe0"
definition BPF_OP :: "u16 \<Rightarrow> u16" where "BPF_OP code = code AND 0xf0"
definition BPF_SRC :: "u16 \<Rightarrow> u16" where "BPF_SRC code = code AND 0x08"
definition BPF_RVAL :: "u16 \<Rightarrow> u16" where "BPF_RVAL code = code AND 0x18"
definition BPF_MISCOP :: "u16 \<Rightarrow> u16" where "BPF_MISCOP code = code AND 0xf8"

text \<open>The values each field may have; the values marked reserved in the header are missing here.\<close>

datatype bpf_class = BPF_LD | BPF_LDX | BPF_ST | BPF_STX | BPF_ALU | BPF_JMP | BPF_RET | BPF_MISC
datatype bpf_size = BPF_W | BPF_H | BPF_B
datatype bpf_mode = BPF_IMM | BPF_ABS | BPF_IND | BPF_MEM | BPF_LEN | BPF_MSH
datatype bpf_alu = BPF_ADD | BPF_SUB | BPF_MUL | BPF_DIV | BPF_OR | BPF_AND | BPF_LSH | BPF_RSH
  | BPF_NEG | BPF_MOD | BPF_XOR
datatype bpf_jmp = BPF_JA | BPF_JEQ | BPF_JGT | BPF_JGE | BPF_JSET
datatype bpf_src = BPF_K | BPF_X
datatype bpf_rval = RVAL_K | RVAL_X | BPF_A
datatype bpf_miscop = BPF_TAX | BPF_TXA

fun class_val :: "bpf_class \<Rightarrow> u16" where
  "class_val BPF_LD = 0x00" | "class_val BPF_LDX = 0x01" | "class_val BPF_ST = 0x02"
| "class_val BPF_STX = 0x03" | "class_val BPF_ALU = 0x04" | "class_val BPF_JMP = 0x05"
| "class_val BPF_RET = 0x06" | "class_val BPF_MISC = 0x07"

fun size_val :: "bpf_size \<Rightarrow> u16" where
  "size_val BPF_W = 0x00" | "size_val BPF_H = 0x08" | "size_val BPF_B = 0x10"

fun mode_val :: "bpf_mode \<Rightarrow> u16" where
  "mode_val BPF_IMM = 0x00" | "mode_val BPF_ABS = 0x20" | "mode_val BPF_IND = 0x40"
| "mode_val BPF_MEM = 0x60" | "mode_val BPF_LEN = 0x80" | "mode_val BPF_MSH = 0xa0"

fun alu_val :: "bpf_alu \<Rightarrow> u16" where
  "alu_val BPF_ADD = 0x00" | "alu_val BPF_SUB = 0x10" | "alu_val BPF_MUL = 0x20"
| "alu_val BPF_DIV = 0x30" | "alu_val BPF_OR = 0x40" | "alu_val BPF_AND = 0x50"
| "alu_val BPF_LSH = 0x60" | "alu_val BPF_RSH = 0x70" | "alu_val BPF_NEG = 0x80"
| "alu_val BPF_MOD = 0x90" | "alu_val BPF_XOR = 0xa0"

fun jmp_val :: "bpf_jmp \<Rightarrow> u16" where
  "jmp_val BPF_JA = 0x00" | "jmp_val BPF_JEQ = 0x10" | "jmp_val BPF_JGT = 0x20"
| "jmp_val BPF_JGE = 0x30" | "jmp_val BPF_JSET = 0x40"

fun src_val :: "bpf_src \<Rightarrow> u16" where
  "src_val BPF_K = 0x00" | "src_val BPF_X = 0x08"

fun rval_val :: "bpf_rval \<Rightarrow> u16" where
  "rval_val RVAL_K = 0x00" | "rval_val RVAL_X = 0x08" | "rval_val BPF_A = 0x10"

fun miscop_val :: "bpf_miscop \<Rightarrow> u16" where
  "miscop_val BPF_TAX = 0x00" | "miscop_val BPF_TXA = 0x80"

text \<open>An instruction by the fields its class uses, and the opcode that the constants make together.\<close>

datatype bpf_op =
    Op_LD bpf_size bpf_mode | Op_LDX bpf_size bpf_mode | Op_ST | Op_STX
  | Op_ALU bpf_alu bpf_src | Op_JMP bpf_jmp bpf_src | Op_RET bpf_rval | Op_MISC bpf_miscop

fun bpf_opcode :: "bpf_op \<Rightarrow> u16" where
  "bpf_opcode (Op_LD sz m) = class_val BPF_LD OR size_val sz OR mode_val m"
| "bpf_opcode (Op_LDX sz m) = class_val BPF_LDX OR size_val sz OR mode_val m"
| "bpf_opcode Op_ST = class_val BPF_ST"
| "bpf_opcode Op_STX = class_val BPF_STX"
| "bpf_opcode (Op_ALU f src) = class_val BPF_ALU OR alu_val f OR src_val src"
| "bpf_opcode (Op_JMP f src) = class_val BPF_JMP OR jmp_val f OR src_val src"
| "bpf_opcode (Op_RET v) = class_val BPF_RET OR rval_val v"
| "bpf_opcode (Op_MISC f) = class_val BPF_MISC OR miscop_val f"

lemmas bpf_fields = BPF_CLASS_def BPF_SIZE_def BPF_MODE_def BPF_OP_def BPF_SRC_def BPF_RVAL_def
  BPF_MISCOP_def

fun op_class :: "bpf_op \<Rightarrow> bpf_class" where
  "op_class (Op_LD _ _) = BPF_LD" | "op_class (Op_LDX _ _) = BPF_LDX" | "op_class Op_ST = BPF_ST"
| "op_class Op_STX = BPF_STX" | "op_class (Op_ALU _ _) = BPF_ALU" | "op_class (Op_JMP _ _) = BPF_JMP"
| "op_class (Op_RET _) = BPF_RET" | "op_class (Op_MISC _) = BPF_MISC"

text \<open>Each macro takes back out what was put in.\<close>

lemma bpf_vals_low [simp]:
  "size_val sz AND 7 = 0" "mode_val m AND 7 = 0" "alu_val f AND 7 = 0" "jmp_val j AND 7 = 0"
  "src_val src AND 7 = 0" "rval_val v AND 7 = 0" "(7 OR miscop_val x) AND 7 = 7"
  by ((cases sz; simp), (cases m; simp), (cases f; simp), (cases j; simp), (cases src; simp), (cases v; simp),
      (cases x; simp))

lemma bpf_opcode_class: "BPF_CLASS (bpf_opcode op) = class_val (op_class op)"
  by (cases op) (simp_all add: BPF_CLASS_def bit.conj_disj_distrib2)

lemma bpf_opcode_fields:
  "BPF_SIZE (bpf_opcode (Op_LD sz m)) = size_val sz" "BPF_MODE (bpf_opcode (Op_LD sz m)) = mode_val m"
  "BPF_SIZE (bpf_opcode (Op_LDX sz m)) = size_val sz" "BPF_MODE (bpf_opcode (Op_LDX sz m)) = mode_val m"
  by (cases sz; cases m; simp add: bpf_fields)+

lemma bpf_opcode_fields_alu:
  "BPF_OP (bpf_opcode (Op_ALU f src)) = alu_val f" "BPF_SRC (bpf_opcode (Op_ALU f src)) = src_val src"
  by (cases f; cases src; simp add: bpf_fields)+

lemma bpf_opcode_fields_other:
  "BPF_OP (bpf_opcode (Op_JMP j src)) = jmp_val j" "BPF_SRC (bpf_opcode (Op_JMP j src)) = src_val src"
  "BPF_RVAL (bpf_opcode (Op_RET v)) = rval_val v" "BPF_MISCOP (bpf_opcode (Op_MISC x)) = miscop_val x"
  by ((cases j; cases src; simp add: bpf_fields), (cases j; cases src; simp add: bpf_fields),
      (cases v; simp add: bpf_fields), (cases x; simp add: bpf_fields))

text \<open>So no two instructions share an opcode.\<close>

lemma bpf_vals_inject [simp]:
  "class_val c = class_val c' \<longleftrightarrow> c = c'" "size_val sz = size_val sz' \<longleftrightarrow> sz = sz'"
  "mode_val m = mode_val m' \<longleftrightarrow> m = m'" "alu_val f = alu_val f' \<longleftrightarrow> f = f'"
  "jmp_val j = jmp_val j' \<longleftrightarrow> j = j'" "src_val src = src_val src' \<longleftrightarrow> src = src'"
  "rval_val v = rval_val v' \<longleftrightarrow> v = v'" "miscop_val x = miscop_val x' \<longleftrightarrow> x = x'"
  by ((cases c; cases c'; simp), (cases sz; cases sz'; simp), (cases m; cases m'; simp),
      (cases f; cases f'; simp), (cases j; cases j'; simp), (cases src; cases src'; simp),
      (cases v; cases v'; simp), (cases x; cases x'; simp))

lemma bpf_opcode_inject: "bpf_opcode op = bpf_opcode op' \<longleftrightarrow> op = op'"
proof
  assume eq: "bpf_opcode op = bpf_opcode op'"
  then have "op_class op = op_class op'"
    using bpf_opcode_class [of op] bpf_opcode_class [of op'] by simp
  with eq show "op = op'"
    using bpf_opcode_fields bpf_opcode_fields_alu bpf_opcode_fields_other
    by (cases op; cases op'; simp del: bpf_opcode.simps; metis bpf_vals_inject)
qed simp

text \<open>\<^verbatim>\<open>BPF_WORDALIGN\<close> is the next multiple of four, until the addition wraps around.\<close>

lemma wordalign_round_up:
  assumes "unat x + 3 < 2 ^ 64"
  shows "unat (BPF_WORDALIGN x) = round_up 4 (unat x)"
proof -
  have "y AND NOT 3 = push_bit 2 (drop_bit 2 y)" for y :: u64
  proof (rule bit_word_eqI)
    show "bit (y AND NOT 3) n = bit (push_bit 2 (drop_bit 2 y)) n" if "n < LENGTH(64)" for n
    proof -
      have "bit (3 :: u64) n \<longleftrightarrow> n < 2"
        using that bit_mask_iff [of 2 n, where 'a = u64] by (simp add: mask_eq_exp_minus_1)
      moreover have "2 \<le> n \<Longrightarrow> Suc (Suc (n - 2)) = n" by simp
      ultimately show ?thesis
        using that by (auto simp: bit_simps not_less)
    qed
  qed
  moreover have "unat (x + 3) = unat x + 3"
    using assms by (simp add: unat_word_ariths)
  moreover have "unat (push_bit 2 (drop_bit 2 y)) = unat y div 4 * 4" for y :: u64
  proof -
    have "unat y div 4 * 4 < 2 ^ 64"
      using unsigned_less [where w = y and 'a = nat] by (simp add: div_times_less_eq_dividend [THEN le_less_trans])
    then show ?thesis
      unfolding unsigned_push_bit_eq unsigned_drop_bit_eq
      by (simp add: push_bit_eq_mult [where 'a = nat] drop_bit_eq_div [where 'a = nat] take_bit_eq_mod)
  qed
  ultimately show ?thesis
    by (simp add: BPF_WORDALIGN_def BPF_ALIGNMENT_def round_up_def add.commute)
qed

lemma wordalign_wraps: "BPF_WORDALIGN (- 1) = 0"
  by (simp add: BPF_WORDALIGN_def BPF_ALIGNMENT_def)

subsection \<open>Link types (\<^verbatim>\<open>dlt.h\<close>)\<close>

definition DLT_CLASS :: "u32 \<Rightarrow> u32" where "DLT_CLASS x = x AND 0x03ff0000"
definition DLT_CLASS_NETBSD_RAWAF :: u32 where "DLT_CLASS_NETBSD_RAWAF = 0x02240000"
definition DLT_NETBSD_RAWAF :: "u32 \<Rightarrow> u32" where "DLT_NETBSD_RAWAF af = DLT_CLASS_NETBSD_RAWAF OR af"
definition DLT_NETBSD_RAWAF_AF :: "u32 \<Rightarrow> u32" where "DLT_NETBSD_RAWAF_AF x = x AND 0x0000ffff"

definition DLT_IS_NETBSD_RAWAF :: "u32 \<Rightarrow> bool" where
  "DLT_IS_NETBSD_RAWAF x \<longleftrightarrow> DLT_CLASS x = DLT_CLASS_NETBSD_RAWAF"

text \<open>An address family of 16 bits survives in the link type made of it.\<close>

lemma netbsd_rawaf:
  assumes "af = ucast (a :: u16)"
  shows "DLT_IS_NETBSD_RAWAF (DLT_NETBSD_RAWAF af)" and "DLT_NETBSD_RAWAF_AF (DLT_NETBSD_RAWAF af) = af"
proof -
  have low: "(ucast a :: u32) AND 0xffff = ucast a"
  proof (rule bit_word_eqI)
    show "bit ((ucast a :: u32) AND 0xffff) n = bit (ucast a :: u32) n" if "n < LENGTH(32)" for n
      using that bit_mask_iff [of 16 n, where 'a = u32]
      by (auto simp: bit_simps mask_eq_exp_minus_1 dest: bit_imp_le_length)
  qed
  then have "(ucast a :: u32) AND 0x03ff0000 = ucast a AND (0xffff AND 0x03ff0000)"
    by (metis and.assoc)
  then have "(ucast a :: u32) AND 0x03ff0000 = 0" by simp
  then show "DLT_IS_NETBSD_RAWAF (DLT_NETBSD_RAWAF af)" and "DLT_NETBSD_RAWAF_AF (DLT_NETBSD_RAWAF af) = af"
    using low by (simp_all add: assms DLT_IS_NETBSD_RAWAF_def DLT_NETBSD_RAWAF_def DLT_CLASS_def
        DLT_CLASS_NETBSD_RAWAF_def DLT_NETBSD_RAWAF_AF_def bit.conj_disj_distrib2)
qed

subsection \<open>The interface of libpcap (\<^verbatim>\<open>pcap.h\<close>)\<close>

text \<open>The first record of a capture file.\<close>

definition PCAP_VERSION_MAJOR :: u16 where "PCAP_VERSION_MAJOR = 2"
definition PCAP_VERSION_MINOR :: u16 where "PCAP_VERSION_MINOR = 4"
definition PCAP_ERRBUF_SIZE :: nat where "PCAP_ERRBUF_SIZE = 256"

record pcap_file_header =
  pf_magic :: u32
  pf_version_major :: u16
  pf_version_minor :: u16
  pf_thiszone :: u32
  pf_sigfigs :: u32
  pf_snaplen :: u32
  pf_linktype :: u32

definition pcap_file_header_codec :: "pcap_file_header codec" where
  "pcap_file_header_codec = cmap
     (\<lambda>h. (pf_magic h, pf_version_major h, pf_version_minor h, pf_thiszone h, pf_sigfigs h,
           pf_snaplen h, pf_linktype h))
     (\<lambda>(magic, major, minor, zone, sigfigs, snaplen, linktype).
        \<lparr>pf_magic = magic, pf_version_major = major, pf_version_minor = minor, pf_thiszone = zone,
         pf_sigfigs = sigfigs, pf_snaplen = snaplen, pf_linktype = linktype\<rparr>)
     (cpair cu32 (cpair cu16 (cpair cu16 (cpair cu32 (cpair cu32 (cpair cu32 cu32))))))"

text \<open>The length of a frame check sequence, kept in the top bits of a link type.\<close>

definition LT_FCS_LENGTH_PRESENT :: "u32 \<Rightarrow> u32" where "LT_FCS_LENGTH_PRESENT x = x AND 0x04000000"
definition LT_FCS_LENGTH :: "u32 \<Rightarrow> u32" where "LT_FCS_LENGTH x = drop_bit 28 (x AND 0xF0000000)"

definition LT_FCS_DATALINK_EXT :: "u32 \<Rightarrow> u32" where
  "LT_FCS_DATALINK_EXT x = push_bit 28 (x AND 0xF) OR 0x04000000"

lemma fcs_length_roundtrip:
  assumes "unat x < 16"
  shows "LT_FCS_LENGTH_PRESENT (LT_FCS_DATALINK_EXT x) \<noteq> 0" and "LT_FCS_LENGTH (LT_FCS_DATALINK_EXT x) = x"
proof -
  have "x \<in> set (map of_nat [0 ..< 16])"
    using assms by (auto intro!: image_eqI [of x of_nat "unat x"])
  then have "LT_FCS_LENGTH_PRESENT (LT_FCS_DATALINK_EXT x) \<noteq> 0 \<and> LT_FCS_LENGTH (LT_FCS_DATALINK_EXT x) = x"
    by (auto simp: LT_FCS_LENGTH_PRESENT_def LT_FCS_DATALINK_EXT_def LT_FCS_LENGTH_def upt_rec)
  then show "LT_FCS_LENGTH_PRESENT (LT_FCS_DATALINK_EXT x) \<noteq> 0" and "LT_FCS_LENGTH (LT_FCS_DATALINK_EXT x) = x"
    by simp_all
qed

datatype pcap_direction_t = PCAP_D_INOUT | PCAP_D_IN | PCAP_D_OUT

text \<open>The counters of \<^verbatim>\<open>pcap_stats\<close>; the last three exist on Windows.\<close>

record pcap_stat =
  ps_recv :: u32
  ps_drop :: u32
  ps_ifdrop :: u32
  ps_capt :: u32
  ps_sent :: u32
  ps_netdrop :: u32

text \<open>The flags of an interface; bits 4 and 5 together are its connection status.\<close>

datatype pcap_if_flag = PCAP_IF_LOOPBACK | PCAP_IF_UP | PCAP_IF_RUNNING | PCAP_IF_WIRELESS

fun pcap_if_flag_val :: "pcap_if_flag \<Rightarrow> u32" where
  "pcap_if_flag_val PCAP_IF_LOOPBACK = 0x00000001"
| "pcap_if_flag_val PCAP_IF_UP = 0x00000002"
| "pcap_if_flag_val PCAP_IF_RUNNING = 0x00000004"
| "pcap_if_flag_val PCAP_IF_WIRELESS = 0x00000008"

definition PCAP_IF_CONNECTION_STATUS :: u32 where "PCAP_IF_CONNECTION_STATUS = 0x00000030"

datatype pcap_if_status =
    PCAP_IF_CONNECTION_STATUS_UNKNOWN | PCAP_IF_CONNECTION_STATUS_CONNECTED
  | PCAP_IF_CONNECTION_STATUS_DISCONNECTED | PCAP_IF_CONNECTION_STATUS_NOT_APPLICABLE

fun pcap_if_status_val :: "pcap_if_status \<Rightarrow> u32" where
  "pcap_if_status_val PCAP_IF_CONNECTION_STATUS_UNKNOWN = 0x00000000"
| "pcap_if_status_val PCAP_IF_CONNECTION_STATUS_CONNECTED = 0x00000010"
| "pcap_if_status_val PCAP_IF_CONNECTION_STATUS_DISCONNECTED = 0x00000020"
| "pcap_if_status_val PCAP_IF_CONNECTION_STATUS_NOT_APPLICABLE = 0x00000030"

lemma pcap_if_flags_apart:
  "pcap_if_flag_val f AND PCAP_IF_CONNECTION_STATUS = 0"
  "pcap_if_status_val st AND PCAP_IF_CONNECTION_STATUS = pcap_if_status_val st"
  "f \<noteq> g \<Longrightarrow> pcap_if_flag_val f AND pcap_if_flag_val g = 0"
  by ((cases f; simp add: PCAP_IF_CONNECTION_STATUS_def), (cases st; simp add: PCAP_IF_CONNECTION_STATUS_def),
      (cases f; cases g; simp))

subsection \<open>The two structs that are stored\<close>

lemma libpcap_codecs [codec_intros]: "codec_ok bpf_insn_codec" "codec_ok pcap_file_header_codec"
  unfolding bpf_insn_codec_def pcap_file_header_codec_def by (intro codec_intros; auto)+

lemma libpcap_layouts:
  "packed (c_fields bpf_insn_codec) \<and> struct_size (c_fields bpf_insn_codec) = 8"
  "packed (c_fields pcap_file_header_codec) \<and> struct_size (c_fields pcap_file_header_codec) = 24"
  by (simp_all add: bpf_insn_codec_def pcap_file_header_codec_def packed_def struct_size_def round_up_def)

interpretation insn: fixed_codec "c_enc bpf_insn_codec" "c_dec bpf_insn_codec" 8
  by (rule codec_interface) (simp_all add: libpcap_codecs, simp add: bpf_insn_codec_def)

interpretation file_header: fixed_codec "c_enc pcap_file_header_codec" "c_dec pcap_file_header_codec" 24
  by (rule codec_interface) (simp_all add: libpcap_codecs, simp add: pcap_file_header_codec_def)

end
