(* ===== verification/Linktypes.thy ===== *)
theory Linktypes
  imports Structs
begin

text \<open>
  The headers that libpcap puts in front of packets of other links than Ethernet, as
  \<^verbatim>\<open>sll.h\<close>, \<^verbatim>\<open>usb.h\<close>, \<^verbatim>\<open>nflog.h\<close>, \<^verbatim>\<open>vlan.h\<close>, \<^verbatim>\<open>can_socketcan.h\<close>, \<^verbatim>\<open>bluetooth.h\<close> and \<^verbatim>\<open>ipnet.h\<close> under
  \<^verbatim>\<open>Npcap/Include/pcap\<close> define them, each with its codec. The comments of the headers forbid changing a
  layout; \<open>linktype_layouts\<close> shows that the codecs describe what a C compiler makes of the structs: there
  is no hole, and the sizes are the constants the headers give. A field holds the word found in memory:
  most are in network byte order there.
\<close>

subsection \<open>Linux cooked captures (\<^verbatim>\<open>sll.h\<close>)\<close>

definition SLL_HDR_LEN :: nat where "SLL_HDR_LEN = 16"
definition SLL2_HDR_LEN :: nat where "SLL2_HDR_LEN = 20"
definition SLL_ADDRLEN :: nat where "SLL_ADDRLEN = 8"

record sll_header =
  sll_pkttype :: u16
  sll_hatype :: u16
  sll_halen :: u16
  sll_addr :: bytes8
  sll_protocol :: u16

definition sll_header_codec :: "sll_header codec" where
  "sll_header_codec = cmap
     (\<lambda>h. (sll_pkttype h, sll_hatype h, sll_halen h, sll_addr h, sll_protocol h))
     (\<lambda>(a, b, c, d, e).
        \<lparr>sll_pkttype = a, sll_hatype = b, sll_halen = c, sll_addr = d, sll_protocol = e\<rparr>)
     (cpair cu16 (cpair cu16 (cpair cu16 (cpair cbytes8 cu16))))"

record sll2_header =
  sll2_protocol :: u16
  sll2_reserved_mbz :: u16
  sll2_if_index :: u32
  sll2_hatype :: u16
  sll2_pkttype :: u8
  sll2_halen :: u8
  sll2_addr :: bytes8

definition sll2_header_codec :: "sll2_header codec" where
  "sll2_header_codec = cmap
     (\<lambda>h. (sll2_protocol h, sll2_reserved_mbz h, sll2_if_index h, sll2_hatype h,
          sll2_pkttype h, sll2_halen h, sll2_addr h))
     (\<lambda>(a, b, c, d, e, f, g).
        \<lparr>sll2_protocol = a, sll2_reserved_mbz = b, sll2_if_index = c, sll2_hatype = d,
          sll2_pkttype = e, sll2_halen = f, sll2_addr = g\<rparr>)
     (cpair cu16 (cpair cu16 (cpair cu32 (cpair cu16 (cpair cu8 (cpair cu8 cbytes8))))))"

datatype sll_pkt = LINUX_SLL_HOST | LINUX_SLL_BROADCAST | LINUX_SLL_MULTICAST
  | LINUX_SLL_OTHERHOST | LINUX_SLL_OUTGOING

fun sll_pkt_val :: "sll_pkt \<Rightarrow> u16" where
  "sll_pkt_val LINUX_SLL_HOST = 0"
| "sll_pkt_val LINUX_SLL_BROADCAST = 1"
| "sll_pkt_val LINUX_SLL_MULTICAST = 2"
| "sll_pkt_val LINUX_SLL_OTHERHOST = 3"
| "sll_pkt_val LINUX_SLL_OUTGOING = 4"

datatype sll_proto = LINUX_SLL_P_802_3 | LINUX_SLL_P_802_2 | LINUX_SLL_P_CAN | LINUX_SLL_P_CANFD

fun sll_proto_val :: "sll_proto \<Rightarrow> u16" where
  "sll_proto_val LINUX_SLL_P_802_3 = 0x0001"
| "sll_proto_val LINUX_SLL_P_802_2 = 0x0004"
| "sll_proto_val LINUX_SLL_P_CAN = 0x000C"
| "sll_proto_val LINUX_SLL_P_CANFD = 0x000D"

subsection \<open>USB captures (\<^verbatim>\<open>usb.h\<close>)\<close>

definition URB_TRANSFER_IN :: u8 where "URB_TRANSFER_IN = 0x80"

datatype urb_transfer = URB_ISOCHRONOUS | URB_INTERRUPT | URB_CONTROL | URB_BULK

fun urb_transfer_val :: "urb_transfer \<Rightarrow> u8" where
  "urb_transfer_val URB_ISOCHRONOUS = 0x0"
| "urb_transfer_val URB_INTERRUPT = 0x1"
| "urb_transfer_val URB_CONTROL = 0x2"
| "urb_transfer_val URB_BULK = 0x3"

text \<open>The events are the characters S, C and E.\<close>

datatype urb_event = URB_SUBMIT | URB_COMPLETE | URB_ERROR

fun urb_event_val :: "urb_event \<Rightarrow> u8" where
  "urb_event_val URB_SUBMIT = 0x53"
| "urb_event_val URB_COMPLETE = 0x43"
| "urb_event_val URB_ERROR = 0x45"

record pcap_usb_setup =
  us_bmRequestType :: u8
  us_bRequest :: u8
  us_wValue :: u16
  us_wIndex :: u16
  us_wLength :: u16

definition pcap_usb_setup_codec :: "pcap_usb_setup codec" where
  "pcap_usb_setup_codec = cmap
     (\<lambda>h. (us_bmRequestType h, us_bRequest h, us_wValue h, us_wIndex h, us_wLength h))
     (\<lambda>(a, b, c, d, e).
        \<lparr>us_bmRequestType = a, us_bRequest = b, us_wValue = c, us_wIndex = d,
          us_wLength = e\<rparr>)
     (cpair cu8 (cpair cu8 (cpair cu16 (cpair cu16 cu16))))"

text \<open>Signed fields, as the words of their width.\<close>

record iso_rec =
  ir_error_count :: u32
  ir_numdesc :: u32

definition iso_rec_codec :: "iso_rec codec" where
  "iso_rec_codec = cmap
     (\<lambda>h. (ir_error_count h, ir_numdesc h))
     (\<lambda>(a, b).
        \<lparr>ir_error_count = a, ir_numdesc = b\<rparr>)
     (cpair cu32 cu32)"

record pcap_usb_header =
  ub_id :: u64
  ub_event_type :: u8
  ub_transfer_type :: u8
  ub_endpoint_number :: u8
  ub_device_address :: u8
  ub_bus_id :: u16
  ub_setup_flag :: u8
  ub_data_flag :: u8
  ub_ts_sec :: u64
  ub_ts_usec :: u32
  ub_status :: u32
  ub_urb_len :: u32
  ub_data_len :: u32
  ub_setup :: pcap_usb_setup

definition pcap_usb_header_codec :: "pcap_usb_header codec" where
  "pcap_usb_header_codec = cmap
     (\<lambda>h. (ub_id h, ub_event_type h, ub_transfer_type h, ub_endpoint_number h,
          ub_device_address h, ub_bus_id h, ub_setup_flag h, ub_data_flag h, ub_ts_sec h,
          ub_ts_usec h, ub_status h, ub_urb_len h, ub_data_len h, ub_setup h))
     (\<lambda>(a, b, c, d, e, f, g, h, i, j, k, l, m, n).
        \<lparr>ub_id = a, ub_event_type = b, ub_transfer_type = c, ub_endpoint_number = d,
          ub_device_address = e, ub_bus_id = f, ub_setup_flag = g, ub_data_flag = h,
          ub_ts_sec = i, ub_ts_usec = j, ub_status = k, ub_urb_len = l, ub_data_len = m,
          ub_setup = n\<rparr>)
     (cpair cu64 (cpair cu8 (cpair cu8 (cpair cu8 (cpair cu8 (cpair cu16 (cpair cu8 (cpair cu8 (
      cpair cu64 (cpair cu32 (cpair cu32 (cpair cu32 (cpair cu32
      pcap_usb_setup_codec)))))))))))))"

text \<open>The union of a setup header and an \<open>iso_rec\<close> is its eight bytes; each view decodes all of them.\<close>

record pcap_usb_header_mmapped =
  um_id :: u64
  um_event_type :: u8
  um_transfer_type :: u8
  um_endpoint_number :: u8
  um_device_address :: u8
  um_bus_id :: u16
  um_setup_flag :: u8
  um_data_flag :: u8
  um_ts_sec :: u64
  um_ts_usec :: u32
  um_status :: u32
  um_urb_len :: u32
  um_data_len :: u32
  um_s :: bytes8
  um_interval :: u32
  um_start_frame :: u32
  um_xfer_flags :: u32
  um_ndesc :: u32

definition pcap_usb_header_mmapped_codec :: "pcap_usb_header_mmapped codec" where
  "pcap_usb_header_mmapped_codec = cmap
     (\<lambda>h. (um_id h, um_event_type h, um_transfer_type h, um_endpoint_number h,
          um_device_address h, um_bus_id h, um_setup_flag h, um_data_flag h, um_ts_sec h,
          um_ts_usec h, um_status h, um_urb_len h, um_data_len h, um_s h, um_interval h,
          um_start_frame h, um_xfer_flags h, um_ndesc h))
     (\<lambda>(a, b, c, d, e, f, g, h, i, j, k, l, m, n, v, p, q, r).
        \<lparr>um_id = a, um_event_type = b, um_transfer_type = c, um_endpoint_number = d,
          um_device_address = e, um_bus_id = f, um_setup_flag = g, um_data_flag = h,
          um_ts_sec = i, um_ts_usec = j, um_status = k, um_urb_len = l, um_data_len = m,
          um_s = n, um_interval = v, um_start_frame = p, um_xfer_flags = q, um_ndesc = r\<rparr>)
     (cpair cu64 (cpair cu8 (cpair cu8 (cpair cu8 (cpair cu8 (cpair cu16 (cpair cu8 (cpair cu8 (
      cpair cu64 (cpair cu32 (cpair cu32 (cpair cu32 (cpair cu32 (cpair cbytes8 (cpair cu32 (
      cpair cu32 (cpair cu32 cu32)))))))))))))))))"

definition um_setup :: "pcap_usb_header_mmapped \<Rightarrow> pcap_usb_setup" where
  "um_setup h = c_dec pcap_usb_setup_codec (c_enc cbytes8 (um_s h))"

definition um_iso :: "pcap_usb_header_mmapped \<Rightarrow> iso_rec" where
  "um_iso h = c_dec iso_rec_codec (c_enc cbytes8 (um_s h))"

record usb_isodesc =
  ui_status :: u32
  ui_offset :: u32
  ui_len :: u32
  ui_pad :: bytes4

definition usb_isodesc_codec :: "usb_isodesc codec" where
  "usb_isodesc_codec = cmap
     (\<lambda>h. (ui_status h, ui_offset h, ui_len h, ui_pad h))
     (\<lambda>(a, b, c, d).
        \<lparr>ui_status = a, ui_offset = b, ui_len = c, ui_pad = d\<rparr>)
     (cpair cu32 (cpair cu32 (cpair cu32 cbytes4)))"

subsection \<open>Netfilter logs (\<^verbatim>\<open>nflog.h\<close>)\<close>

record nflog_hdr =
  nflog_family :: u8
  nflog_version :: u8
  nflog_rid :: u16

definition nflog_hdr_codec :: "nflog_hdr codec" where
  "nflog_hdr_codec = cmap
     (\<lambda>h. (nflog_family h, nflog_version h, nflog_rid h))
     (\<lambda>(a, b, c).
        \<lparr>nflog_family = a, nflog_version = b, nflog_rid = c\<rparr>)
     (cpair cu8 (cpair cu8 cu16))"

record nflog_tlv =
  tlv_length :: u16
  tlv_type :: u16

definition nflog_tlv_codec :: "nflog_tlv codec" where
  "nflog_tlv_codec = cmap
     (\<lambda>h. (tlv_length h, tlv_type h))
     (\<lambda>(a, b).
        \<lparr>tlv_length = a, tlv_type = b\<rparr>)
     (cpair cu16 cu16)"

record nflog_packet_hdr =
  np_hw_protocol :: u16
  np_hook :: u8
  np_pad :: u8

definition nflog_packet_hdr_codec :: "nflog_packet_hdr codec" where
  "nflog_packet_hdr_codec = cmap
     (\<lambda>h. (np_hw_protocol h, np_hook h, np_pad h))
     (\<lambda>(a, b, c).
        \<lparr>np_hw_protocol = a, np_hook = b, np_pad = c\<rparr>)
     (cpair cu16 (cpair cu8 cu8))"

record nflog_hwaddr =
  nh_hw_addrlen :: u16
  nh_pad :: u16
  nh_hw_addr :: bytes8

definition nflog_hwaddr_codec :: "nflog_hwaddr codec" where
  "nflog_hwaddr_codec = cmap
     (\<lambda>h. (nh_hw_addrlen h, nh_pad h, nh_hw_addr h))
     (\<lambda>(a, b, c).
        \<lparr>nh_hw_addrlen = a, nh_pad = b, nh_hw_addr = c\<rparr>)
     (cpair cu16 (cpair cu16 cbytes8))"

record nflog_timestamp =
  nt_sec :: u64
  nt_usec :: u64

definition nflog_timestamp_codec :: "nflog_timestamp codec" where
  "nflog_timestamp_codec = cmap
     (\<lambda>h. (nt_sec h, nt_usec h))
     (\<lambda>(a, b).
        \<lparr>nt_sec = a, nt_usec = b\<rparr>)
     (cpair cu64 cu64)"

datatype nfula = NFULA_PACKET_HDR | NFULA_MARK | NFULA_TIMESTAMP | NFULA_IFINDEX_INDEV
  | NFULA_IFINDEX_OUTDEV | NFULA_IFINDEX_PHYSINDEV | NFULA_IFINDEX_PHYSOUTDEV | NFULA_HWADDR
  | NFULA_PAYLOAD | NFULA_PREFIX | NFULA_UID | NFULA_SEQ | NFULA_SEQ_GLOBAL | NFULA_GID
  | NFULA_HWTYPE | NFULA_HWHEADER | NFULA_HWLEN

fun nfula_val :: "nfula \<Rightarrow> u16" where
  "nfula_val NFULA_PACKET_HDR = 1"
| "nfula_val NFULA_MARK = 2"
| "nfula_val NFULA_TIMESTAMP = 3"
| "nfula_val NFULA_IFINDEX_INDEV = 4"
| "nfula_val NFULA_IFINDEX_OUTDEV = 5"
| "nfula_val NFULA_IFINDEX_PHYSINDEV = 6"
| "nfula_val NFULA_IFINDEX_PHYSOUTDEV = 7"
| "nfula_val NFULA_HWADDR = 8"
| "nfula_val NFULA_PAYLOAD = 9"
| "nfula_val NFULA_PREFIX = 10"
| "nfula_val NFULA_UID = 11"
| "nfula_val NFULA_SEQ = 12"
| "nfula_val NFULA_SEQ_GLOBAL = 13"
| "nfula_val NFULA_GID = 14"
| "nfula_val NFULA_HWTYPE = 15"
| "nfula_val NFULA_HWHEADER = 16"
| "nfula_val NFULA_HWLEN = 17"

subsection \<open>VLAN tags, CAN, Bluetooth and ipnet\<close>

definition VLAN_TAG_LEN :: nat where "VLAN_TAG_LEN = 4"

record vlan_tag =
  vlan_tpid :: u16
  vlan_tci :: u16

definition vlan_tag_codec :: "vlan_tag codec" where
  "vlan_tag_codec = cmap
     (\<lambda>h. (vlan_tpid h, vlan_tci h))
     (\<lambda>(a, b).
        \<lparr>vlan_tpid = a, vlan_tci = b\<rparr>)
     (cpair cu16 cu16)"

record pcap_can_socketcan_hdr =
  can_id :: u32
  can_payload_length :: u8
  can_pad :: u8
  can_reserved1 :: u8
  can_reserved2 :: u8

definition pcap_can_socketcan_hdr_codec :: "pcap_can_socketcan_hdr codec" where
  "pcap_can_socketcan_hdr_codec = cmap
     (\<lambda>h. (can_id h, can_payload_length h, can_pad h, can_reserved1 h, can_reserved2 h))
     (\<lambda>(a, b, c, d, e).
        \<lparr>can_id = a, can_payload_length = b, can_pad = c, can_reserved1 = d,
          can_reserved2 = e\<rparr>)
     (cpair cu32 (cpair cu8 (cpair cu8 (cpair cu8 cu8))))"

record pcap_bluetooth_h4_header =
  bt_direction :: u32

definition pcap_bluetooth_h4_header_codec :: "pcap_bluetooth_h4_header codec" where
  "pcap_bluetooth_h4_header_codec = cmap
     bt_direction (\<lambda>a. \<lparr>bt_direction = a\<rparr>) cu32"

record pcap_bluetooth_linux_monitor_header =
  bm_adapter_id :: u16
  bm_opcode :: u16

definition pcap_bluetooth_linux_monitor_header_codec :: "pcap_bluetooth_linux_monitor_header codec" where
  "pcap_bluetooth_linux_monitor_header_codec = cmap
     (\<lambda>h. (bm_adapter_id h, bm_opcode h))
     (\<lambda>(a, b).
        \<lparr>bm_adapter_id = a, bm_opcode = b\<rparr>)
     (cpair cu16 cu16)"

datatype iph_af = IPH_AF_INET | IPH_AF_INET6

fun iph_af_val :: "iph_af \<Rightarrow> u8" where
  "iph_af_val IPH_AF_INET = 2"
| "iph_af_val IPH_AF_INET6 = 26"

datatype ipnet_dir = IPNET_OUTBOUND | IPNET_INBOUND

fun ipnet_dir_val :: "ipnet_dir \<Rightarrow> u8" where
  "ipnet_dir_val IPNET_OUTBOUND = 1"
| "ipnet_dir_val IPNET_INBOUND = 2"

subsection \<open>The codecs are codecs\<close>

lemmas linktype_codec_defs =
  sll_header_codec_def sll2_header_codec_def pcap_usb_setup_codec_def iso_rec_codec_def
  pcap_usb_header_codec_def pcap_usb_header_mmapped_codec_def usb_isodesc_codec_def
  nflog_hdr_codec_def nflog_tlv_codec_def nflog_packet_hdr_codec_def nflog_hwaddr_codec_def
  nflog_timestamp_codec_def vlan_tag_codec_def pcap_can_socketcan_hdr_codec_def
  pcap_bluetooth_h4_header_codec_def pcap_bluetooth_linux_monitor_header_codec_def

lemma linktype_codecs [codec_intros]:
  "codec_ok sll_header_codec"
  "codec_ok sll2_header_codec"
  "codec_ok pcap_usb_setup_codec"
  "codec_ok iso_rec_codec"
  "codec_ok pcap_usb_header_codec"
  "codec_ok pcap_usb_header_mmapped_codec"
  "codec_ok usb_isodesc_codec"
  "codec_ok nflog_hdr_codec"
  "codec_ok nflog_tlv_codec"
  "codec_ok nflog_packet_hdr_codec"
  "codec_ok nflog_hwaddr_codec"
  "codec_ok nflog_timestamp_codec"
  "codec_ok vlan_tag_codec"
  "codec_ok pcap_can_socketcan_hdr_codec"
  "codec_ok pcap_bluetooth_h4_header_codec"
  "codec_ok pcap_bluetooth_linux_monitor_header_codec"
  unfolding linktype_codec_defs by (intro codec_intros; auto)+

lemma c_fields_bytes [simp]: "c_fields cbytes4 = [1, 1, 1, 1]" "c_fields cbytes8 = [1, 1, 1, 1, 1, 1, 1, 1]"
  by (simp_all add: cbytes8_def cbytes4_def)

text \<open>The structs have no holes, and their sizes are these.\<close>

lemma linktype_layouts:
  "packed (c_fields sll_header_codec) \<and> struct_size (c_fields sll_header_codec) = SLL_HDR_LEN"
  "packed (c_fields sll2_header_codec) \<and> struct_size (c_fields sll2_header_codec) = SLL2_HDR_LEN"
  "packed (c_fields pcap_usb_setup_codec) \<and> struct_size (c_fields pcap_usb_setup_codec) = 8"
  "packed (c_fields iso_rec_codec) \<and> struct_size (c_fields iso_rec_codec) = 8"
  "packed (c_fields pcap_usb_header_codec) \<and> struct_size (c_fields pcap_usb_header_codec) = 48"
  "packed (c_fields pcap_usb_header_mmapped_codec) \<and> struct_size (c_fields pcap_usb_header_mmapped_codec) = 64"
  "packed (c_fields usb_isodesc_codec) \<and> struct_size (c_fields usb_isodesc_codec) = 16"
  "packed (c_fields nflog_hdr_codec) \<and> struct_size (c_fields nflog_hdr_codec) = 4"
  "packed (c_fields nflog_tlv_codec) \<and> struct_size (c_fields nflog_tlv_codec) = 4"
  "packed (c_fields nflog_packet_hdr_codec) \<and> struct_size (c_fields nflog_packet_hdr_codec) = 4"
  "packed (c_fields nflog_hwaddr_codec) \<and> struct_size (c_fields nflog_hwaddr_codec) = 12"
  "packed (c_fields nflog_timestamp_codec) \<and> struct_size (c_fields nflog_timestamp_codec) = 16"
  "packed (c_fields vlan_tag_codec) \<and> struct_size (c_fields vlan_tag_codec) = VLAN_TAG_LEN"
  "packed (c_fields pcap_can_socketcan_hdr_codec) \<and> struct_size (c_fields pcap_can_socketcan_hdr_codec) = 8"
  "packed (c_fields pcap_bluetooth_h4_header_codec) \<and> struct_size (c_fields pcap_bluetooth_h4_header_codec) = 4"
  "packed (c_fields pcap_bluetooth_linux_monitor_header_codec) \<and> struct_size (c_fields pcap_bluetooth_linux_monitor_header_codec) = 4"
  by (simp_all add: linktype_codec_defs packed_def struct_size_def round_up_def SLL_HDR_LEN_def
      SLL2_HDR_LEN_def VLAN_TAG_LEN_def numeral_2_eq_2 [symmetric] del: One_nat_def)

interpretation sll: fixed_codec "c_enc sll_header_codec" "c_dec sll_header_codec" 16
  by (rule codec_interface) (simp_all add: linktype_codecs, simp add: linktype_codec_defs)

interpretation sll2: fixed_codec "c_enc sll2_header_codec" "c_dec sll2_header_codec" 20
  by (rule codec_interface) (simp_all add: linktype_codecs, simp add: linktype_codec_defs)

interpretation usb: fixed_codec "c_enc pcap_usb_header_codec" "c_dec pcap_usb_header_codec" 48
  by (rule codec_interface) (simp_all add: linktype_codecs, simp add: linktype_codec_defs)

interpretation usb_mmapped: fixed_codec "c_enc pcap_usb_header_mmapped_codec"
    "c_dec pcap_usb_header_mmapped_codec" 64
  by (rule codec_interface) (simp_all add: linktype_codecs, simp add: linktype_codec_defs)

text \<open>Both views of the union stand for the same eight bytes.\<close>

interpretation usetup: fixed_codec "c_enc pcap_usb_setup_codec" "c_dec pcap_usb_setup_codec" 8
  by (rule codec_interface) (simp_all add: linktype_codecs, simp add: linktype_codec_defs)

interpretation iso: fixed_codec "c_enc iso_rec_codec" "c_dec iso_rec_codec" 8
  by (rule codec_interface) (simp_all add: linktype_codecs, simp add: linktype_codec_defs)

interpretation bytes8: fixed_codec "c_enc cbytes8" "c_dec cbytes8" 8
  by (rule codec_interface) (simp_all add: codec_ok_cbytes)

lemma usb_union_views:
  "c_enc pcap_usb_setup_codec (um_setup h) = c_enc iso_rec_codec (um_iso h)"
  by (simp add: um_setup_def um_iso_def usetup.enc_dec iso.enc_dec bytes8.length_enc)

end
