(* ===== verification/Spec2Isabelle.thy ===== *)
theory Spec2Isabelle
  imports Confined Echo HttpProps Stubs Libpcap Linktypes
begin

text \<open>
  A model of a user-space network stack written in C: Ethernet, ARP, IPv4, ICMP, UDP and TCP on top
  of libpcap, with a small web server and two echo services as its applications.

  \<^bold>\<open>How the program works.\<close> \<^verbatim>\<open>main\<close> initialises the layers, opens its ports and then alternates for ever
  between \<^verbatim>\<open>net_poll\<close>, which takes at most one frame from libpcap and lets it climb through the layers,
  and \<^verbatim>\<open>http_server_run\<close>, which serves the connections that TCP has accepted. There is one thread and
  no interrupt: everything is a sequence of calls on global variables. A layer finds the next one
  through a table of function pointers (\<^verbatim>\<open>net_table\<close>, \<^verbatim>\<open>udp_table\<close>, \<^verbatim>\<open>tcp_table\<close>). A packet is a window
  into a large array, and the layers push and pop their headers at the front of that window.

  \<^bold>\<open>How it is modelled.\<close> One record, \<open>net\<close>, holds the global variables of all files, the heap, the frames
  exchanged with libpcap, the clock and the random numbers; a function of the program is a function
  from states to \<open>fault + result\<close>. A fault is an access out of bounds, a null pointer, a freed cell, a
  failed assertion, or a loop that has used up its fuel; the -1 the program returns itself is a result.
  Machine integers keep their width. A buffer is passed by reference (\<open>bufref\<close>), a connection as the
  number of its slot in \<open>connect_table\<close>, a function pointer as a constructor (\<open>net_handler\<close>,
  \<open>udp_handler_t\<close>, \<open>tcp_handler_t\<close>). The clock is the same during one operation and never goes back.

  \<^bold>\<open>The parts\<close>, from the bottom to the top, with the source each models:

  \<^item> \<open>Prelude\<close>: integers, faults, byte memory, and the named collections of lemmas.
  \<^item> \<open>Utils\<close> (\<^verbatim>\<open>src/utils.c\<close>): byte order, checksum, prefix match and printing. The checksum is the one of
    RFC 1071; the prefix match is the longest common prefix; the texts fit their static buffers.
  \<^item> \<open>Buf\<close> (\<^verbatim>\<open>src/buf.c\<close>): the packet window. Every operation keeps it in the array and refines an
    operation on the list of its bytes.
  \<^item> \<open>NetMap\<close> (\<^verbatim>\<open>src/map.c\<close>): the table with expiring entries. It refines a finite map, and without a
    timeout its counter is exact; expired entries are never subtracted from it.
  \<^item> \<open>Queue\<close> (\<^verbatim>\<open>src/queue.c\<close>) and \<open>State\<close> (\<^verbatim>\<open>include\<close> and the send and receive functions of
    \<^verbatim>\<open>src/driver.c\<close>): the heap, the linked queue, the global state.
  \<^item> \<open>Ethernet\<close>, \<open>Arp\<close>, \<open>Ip\<close>, \<open>Icmp\<close>, \<open>IpIn\<close>, \<open>Udp\<close> (the files of these names): for each layer the codec of
    its header, its operations, what exactly it puts on the wire and hands to the layer above, and
    that what it sends is accepted by the same layer of the receiver. Waiting packets leave when
    their address is resolved; to a resolved address, fragments reassemble to the payload.
  \<^item> \<open>Tcp\<close>, \<open>TcpData\<close>, \<open>TcpIn\<close>, \<open>TcpProps\<close>, \<open>TcpStates\<close>, \<open>Confined\<close> (\<^verbatim>\<open>src/tcp.c\<close>): the operations of a
    connection, its two byte streams, the receive function, the handshake and the resets; the abstract
    state machine \<open>tcp_next\<close>; the invariant \<open>owned\<close>, under which every connection that is not in LISTEN
    has two live buffers of its own; and that \<open>tcp_in\<close> refines the machine and changes no other
    connection and no buffer of another connection.
  \<^item> \<open>App\<close>, \<open>Http\<close>, \<open>Main_Loop\<close> (\<^verbatim>\<open>src/http.c\<close>, \<^verbatim>\<open>src/main.c\<close>): the handlers, the web server, the program.
    \<open>Ring\<close> shows that the ring of accepted connections is a queue, \<open>HttpProps\<close> what a request is
    answered with and what happens to the server when a connection is reset.
  \<^item> \<open>Driver\<close>, \<open>Net\<close> (\<^verbatim>\<open>src/driver.c\<close>, \<^verbatim>\<open>src/net.c\<close>): opening the network interface, and the dispatcher.
    \<open>DriverProps\<close> shows which interface is chosen: the one whose last IPv4 address matches best.
  \<^item> \<open>Frames\<close>, \<open>System\<close>, \<open>Boot\<close>, \<open>Dispatch\<close>: the composition. \<open>Frames\<close> lists what the lower layers leave alone,
    \<open>System\<close> shows that one round of the main loop is \<open>safe\<close>, \<open>Boot\<close> that the program starts in a
    \<open>ready\<close> state and stays in ready states, \<open>Dispatch\<close> what the dispatcher does in a ready state.
    \<open>Receive\<close> shows that frames without TCP are processed without a fault as long as the receive window
    has room, at least 1900 of them from the start on, and that the window does run out. \<open>Echo\<close> follows
    a ping and a UDP message from the wire through all layers to the one frame that answers it.
  \<^item> \<open>Harness\<close> (\<^verbatim>\<open>testing/global.c\<close>, \<^verbatim>\<open>testing/faker/driver.c\<close> and the comparison of
    \<^verbatim>\<open>testing/ip_frag_test.c\<close>): the reader of lines, the comparisons that decide whether a test passes,
    and the driver on capture files. \<open>Stubs\<close> (\<^verbatim>\<open>testing/faker\<close>): what the stubs of the layers write to the log.
  \<^item> \<open>Structs\<close>, \<open>Libpcap\<close>, \<open>Linktypes\<close> (\<^verbatim>\<open>Npcap/Include/pcap\<close>): the data of the libpcap headers. \<open>Structs\<close> builds
    codecs of structs and compares them with the layout a C compiler chooses; \<open>Libpcap\<close> has the filter
    instructions, whose opcodes are distinct and taken apart by the macros, the file header, and the flags
    and link types; \<open>Linktypes\<close> has the headers of other links.

  \<^bold>\<open>Interfaces.\<close> These contracts are locales: \<open>header_stack\<close> (pushing and popping headers),
  \<open>fixed_codec\<close> (encoding a header; interpreted for the headers of all layers and of libpcap),
  \<open>kv_table\<close> and its extension \<open>counted_table\<close> (a table), and \<open>fifo\<close> (a queue; the linked queue and the ring). The properties are theorems about
  the model's own definitions, reached through these interpretations.

  \<^bold>\<open>Loops and fuel.\<close> Loops over a list, a table or a file are recursive functions with a proof that they
  end. The walks along a queue have the number of addresses ever allocated plus one as fuel, which a
  well-formed queue does not use up (\<open>queue_free_data_ok\<close>). \<open>net_in\<close> may call itself through \<open>ip_in\<close>, and
  a depth of 2 gives the result of every greater depth (\<open>net_in_depth\<close>). The loops of the web server wait
  for the network and may never end; their fuel is a parameter, and \<open>http_get_answered\<close> shows that a
  request that has arrived is answered with any fuel above 1024. The main loop runs once for each
  reading of the clock it is given.

  \<^bold>\<open>Not modelled.\<close> The messages on the terminal; the pause between two rounds; \<^verbatim>\<open>driver_close\<close>, which
  only calls libpcap; loading the Windows library is one Boolean. libpcap and the file system are
  parameters: the functions of \<open>pcap_lib\<close>, the packets to come, and the contents of the files.
  \<^verbatim>\<open>malloc\<close> and \<^verbatim>\<open>realloc\<close> never fail, as the source assumes. Of the tests, the main programs that open
  files and feed packets, and the registration of the stubs, are left out. Of the vendored headers of
  libpcap, the functions they declare are not under \<^verbatim>\<open>src\<close>; the list of some two hundred link types
  (\<^verbatim>\<open>dlt.h\<close>), which only numbers them, \<^verbatim>\<open>Packet32.h\<close>, which the program does not include, and the headers
  of preprocessor tests and export macros are left out.
\<close>

end
